(* ===== verification/Prelude.thy ===== *)
theory Prelude
  imports Main "HOL-Library.Word" "HOL-Library.Char_ord" "HOL-Library.List_Lexorder"
begin

text \<open>
  The vocabulary every component theory of the development shares: machine integers, bytes,
  the ways a C++ operation can go wrong, and the two byte-order routines the wire format
  rests on.

  Integers keep the width the source gives them (\<open>uint8_t\<close> .. \<open>uint64_t\<close>). A byte of memory
  is a \<open>char\<close>, so that a \<open>std::string\<close> and a raw buffer are both lists of bytes. The target is
  a little-endian machine with 64-bit \<open>size_t\<close> and \<open>unsigned long\<close> (x86-64 Linux, the platform
  of \<open>CMakeLists.txt\<close>).
\<close>

section \<open>Machine types\<close>

type_synonym u8 = "8 word"
type_synonym u16 = "16 word"
type_synonym u32 = "32 word"
type_synonym u64 = "64 word"
type_synonym bytes = "char list"

abbreviation NUL :: char where "NUL \<equiv> CHR 0x00"

text \<open>Collections of rewrite rules that the component theories extend.\<close>

named_theorems res_simps \<open>evaluation of computations that may fault\<close>
named_theorems proto_consts \<open>numeric values of the preprocessor constants and enumerators\<close>

section \<open>Faults\<close>

text \<open>
  A C++ operation either returns, or runs into behaviour the language does not define (or that
  ends the process). Every such place of the source is a branch of the model that returns
  \<open>Inl\<close> of the reason, so that a theorem about the normal result also says that none of them
  was met.
\<close>

datatype fault =
    OutOfBounds      \<comment> \<open>access outside an array, a buffer or a \<open>vector\<close>\<close>
  | NullDeref        \<comment> \<open>use of a null pointer\<close>
  | BadIterator      \<comment> \<open>an iterator outside its container is dereferenced\<close>
  | Uninitialised    \<comment> \<open>an indeterminate value is read\<close>
  | Unrepresentable  \<comment> \<open>a numeric conversion whose result does not fit\<close>
  | UseAfterFree     \<comment> \<open>use of a deleted object\<close>
  | Uncaught         \<comment> \<open>an exception no handler of the program catches\<close>
  | ProcessExit      \<comment> \<open>a call of \<open>exit\<close>\<close>
  | NoReturn         \<comment> \<open>a call that never returns\<close>

type_synonym 'a res = "fault + 'a"

fun rbind :: "'a res \<Rightarrow> ('a \<Rightarrow> 'b res) \<Rightarrow> 'b res" where
  "rbind (Inl e) f = Inl e"
| "rbind (Inr x) f = f x"

fun guard_res :: "bool \<Rightarrow> fault \<Rightarrow> unit res" where
  "guard_res b e = (if b then Inr () else Inl e)"

text \<open>The outcome of a call that may never return, seen by its caller.\<close>

fun returned :: "'a res option \<Rightarrow> 'a res" where
  "returned None = Inl NoReturn"
| "returned (Some r) = r"

text \<open>Reading a variable that may not have been initialised.\<close>

fun read_init :: "'a option \<Rightarrow> 'a res" where
  "read_init None = Inl Uninitialised"
| "read_init (Some x) = Inr x"

text \<open>\<open>v[i]\<close> on a \<open>vector\<close> or an array.\<close>

definition vec_at :: "'a list \<Rightarrow> nat \<Rightarrow> 'a res" where
  "vec_at xs i = (if i < length xs then Inr (xs ! i) else Inl OutOfBounds)"

text \<open>A loop over the elements of a container whose body may fault.\<close>

fun rfold :: "('a \<Rightarrow> 's \<Rightarrow> 's res) \<Rightarrow> 'a list \<Rightarrow> 's \<Rightarrow> 's res" where
  "rfold f [] s = Inr s"
| "rfold f (x # xs) s = rbind (f x s) (rfold f xs)"

declare rbind.simps [res_simps] guard_res.simps [res_simps] rfold.simps [res_simps]
  read_init.simps [res_simps] vec_at_def [res_simps]

lemma rbind_Inr_iff: "rbind m f = Inr y \<longleftrightarrow> (\<exists>x. m = Inr x \<and> f x = Inr y)"
  by (cases m) auto

lemma rbind_Inl_iff: "rbind m f = Inl e \<longleftrightarrow> m = Inl e \<or> (\<exists>x. m = Inr x \<and> f x = Inl e)"
  by (cases m) auto

lemma rbind_assoc: "rbind (rbind m f) g = rbind m (\<lambda>x. rbind (f x) g)"
  by (cases m) auto

lemma rbind_return [simp]: "rbind m Inr = m"
  by (cases m) auto

lemma rfold_append: "rfold f (xs @ ys) s = rbind (rfold f xs s) (rfold f ys)"
proof (induction xs arbitrary: s)
  case (Cons x xs)
  then show ?case by (cases "f x s") simp_all
qed simp

lemma rfold_Nil: "rfold f [] = Inr"
  by (rule ext) simp

lemma rfold_single [simp]: "rfold f [x] = f x"
  by (rule ext) (simp add: rfold_Nil)

lemma rfold_invariant:
  assumes "rfold f xs s = Inr t" and "P s"
    and "\<And>x s t. x \<in> set xs \<Longrightarrow> P s \<Longrightarrow> f x s = Inr t \<Longrightarrow> P t"
  shows "P t"
  using assms
proof (induction xs arbitrary: s)
  case Nil
  then show ?case by simp
next
  case (Cons x xs)
  from Cons.prems(1) obtain u where u: "f x s = Inr u" and rest: "rfold f xs u = Inr t"
    by (auto simp: rbind_Inr_iff)
  have "P u" using Cons.prems(2,3) u by auto
  with rest show ?case using Cons.IH Cons.prems(3) by auto
qed

lemma rfold_total:
  assumes "\<And>x s. x \<in> set xs \<Longrightarrow> P s \<Longrightarrow> \<exists>t. f x s = Inr t \<and> P t" and "P s"
  shows "\<exists>t. rfold f xs s = Inr t \<and> P t"
  using assms
proof (induction xs arbitrary: s)
  case Nil
  then show ?case by simp
next
  case (Cons x xs)
  then obtain u where "f x s = Inr u" and "P u" by (metis list.set_intros(1))
  with Cons show ?case by auto
qed

section \<open>Words in memory\<close>

text \<open>
  \<open>le_bytes n w\<close> is the memory image of the low \<open>n\<close> bytes of \<open>w\<close>, \<open>of_le\<close> reads one back.
  \<open>htons\<close> and \<open>htonl\<close> swap the bytes of a value, as the C library documents; they are their own
  inverses, so \<open>ntohs\<close> and \<open>ntohl\<close> are the same functions.
\<close>

primrec le_bytes :: "nat \<Rightarrow> 'a::len word \<Rightarrow> bytes" where
  "le_bytes 0 w = []"
| "le_bytes (Suc n) w = char_of (unat w) # le_bytes n (drop_bit 8 w)"

primrec of_le :: "bytes \<Rightarrow> 'a::len word" where
  "of_le [] = 0"
| "of_le (c # cs) = of_nat (of_char c) + 256 * of_le cs"

definition htons :: "u16 \<Rightarrow> u16" where
  "htons w = of_le (rev (le_bytes 2 w))"

definition htonl :: "u32 \<Rightarrow> u32" where
  "htonl w = of_le (rev (le_bytes 4 w))"

abbreviation ntohs :: "u16 \<Rightarrow> u16" where "ntohs \<equiv> htons"
abbreviation ntohl :: "u32 \<Rightarrow> u32" where "ntohl \<equiv> htonl"

lemma length_le_bytes [simp]: "length (le_bytes n w) = n"
  by (induction n arbitrary: w) auto

lemma of_char_less_256: "(of_char c :: nat) < 256"
  using of_char_mod_256[of c, where ?'a = nat] mod_less_divisor[of 256 "of_char c"] by simp

text \<open>The value of a byte list, as a natural number.\<close>

primrec le_nat :: "bytes \<Rightarrow> nat" where
  "le_nat [] = 0"
| "le_nat (c # cs) = of_char c + 256 * le_nat cs"

lemma le_nat_less: "le_nat cs < 256 ^ length cs"
proof (induction cs)
  case Nil
  then show ?case by simp
next
  case (Cons c cs)
  have "of_char c + 256 * le_nat cs < 256 + 256 * le_nat cs"
    using of_char_less_256[of c] by simp
  also have "\<dots> = 256 * (le_nat cs + 1)" by simp
  also have "\<dots> \<le> 256 * 256 ^ length cs" using Cons by (intro mult_left_mono) auto
  finally show ?case by simp
qed

lemma of_le_le_nat: "(of_le cs :: 'a::len word) = of_nat (le_nat cs)"
  by (induction cs) auto

lemma unat_of_le:
  assumes "8 * length cs \<le> LENGTH('a::len)"
  shows "unat (of_le cs :: 'a word) = le_nat cs"
proof -
  have "le_nat cs < 2 ^ (8 * length cs)"
    using le_nat_less[of cs] by (simp add: power_mult)
  also have "\<dots> \<le> 2 ^ LENGTH('a)" using assms by (intro power_increasing) auto
  finally show ?thesis by (simp add: of_le_le_nat unat_of_nat take_bit_nat_eq_self)
qed

lemma unat_less_pow: "unat (w :: 'a::len word) < 2 ^ LENGTH('a)"
  by (rule unsigned_less)

lemma unat_of_nat_less: "n < 2 ^ LENGTH('a) \<Longrightarrow> unat (of_nat n :: 'a::len word) = n"
  by (simp add: unat_of_nat)

lemma unat_of_nat_u16: "n < 2 ^ 16 \<Longrightarrow> unat (of_nat n :: u16) = n"
  by (rule unat_of_nat_less) simp

lemma unat_of_nat_u32: "n < 2 ^ 32 \<Longrightarrow> unat (of_nat n :: u32) = n"
  by (rule unat_of_nat_less) simp

lemma unat_of_nat_u64: "n < 2 ^ 64 \<Longrightarrow> unat (of_nat n :: u64) = n"
  by (rule unat_of_nat_less) simp

lemma ucast_of_nat_less:
  "n < 2 ^ LENGTH('a) \<Longrightarrow> (ucast (of_nat n :: 'a::len word) :: 'b::len word) = of_nat n"
  by (metis of_nat_unat unat_of_nat_less)

lemma word_eq_of_nat: "unat (w :: 'a::len word) = n \<Longrightarrow> w = of_nat n"
  by auto

lemma unat_plus_one_less: "i < (n :: 'a::len word) \<Longrightarrow> unat (i + 1) = unat i + 1"
proof -
  assume "i < n"
  then have "unat i + 1 \<le> unat n" by (simp add: word_less_nat_alt)
  also have "\<dots> < 2 ^ LENGTH('a)" by (rule unat_less_pow)
  finally have "unat i + 1 < 2 ^ LENGTH('a)" .
  then have "unat (of_nat (unat i + 1) :: 'a word) = unat i + 1" by (rule unat_of_nat_less)
  then show ?thesis by (simp add: add.commute)
qed

lemma unat_drop_bit_8: "unat (drop_bit 8 w) = unat (w :: 'a::len word) div 256"
  by (subst unat_drop_bit_eq) (simp add: drop_bit_eq_div)

lemma le_nat_le_bytes: "le_nat (le_bytes n (w :: 'a::len word)) = unat w mod 256 ^ n"
proof (induction n arbitrary: w)
  case 0
  then show ?case by simp
next
  case (Suc n)
  have "unat w mod (256 * 256 ^ n) = 256 * (unat w div 256 mod 256 ^ n) + unat w mod 256"
    by (rule mod_mult2_eq)
  then show ?case by (simp add: Suc unat_drop_bit_8 of_char_of)
qed

lemma of_le_le_bytes:
  assumes "LENGTH('a::len) \<le> 8 * n"
  shows "of_le (le_bytes n (w :: 'a word)) = w"
proof -
  have "(2::nat) ^ LENGTH('a) \<le> 2 ^ (8 * n)" using assms by (intro power_increasing) auto
  then have "unat w < 2 ^ (8 * n)" using less_le_trans [OF unsigned_less] by blast
  then have "unat w < 256 ^ n" by (simp add: power_mult)
  then show ?thesis by (simp add: of_le_le_nat le_nat_le_bytes)
qed

lemma le_nat_inj: "length cs = length ds \<Longrightarrow> le_nat cs = le_nat ds \<Longrightarrow> cs = ds"
proof (induction cs arbitrary: ds)
  case Nil
  then show ?case by simp
next
  case (Cons c cs)
  then obtain d ds' where ds: "ds = d # ds'" by (cases ds) auto
  have eq: "of_char c + 256 * le_nat cs = of_char d + 256 * le_nat ds'"
    using Cons.prems ds by simp
  then have "(of_char c + 256 * le_nat cs) mod 256 = (of_char d + 256 * le_nat ds') mod 256"
    by simp
  then have "(of_char c :: nat) = of_char d"
    using of_char_less_256 by simp
  with eq Cons ds show ?case by (simp add: of_char_eq_iff)
qed

lemma le_bytes_of_le:
  assumes "length cs = n" and "LENGTH('a::len) = 8 * n"
  shows "le_bytes n (of_le cs :: 'a word) = cs"
proof (rule le_nat_inj)
  show "le_nat (le_bytes n (of_le cs :: 'a word)) = le_nat cs"
    using assms le_nat_less[of cs] by (simp add: le_nat_le_bytes unat_of_le)
qed (use assms in simp)

lemma htons_htons [simp]: "htons (htons w) = w"
  by (simp add: htons_def le_bytes_of_le of_le_le_bytes)

lemma htonl_htonl [simp]: "htonl (htonl w) = w"
  by (simp add: htonl_def le_bytes_of_le of_le_le_bytes)

lemma htons_inject [simp]: "htons a = htons b \<longleftrightarrow> a = b"
  by (metis htons_htons)

lemma htonl_inject [simp]: "htonl a = htonl b \<longleftrightarrow> a = b"
  by (metis htonl_htonl)

section \<open>C strings in a buffer\<close>

text \<open>
  \<open>cstr_at mem i\<close> is what \<open>string(p)\<close> or \<open>strlen(p)\<close> reads from the address \<open>i\<close> of a buffer: the
  bytes up to the first NUL. Without a NUL before the end of the buffer the read runs out of it.
\<close>

definition cstr_at :: "bytes \<Rightarrow> nat \<Rightarrow> string res" where
  "cstr_at mem i =
     (if NUL \<in> set (drop i mem) then Inr (takeWhile (\<lambda>c. c \<noteq> NUL) (drop i mem))
      else Inl OutOfBounds)"

text \<open>\<open>slice mem i n\<close> is what \<open>memcpy\<close> of \<open>n\<close> bytes at address \<open>i\<close> reads.\<close>

definition slice :: "bytes \<Rightarrow> nat \<Rightarrow> nat \<Rightarrow> bytes res" where
  "slice mem i n = (if i + n \<le> length mem then Inr (take n (drop i mem)) else Inl OutOfBounds)"

text \<open>\<open>store mem i bs\<close> is what writing \<open>bs\<close> at address \<open>i\<close> leaves in the buffer.\<close>

definition store :: "bytes \<Rightarrow> nat \<Rightarrow> bytes \<Rightarrow> bytes res" where
  "store mem i bs =
     (if i + length bs \<le> length mem then Inr (take i mem @ bs @ drop (i + length bs) mem)
      else Inl OutOfBounds)"

lemma takeWhile_NUL_append:
  "NUL \<notin> set s \<Longrightarrow> takeWhile (\<lambda>c. c \<noteq> NUL) (s @ NUL # r) = s"
  by (induction s) auto

lemma cstr_at_append:
  "NUL \<notin> set s \<Longrightarrow> cstr_at (pre @ s @ NUL # r) (length pre) = Inr s"
  by (simp add: cstr_at_def takeWhile_NUL_append)

lemma length_takeWhile_less:
  "x \<in> set xs \<Longrightarrow> \<not> P x \<Longrightarrow> length (takeWhile P xs) < length xs"
  by (induction xs) auto

lemma cstr_at_length:
  assumes "cstr_at mem i = Inr s"
  shows "i + length s < length mem"
proof -
  from assms have "NUL \<in> set (drop i mem)" and s: "s = takeWhile (\<lambda>c. c \<noteq> NUL) (drop i mem)"
    by (auto simp: cstr_at_def split: if_splits)
  from length_takeWhile_less [OF this(1), of "\<lambda>c. c \<noteq> NUL"] s show ?thesis by simp
qed

lemma cstr_at_no_NUL: "cstr_at mem i = Inr s \<Longrightarrow> NUL \<notin> set s"
  by (auto simp: cstr_at_def split: if_splits dest: set_takeWhileD)

lemma slice_length: "slice mem i n = Inr bs \<Longrightarrow> length bs = n"
  by (auto simp: slice_def split: if_splits)

lemma slice_append_middle:
  "i = length pre \<Longrightarrow> n = length mid \<Longrightarrow> slice (pre @ mid @ post) i n = Inr mid"
  by (simp add: slice_def)

lemma store_length: "store mem i bs = Inr mem' \<Longrightarrow> length mem' = length mem"
  by (auto simp: store_def split: if_splits)

lemma store_append_middle:
  "i = length pre \<Longrightarrow> length bs = length mid \<Longrightarrow>
   store (pre @ mid @ post) i bs = Inr (pre @ bs @ post)"
  by (simp add: store_def)

end
