(* ===== verification/Std_Map.thy ===== *)
theory Std_Map
  imports Prelude "HOL-Library.Multiset"
begin

text \<open>
  \<open>std::map\<close> with its comparator. The program keys its maps with \<open>std::string\<close> and with
  \<open>NetAddr\<close>; the second comparator looks at the IP address only, so two keys can be equivalent
  without being equal, and the model keeps the comparator as an argument. A map is the list of
  its entries in iteration order. \<open>sm_put\<close> on a key equivalent to a stored one keeps the stored
  key and replaces the value, as \<open>m[k] = v\<close> does, and \<open>sm_index\<close> is the lookup \<open>m[k]\<close>, which
  inserts a default value when the key is absent.

  What the standard requires of a comparator is the locale \<open>weak_order\<close>; a comparator under
  which equivalent keys are equal is a \<open>strict_order\<close>. The laws of the map are proved once in
  these locales.
\<close>

type_synonym ('k, 'v) smap = "('k \<times> 'v) list"

fun sm_find :: "('k \<Rightarrow> 'k \<Rightarrow> bool) \<Rightarrow> 'k \<Rightarrow> ('k, 'v) smap \<Rightarrow> 'v option" where
  "sm_find lt k [] = None"
| "sm_find lt k ((k', v) # m) =
     (if lt k k' then None else if lt k' k then sm_find lt k m else Some v)"

fun sm_put :: "('k \<Rightarrow> 'k \<Rightarrow> bool) \<Rightarrow> 'k \<Rightarrow> 'v \<Rightarrow> ('k, 'v) smap \<Rightarrow> ('k, 'v) smap" where
  "sm_put lt k v [] = [(k, v)]"
| "sm_put lt k v ((k', v') # m) =
     (if lt k k' then (k, v) # (k', v') # m
      else if lt k' k then (k', v') # sm_put lt k v m
      else (k', v) # m)"

fun sm_erase :: "('k \<Rightarrow> 'k \<Rightarrow> bool) \<Rightarrow> 'k \<Rightarrow> ('k, 'v) smap \<Rightarrow> ('k, 'v) smap" where
  "sm_erase lt k [] = []"
| "sm_erase lt k ((k', v') # m) =
     (if lt k k' then (k', v') # m
      else if lt k' k then (k', v') # sm_erase lt k m
      else m)"

definition sm_index ::
    "('k \<Rightarrow> 'k \<Rightarrow> bool) \<Rightarrow> 'v \<Rightarrow> 'k \<Rightarrow> ('k, 'v) smap \<Rightarrow> 'v \<times> ('k, 'v) smap" where
  "sm_index lt d k m =
     (case sm_find lt k m of Some v \<Rightarrow> (v, m) | None \<Rightarrow> (d, sm_put lt k d m))"

definition sm_sorted :: "('k \<Rightarrow> 'k \<Rightarrow> bool) \<Rightarrow> ('k, 'v) smap \<Rightarrow> bool" where
  "sm_sorted lt m \<longleftrightarrow> sorted_wrt lt (map fst m)"

definition sm_keys :: "('k, 'v) smap \<Rightarrow> 'k set" where
  "sm_keys m = fst ` set m"

lemma sm_sorted_Nil [simp]: "sm_sorted lt []"
  by (simp add: sm_sorted_def)

lemma sm_sorted_Cons [simp]:
  "sm_sorted lt ((k, v) # m) \<longleftrightarrow> (\<forall>k' \<in> sm_keys m. lt k k') \<and> sm_sorted lt m"
  by (auto simp: sm_sorted_def sm_keys_def)

lemma sm_keys_simps [simp]: "sm_keys [] = {}" "sm_keys (e # m) = insert (fst e) (sm_keys m)"
  by (auto simp: sm_keys_def)

lemma sm_keys_put_subset: "sm_keys (sm_put lt k v m) \<subseteq> insert k (sm_keys m)"
  by (induction lt k v m rule: sm_put.induct) auto

lemma sm_keys_erase_subset: "sm_keys (sm_erase lt k m) \<subseteq> sm_keys m"
  by (induction lt k m rule: sm_erase.induct) auto

lemma set_sm_put_subset: "set (sm_put lt k v m) \<subseteq> insert (k, v) (set m \<union> (\<lambda>k'. (k', v)) ` sm_keys m)"
  by (induction lt k v m rule: sm_put.induct) auto

lemma set_sm_erase_subset: "set (sm_erase lt k m) \<subseteq> set m"
  by (induction lt k m rule: sm_erase.induct) auto

lemma sm_find_values: "sm_find lt k m = Some v \<Longrightarrow> v \<in> snd ` set m"
  by (induction lt k m rule: sm_find.induct) (auto split: if_splits)

lemma values_sm_put: "snd ` set (sm_put lt k v m) \<subseteq> insert v (snd ` set m)"
  by (induction lt k v m rule: sm_put.induct) auto

lemma sm_put_all_values:
  "\<forall>(k', v') \<in> set m. P v' \<Longrightarrow> P v \<Longrightarrow> \<forall>(k', v') \<in> set (sm_put lt k v m). P v'"
  by (induction lt k v m rule: sm_put.induct) auto

lemma sm_put_not_Nil [simp]: "sm_put lt k v m \<noteq> []"
  by (cases "(lt, k, v, m)" rule: sm_put.cases) auto

lemma map_of_rev: "distinct (map fst xs) \<Longrightarrow> map_of (rev xs) = map_of xs"
proof (induction xs)
  case (Cons e xs)
  then have "map_of xs (fst e) = None" by (simp add: map_of_eq_None_iff)
  with Cons show ?case by (auto simp: fun_eq_iff map_add_def split: option.splits)
qed simp

section \<open>The contract of a comparator\<close>

locale weak_order =
  fixes lt :: "'k \<Rightarrow> 'k \<Rightarrow> bool"
  assumes irrefl: "\<not> lt a a"
    and trans: "lt a b \<Longrightarrow> lt b c \<Longrightarrow> lt a c"
    and neg_trans: "lt a c \<Longrightarrow> lt a b \<or> lt b c"
begin

definition eqv :: "'k \<Rightarrow> 'k \<Rightarrow> bool" where
  "eqv a b \<longleftrightarrow> \<not> lt a b \<and> \<not> lt b a"

lemma eqv_refl [simp]: "eqv a a"
  by (simp add: eqv_def irrefl)

lemma eqv_sym: "eqv a b \<longleftrightarrow> eqv b a"
  by (auto simp: eqv_def)

lemma asym: "lt a b \<Longrightarrow> \<not> lt b a"
  using irrefl trans by blast

lemma eqv_lt_left: "eqv a b \<Longrightarrow> lt a c \<longleftrightarrow> lt b c"
  unfolding eqv_def using neg_trans by blast

lemma eqv_lt_right: "eqv a b \<Longrightarrow> lt c a \<longleftrightarrow> lt c b"
  unfolding eqv_def using neg_trans by blast

lemma find_below: "\<forall>k' \<in> sm_keys m. lt k k' \<Longrightarrow> sm_find lt k m = None"
  by (cases m) auto

lemma find_eqv: "eqv j k \<Longrightarrow> sm_find lt j m = sm_find lt k m"
  by (induction m) (auto simp: eqv_lt_left [of j k] eqv_lt_right [of j k])

lemma find_put [simp]:
  "sm_find lt j (sm_put lt k v m) = (if eqv j k then Some v else sm_find lt j m)"
proof (induction m)
  case Nil
  then show ?case by (auto simp: eqv_def)
next
  case (Cons e m)
  obtain k' v' where e: "e = (k', v')" by (cases e)
  consider (below) "lt k k'" | (above) "lt k' k" "\<not> lt k k'" | (same) "eqv k k'"
    by (auto simp: eqv_def)
  then show ?case
  proof cases
    case below
    then show ?thesis using trans [of j k k'] by (auto simp: e eqv_def)
  next
    case above
    then show ?thesis using Cons eqv_lt_right [of j k k'] asym
      by (auto simp: e eqv_def)
  next
    case same
    then have "eqv j k \<longleftrightarrow> eqv j k'"
      using eqv_lt_left [of k k' j] eqv_lt_right [of k k' j] by (auto simp: eqv_def)
    with same show ?thesis by (auto simp: e eqv_def)
  qed
qed

lemma sorted_put [simp]: "sm_sorted lt m \<Longrightarrow> sm_sorted lt (sm_put lt k v m)"
proof (induction m)
  case (Cons e m)
  then show ?case
    using sm_keys_put_subset [of lt k v m] trans by (cases e) auto
qed simp

lemma sorted_erase [simp]: "sm_sorted lt m \<Longrightarrow> sm_sorted lt (sm_erase lt k m)"
proof (induction m)
  case (Cons e m)
  then show ?case
    using sm_keys_erase_subset [of lt k m] by (cases e) auto
qed simp

lemma find_erase [simp]:
  assumes "sm_sorted lt m"
  shows "sm_find lt j (sm_erase lt k m) = (if eqv j k then None else sm_find lt j m)"
  using assms
proof (induction m)
  case (Cons e m)
  obtain k' v' where e: "e = (k', v')" by (cases e)
  consider (below) "lt k k'" | (above) "lt k' k" "\<not> lt k k'" | (same) "eqv k k'"
    by (auto simp: eqv_def)
  then show ?case
  proof cases
    case below
    then show ?thesis by (auto simp: e eqv_lt_left [of j k])
  next
    case above
    then show ?thesis using Cons eqv_lt_right [of j k k'] asym by (auto simp: e eqv_def)
  next
    case same
    have "eqv j k \<Longrightarrow> sm_find lt j m = None"
      using Cons.prems same e by (intro find_below) (auto simp: eqv_lt_left [of j k] eqv_lt_left [of k k'])
    moreover have "lt j k' \<Longrightarrow> sm_find lt j m = None"
      using Cons.prems e trans by (intro find_below) auto
    ultimately show ?thesis using same Cons.prems
      by (auto simp: e eqv_def eqv_lt_left [of k k' j] eqv_lt_right [of k k' j])
  qed
qed simp

lemma find_index [simp]:
  "sm_find lt j (snd (sm_index lt d k m)) =
     (if eqv j k \<and> sm_find lt k m = None then Some d else sm_find lt j m)"
  using find_eqv [of j k m] by (auto simp: sm_index_def split: option.splits)

lemma sorted_index [simp]: "sm_sorted lt m \<Longrightarrow> sm_sorted lt (snd (sm_index lt d k m))"
  by (auto simp: sm_index_def split: option.splits)

end

text \<open>A comparator under which equivalent keys are equal: every \<open>std::map\<close> keyed by a string.\<close>

locale strict_order = weak_order lt for lt :: "'k \<Rightarrow> 'k \<Rightarrow> bool" +
  assumes total: "\<not> lt a b \<Longrightarrow> \<not> lt b a \<Longrightarrow> a = b"
begin

lemma eqv_eq [simp]: "eqv a b \<longleftrightarrow> a = b"
  using total eqv_def irrefl by blast

lemma find_map_of: "sm_sorted lt m \<Longrightarrow> sm_find lt k m = map_of m k"
proof (induction m)
  case (Cons e m)
  obtain k' v' where e: "e = (k', v')" by (cases e)
  have "lt k k' \<Longrightarrow> k \<notin> sm_keys m"
    using Cons.prems e trans irrefl by fastforce
  then have "lt k k' \<Longrightarrow> map_of m k = None"
    by (simp add: map_of_eq_None_iff sm_keys_def)
  with Cons e irrefl asym total show ?case by auto
qed simp

lemma map_of_put: "sm_sorted lt m \<Longrightarrow> map_of (sm_put lt k v m) = (map_of m)(k \<mapsto> v)"
  by (simp add: fun_eq_iff flip: find_map_of)

lemma map_of_erase: "sm_sorted lt m \<Longrightarrow> map_of (sm_erase lt k m) = (map_of m)(k := None)"
  by (simp add: fun_eq_iff flip: find_map_of)

lemma find_Some_in: "sm_find lt k m = Some v \<Longrightarrow> (k, v) \<in> set m"
  by (induction m) (auto split: if_splits dest: total)

lemma sorted_distinct_keys: "sm_sorted lt m \<Longrightarrow> distinct (map fst m)"
proof (induction m)
  case (Cons e m)
  then show ?case using irrefl by (cases e) (force simp: sm_keys_def)
qed simp

lemma keys_put: "sm_keys (sm_put lt k v m) = insert k (sm_keys m)"
proof (induction m)
  case (Cons e m)
  obtain k' v' where "e = (k', v')" by (cases e)
  with Cons total [of k k'] show ?case by auto
qed simp

lemma put_new_entries:
  "sm_find lt k m = None \<Longrightarrow> sm_sorted lt m \<Longrightarrow> mset (sm_put lt k v m) = add_mset (k, v) (mset m)"
  by (induction m) (auto split: if_splits)

lemma put_put [simp]: "sm_put lt k v (sm_put lt k w m) = sm_put lt k v m"
  by (induction m) (auto simp: irrefl)

lemma put_last:
  "\<forall>k' \<in> sm_keys m. lt k' k \<Longrightarrow> sm_put lt k v m = m @ [(k, v)]"
  by (induction m) (auto dest: asym)

lemma foldl_put_sorted:
  "sm_sorted lt (m @ es) \<Longrightarrow> foldl (\<lambda>a (k, v). sm_put lt k v a) m es = m @ es"
proof (induction es arbitrary: m)
  case (Cons e es)
  obtain k v where e: "e = (k, v)" by (cases e)
  from Cons.prems have "\<forall>k' \<in> sm_keys m. lt k' k"
    by (auto simp: e sm_sorted_def sorted_wrt_append sm_keys_def)
  then show ?case using Cons.IH [of "m @ [(k, v)]"] Cons.prems by (simp add: e put_last)
qed simp

lemma values_find: "sm_sorted lt m \<Longrightarrow> v \<in> snd ` set m \<longleftrightarrow> (\<exists>k. sm_find lt k m = Some v)"
  using sorted_distinct_keys [of m] by (force simp: find_map_of dest: map_of_SomeD)

lemma keys_find: "sm_sorted lt m \<Longrightarrow> k \<in> sm_keys m \<longleftrightarrow> sm_find lt k m \<noteq> None"
  by (auto simp: find_map_of sm_keys_def map_of_eq_None_iff)

end

section \<open>String keys\<close>

text \<open>
  \<open>std::string\<close> compares its bytes lexicographically as unsigned values, which is the order of
  \<open>List_Lexorder\<close> over that of \<open>Char_ord\<close>.
\<close>

definition str_less :: "string \<Rightarrow> string \<Rightarrow> bool" where
  "str_less a b \<longleftrightarrow> a < b"

interpretation str_map: strict_order str_less
  by unfold_locales (auto simp: str_less_def)

abbreviation str_find :: "string \<Rightarrow> (string, 'v) smap \<Rightarrow> 'v option" where
  "str_find \<equiv> sm_find str_less"

abbreviation str_put :: "string \<Rightarrow> 'v \<Rightarrow> (string, 'v) smap \<Rightarrow> (string, 'v) smap" where
  "str_put \<equiv> sm_put str_less"

abbreviation str_erase :: "string \<Rightarrow> (string, 'v) smap \<Rightarrow> (string, 'v) smap" where
  "str_erase \<equiv> sm_erase str_less"

abbreviation str_index :: "'v \<Rightarrow> string \<Rightarrow> (string, 'v) smap \<Rightarrow> 'v \<times> (string, 'v) smap" where
  "str_index \<equiv> sm_index str_less"

end
