(* ===== verification/Cxx_Text.thy ===== *)
theory Cxx_Text
  imports Prelude
begin

text \<open>
  The text routines the program shares: \<open>splitstr\<close> of \<open>proto/lan_share_protocol.cpp\<close> (a
  \<open>getline\<close> loop), and what it uses of the standard library for numbers: printing an unsigned
  value in decimal, \<open>sscanf\<close> with \<open>%lu\<close>, \<open>atoi\<close>, and searching a string. A conversion that
  matches no digit leaves its target alone, which is the value \<open>None\<close>; one whose result does not
  fit the type is undefined behaviour in C and faults.
\<close>

section \<open>Splitting at a separator\<close>

text \<open>
  \<open>getline\<close> extracts up to the next separator and drops it; it fails, and ends the loop, when
  nothing is left. A separator at the very end therefore starts no further token.
\<close>

function splitstr :: "string \<Rightarrow> char \<Rightarrow> string list" where
  "splitstr [] split = []"
| "splitstr (c # cs) split =
     (let token = takeWhile (\<lambda>x. x \<noteq> split) (c # cs)
      in token # splitstr (drop (Suc (length token)) (c # cs)) split)"
  by pat_completeness auto
termination
  by (relation "measure (\<lambda>(s, split). length s)") auto

declare splitstr.simps(2) [simp del]

lemma splitstr_sep:
  assumes "d \<notin> set a"
  shows "splitstr (a @ d # r) d = a # splitstr r d"
proof -
  obtain c cs where s: "a @ d # r = c # cs" by (cases "a @ d # r") auto
  have "takeWhile (\<lambda>x. x \<noteq> d) (c # cs) = a"
    using assms s [symmetric] by (simp add: takeWhile_append)
  then show ?thesis
    using s by (simp add: splitstr.simps(2) [of c cs] Let_def) (metis append_eq_conv_conj drop_Suc
        drop_drop length_Cons list.sel(3) s tl_append2 tl_drop)
qed

lemma splitstr_last: "a \<noteq> [] \<Longrightarrow> d \<notin> set a \<Longrightarrow> splitstr a d = [a]"
proof (cases a)
  case (Cons c cs)
  assume "d \<notin> set a"
  then have "takeWhile (\<lambda>x. x \<noteq> d) (c # cs) = c # cs"
    using Cons by (auto simp: takeWhile_eq_all_conv)
  then show ?thesis using Cons by (simp add: splitstr.simps(2) Let_def)
qed simp

lemma splitstr_sep_last: "d \<notin> set a \<Longrightarrow> splitstr (a @ [d]) d = [a]"
  using splitstr_sep [of d a "[]"] by simp

lemma splitstr_first:
  assumes "s \<noteq> []"
  shows "splitstr s d \<noteq> [] \<and> hd (splitstr s d) = takeWhile (\<lambda>x. x \<noteq> d) s"
  using assms by (cases s) (auto simp: splitstr.simps(2) Let_def)

lemma splitstr_tokens: "t \<in> set (splitstr s d) \<Longrightarrow> d \<notin> set t"
proof (induction s d rule: splitstr.induct)
  case (2 c cs split)
  then show ?case by (auto simp: splitstr.simps(2) Let_def dest: set_takeWhileD)
qed simp

section \<open>Numbers in decimal\<close>

definition digit_char :: "nat \<Rightarrow> char" where
  "digit_char d = char_of (48 + d)"

definition is_digit :: "char \<Rightarrow> bool" where
  "is_digit c \<longleftrightarrow> 48 \<le> (of_char c :: nat) \<and> (of_char c :: nat) \<le> 57"

definition is_space :: "char \<Rightarrow> bool" where
  "is_space c \<longleftrightarrow> (of_char c :: nat) = 32 \<or> (9 \<le> (of_char c :: nat) \<and> (of_char c :: nat) \<le> 13)"

fun dec_str :: "nat \<Rightarrow> string" where
  "dec_str n = (if n < 10 then [digit_char n] else dec_str (n div 10) @ [digit_char (n mod 10)])"

declare dec_str.simps [simp del]

definition dec_val :: "string \<Rightarrow> nat" where
  "dec_val ds = foldl (\<lambda>a c. 10 * a + (of_char c - 48)) 0 ds"

text \<open>An optional sign, as the integer conversions of the C library accept it.\<close>

fun strip_sign :: "string \<Rightarrow> bool \<times> string" where
  "strip_sign (c # cs) =
     (if c = CHR ''-'' then (True, cs) else if c = CHR ''+'' then (False, cs) else (False, c # cs))"
| "strip_sign [] = (False, [])"

definition scan_lu :: "string \<Rightarrow> u64 option res" where
  "scan_lu s =
     (case strip_sign (dropWhile is_space s) of (neg, r) \<Rightarrow>
        let ds = takeWhile is_digit r
        in if ds = [] then Inr None
           else if 2 ^ 64 \<le> dec_val ds then Inl Unrepresentable
           else Inr (Some (if neg then - of_nat (dec_val ds) else of_nat (dec_val ds))))"

definition atoi :: "string \<Rightarrow> int res" where
  "atoi s =
     (case strip_sign (dropWhile is_space s) of (neg, r) \<Rightarrow>
        let v = int (dec_val (takeWhile is_digit r)); i = (if neg then - v else v)
        in if - (2 ^ 31) \<le> i \<and> i < 2 ^ 31 then Inr i else Inl Unrepresentable)"

lemma of_char_digit_char: "d < 10 \<Longrightarrow> of_char (digit_char d) = 48 + d"
  by (simp add: digit_char_def of_char_of)

lemma is_digit_digit_char: "d < 10 \<Longrightarrow> is_digit (digit_char d)"
  by (simp add: is_digit_def of_char_digit_char)

lemma dec_str_digits: "c \<in> set (dec_str n) \<Longrightarrow> is_digit c"
proof (induction n rule: dec_str.induct)
  case (1 n)
  then show ?case
    by (subst (asm) (2) dec_str.simps) (auto simp: is_digit_digit_char split: if_splits)
qed

lemma dec_str_not_Nil [simp]: "dec_str n \<noteq> []"
  by (subst dec_str.simps) simp

lemma dec_val_dec_str [simp]: "dec_val (dec_str n) = n"
proof (induction n rule: dec_str.induct)
  case (1 n)
  show ?case
  proof (cases "n < 10")
    case True
    then show ?thesis by (simp add: dec_str.simps [of n] dec_val_def of_char_digit_char)
  next
    case False
    then have "dec_val (dec_str n) = 10 * dec_val (dec_str (n div 10)) + n mod 10"
      by (simp add: dec_str.simps [of n] dec_val_def of_char_digit_char)
    then show ?thesis using 1 False by simp
  qed
qed

lemma digit_not_space: "is_digit c \<Longrightarrow> \<not> is_space c"
  by (auto simp: is_digit_def is_space_def)

lemma digit_not_sign: "is_digit c \<Longrightarrow> c \<noteq> CHR ''-'' \<and> c \<noteq> CHR ''+''"
  by (auto simp: is_digit_def)

lemma digit_not_sep:
  "is_digit c \<Longrightarrow> c \<noteq> CHR ''/'' \<and> c \<noteq> CHR '':'' \<and> c \<noteq> CHR ''-'' \<and> c \<noteq> NUL"
  by (auto simp: is_digit_def)

lemma dec_str_no_sep [simp]:
  "CHR ''/'' \<notin> set (dec_str n)" "CHR '':'' \<notin> set (dec_str n)"
  "CHR ''-'' \<notin> set (dec_str n)" "NUL \<notin> set (dec_str n)"
  using dec_str_digits digit_not_sep by blast+

lemma takeWhile_digits_dec_str [simp]: "takeWhile is_digit (dec_str n) = dec_str n"
  by (simp add: takeWhile_eq_all_conv dec_str_digits)

lemma strip_sign_dec_str [simp]: "strip_sign (dropWhile is_space (dec_str n)) = (False, dec_str n)"
proof -
  obtain c cs where s: "dec_str n = c # cs" by (cases "dec_str n") auto
  then have "is_digit c" using dec_str_digits [of c n] by simp
  then show ?thesis using s digit_not_space [of c] digit_not_sign [of c] by simp
qed

lemma scan_lu_dec_str: "n < 2 ^ 64 \<Longrightarrow> scan_lu (dec_str n) = Inr (Some (of_nat n))"
  by (simp add: scan_lu_def)

lemma scan_lu_dec_str_word [simp]: "scan_lu (dec_str (unat (w :: u64))) = Inr (Some w)"
  using unat_less_pow [of w] by (subst scan_lu_dec_str) simp_all

lemma scan_lu_Nil [simp]: "scan_lu [] = Inr None"
  by (simp add: scan_lu_def)

lemma atoi_dec_str: "n < 2 ^ 31 \<Longrightarrow> atoi (dec_str n) = Inr (int n)"
  by (simp add: atoi_def)

lemma atoi_dec_str_u16 [simp]: "atoi (dec_str (unat (p :: u16))) = Inr (uint p)"
proof -
  have "unat p < 2 ^ 16" using unat_less_pow [of p] by simp
  then show ?thesis by (simp add: atoi_dec_str)
qed

section \<open>Searching\<close>

text \<open>\<open>s.find(c)\<close>: the first position, or \<open>None\<close> for \<open>npos\<close>.\<close>

definition find_char :: "char \<Rightarrow> string \<Rightarrow> nat option" where
  "find_char c s = (if c \<in> set s then Some (length (takeWhile (\<lambda>x. x \<noteq> c) s)) else None)"

text \<open>\<open>s.find(p)\<close> for a string \<open>p\<close>.\<close>

fun find_sub :: "string \<Rightarrow> string \<Rightarrow> nat option" where
  "find_sub p [] = (if p = [] then Some 0 else None)"
| "find_sub p (c # cs) =
     (if take (length p) (c # cs) = p then Some 0 else map_option Suc (find_sub p cs))"

lemma find_char_append: "c \<notin> set a \<Longrightarrow> find_char c (a @ c # r) = Some (length a)"
  by (induction a) (auto simp: find_char_def)

lemma find_sub_prefix: "find_sub p (p @ s) = Some 0"
  by (cases "p @ s") (auto, metis append_eq_conv_conj)

lemma length_dec_str: "n < 10 ^ Suc k \<Longrightarrow> length (dec_str n) \<le> Suc k"
proof (induction k arbitrary: n)
  case 0
  then show ?case by (subst dec_str.simps) simp
next
  case (Suc k)
  show ?case
  proof (cases "n < 10")
    case True
    then show ?thesis by (subst dec_str.simps) simp
  next
    case False
    have "n div 10 < 10 ^ Suc k" using Suc.prems by simp
    then have "length (dec_str (n div 10)) \<le> Suc k" by (rule Suc.IH)
    with False show ?thesis by (subst dec_str.simps) simp
  qed
qed

end
