(* ===== verification/Net_Addr.thy ===== *)
theory Net_Addr
  imports Std_Map Cxx_Text
begin

text \<open>
  \<open>NetAddr\<close> of \<open>net/net_addr.cpp\<close>: an IPv4 address and a port kept in host byte order, its
  text form \<open>ip:port\<close>, the conversions to and from the network order of the sockets API, and the
  two comparisons. \<open>inet_aton\<close> and \<open>inet_ntoa\<close> of the C library are the arguments \<open>aton\<close> and
  \<open>ntoa\<close> (on an address as the sockets API stores it); what the class relies on is the locale
  \<open>inet_text\<close>.
\<close>

section \<open>The class\<close>

record sockaddr_in =
  sin_family :: u16
  sin_port :: u16
  s_addr :: u32

record net_addr =
  le_addr :: sockaddr_in

definition AF_INET :: u16 where "AF_INET = 2"
definition INADDR_ANY :: u32 where "INADDR_ANY = 0"

definition sockaddr_zero :: sockaddr_in where
  "sockaddr_zero = \<lparr>sin_family = 0, sin_port = 0, s_addr = 0\<rparr>"

definition NetAddr_default :: net_addr where
  "NetAddr_default = \<lparr>le_addr = sockaddr_zero\<rparr>"

text \<open>
  A failing \<open>inet_aton\<close> leaves the zeroed address alone; a text without a colon sets no port.
\<close>

definition NetAddr_of :: "(string \<Rightarrow> u32 option) \<Rightarrow> string \<Rightarrow> net_addr res" where
  "NetAddr_of aton ipport =
     (let pos = find_char CHR '':'' ipport;
          ip = (case pos of
                  Some 0 \<Rightarrow> INADDR_ANY
                | Some p \<Rightarrow> ntohl (case aton (take p ipport) of Some a \<Rightarrow> a | None \<Rightarrow> 0)
                | None \<Rightarrow> ntohl (case aton ipport of Some a \<Rightarrow> a | None \<Rightarrow> 0))
      in rbind (case pos of
                  Some p \<Rightarrow> rbind (atoi (drop (p + 1) ipport)) (\<lambda>i. Inr (word_of_int i))
                | None \<Rightarrow> Inr 0)
           (\<lambda>port. Inr \<lparr>le_addr = \<lparr>sin_family = AF_INET, sin_port = port, s_addr = ip\<rparr>\<rparr>))"

definition getBeAddr :: "net_addr \<Rightarrow> sockaddr_in" where
  "getBeAddr a = (le_addr a)\<lparr>s_addr := htonl (s_addr (le_addr a)),
                             sin_port := htons (sin_port (le_addr a))\<rparr>"

definition getAddr :: "net_addr \<Rightarrow> sockaddr_in" where
  "getAddr a = le_addr a"

definition addr_str :: "(u32 \<Rightarrow> string) \<Rightarrow> net_addr \<Rightarrow> string" where
  "addr_str ntoa a =
     ntoa (htonl (s_addr (le_addr a))) @ '':'' @ dec_str (unat (sin_port (le_addr a)))"

definition fromBe ::
    "(string \<Rightarrow> u32 option) \<Rightarrow> (u32 \<Rightarrow> string) \<Rightarrow> sockaddr_in \<Rightarrow> net_addr res" where
  "fromBe aton ntoa be =
     NetAddr_of aton (ntoa (s_addr be) @ '':'' @ dec_str (unat (ntohs (sin_port be))))"

definition setPort :: "int \<Rightarrow> net_addr \<Rightarrow> net_addr" where
  "setPort le_port a = a\<lparr>le_addr := (le_addr a)\<lparr>sin_port := word_of_int le_port\<rparr>\<rparr>"

definition getPort :: "net_addr \<Rightarrow> u16" where
  "getPort a = sin_port (le_addr a)"

text \<open>\<open>setIp\<close> swaps the bytes also when \<open>inet_aton\<close> failed and stored nothing.\<close>

definition setIp :: "(string \<Rightarrow> u32 option) \<Rightarrow> string \<Rightarrow> net_addr \<Rightarrow> net_addr" where
  "setIp aton ip a =
     (let stored = (case aton ip of Some x \<Rightarrow> x | None \<Rightarrow> s_addr (le_addr a))
      in a\<lparr>le_addr := (le_addr a)\<lparr>s_addr := ntohl stored\<rparr>\<rparr>)"

definition addr_less :: "net_addr \<Rightarrow> net_addr \<Rightarrow> bool" where
  "addr_less l r \<longleftrightarrow> s_addr (le_addr l) < s_addr (le_addr r)"

definition addr_eq :: "net_addr \<Rightarrow> net_addr \<Rightarrow> bool" where
  "addr_eq a other \<longleftrightarrow>
     (if s_addr (le_addr a) \<noteq> s_addr (le_addr other) then False
      else if sin_family (le_addr a) \<noteq> sin_family (le_addr other) then False
      else if sin_port (le_addr a) \<noteq> sin_port (le_addr other) then False
      else True)"

section \<open>The two comparisons\<close>

lemma addr_eq_iff [simp]: "addr_eq a b \<longleftrightarrow> a = b"
  by (cases a; cases b) (auto simp: addr_eq_def)

interpretation addr_map: weak_order addr_less
  by unfold_locales (auto simp: addr_less_def)

lemma addr_map_eqv: "addr_map.eqv a b \<longleftrightarrow> s_addr (le_addr a) = s_addr (le_addr b)"
  by (auto simp: addr_map.eqv_def addr_less_def)

section \<open>What the class relies on in the C library\<close>

locale inet_text =
  fixes aton :: "string \<Rightarrow> u32 option" and ntoa :: "u32 \<Rightarrow> string"
  assumes aton_ntoa: "aton (ntoa a) = Some a"
    and ntoa_no_colon: "CHR '':'' \<notin> set (ntoa a)"
    and ntoa_not_Nil: "ntoa a \<noteq> []"
begin

lemma NetAddr_of_text:
  "NetAddr_of aton (ntoa ip @ '':'' @ dec_str (unat (p :: u16))) =
     Inr \<lparr>le_addr = \<lparr>sin_family = AF_INET, sin_port = p, s_addr = ntohl ip\<rparr>\<rparr>"
proof -
  obtain n where n: "length (ntoa ip) = Suc n"
    using ntoa_not_Nil [of ip] by (cases "ntoa ip") auto
  have "find_char CHR '':'' (ntoa ip @ '':'' @ dec_str (unat p)) = Some (length (ntoa ip))"
    using find_char_append [OF ntoa_no_colon] by simp
  then show ?thesis using n by (simp add: NetAddr_of_def aton_ntoa)
qed

lemma fromBe_getBeAddr:
  "sin_family (le_addr a) = AF_INET \<Longrightarrow> fromBe aton ntoa (getBeAddr a) = Inr a"
  using NetAddr_of_text by (cases a) (simp add: fromBe_def getBeAddr_def)

lemma NetAddr_of_addr_str:
  "sin_family (le_addr a) = AF_INET \<Longrightarrow> NetAddr_of aton (addr_str ntoa a) = Inr a"
  using NetAddr_of_text by (cases a) (simp add: addr_str_def)

lemma addr_str_inject:
  assumes "sin_family (le_addr a) = AF_INET" and "sin_family (le_addr b) = AF_INET"
  shows "addr_str ntoa a = addr_str ntoa b \<longleftrightarrow> a = b"
proof
  assume eq: "addr_str ntoa a = addr_str ntoa b"
  have "Inr a = NetAddr_of aton (addr_str ntoa a)"
    by (rule NetAddr_of_addr_str [OF assms(1), symmetric])
  also have "\<dots> = NetAddr_of aton (addr_str ntoa b)" by (simp only: eq)
  also have "\<dots> = Inr b" by (rule NetAddr_of_addr_str [OF assms(2)])
  finally show "a = b" by simp
qed simp

end

section \<open>Dotted quads\<close>

text \<open>
  The text form the C library documents for \<open>inet_ntoa\<close>, and the four-part decimal case of
  \<open>inet_aton\<close>: an instance of the interface.
\<close>

definition quad_ntoa :: "u32 \<Rightarrow> string" where
  "quad_ntoa a =
     (case map (\<lambda>c. dec_str (of_char c)) (le_bytes 4 a) of
        [p, q, r, s] \<Rightarrow> p @ ''.'' @ q @ ''.'' @ r @ ''.'' @ s)"

definition quad_part :: "string \<Rightarrow> bool" where
  "quad_part p \<longleftrightarrow> list_all is_digit p \<and> dec_val p < 256"

definition quad_aton :: "string \<Rightarrow> u32 option" where
  "quad_aton s =
     (let parts = splitstr s CHR ''.''
      in if length parts = 4 \<and> list_all quad_part parts
         then Some (of_le (map (\<lambda>p. char_of (dec_val p)) parts)) else None)"

lemma dec_str_no_dot [simp]: "CHR ''.'' \<notin> set (dec_str n)"
  using dec_str_digits [of "CHR ''.''" n] by (auto simp: is_digit_def)

lemma quad_part_dec_str: "n < 256 \<Longrightarrow> quad_part (dec_str n)"
  by (auto simp: quad_part_def list_all_iff dec_str_digits)

lemma quad_split:
  assumes "le_bytes 4 a = [p, q, r, s]"
  shows "splitstr (quad_ntoa a) CHR ''.'' =
           [dec_str (of_char p), dec_str (of_char q), dec_str (of_char r), dec_str (of_char s)]"
  using assms by (simp add: quad_ntoa_def splitstr_sep splitstr_last)

interpretation quad: inet_text quad_aton quad_ntoa
proof
  fix a :: u32
  obtain p q r s where l: "le_bytes 4 a = [p, q, r, s]"
    using length_le_bytes [of 4 a] by (auto simp: length_Suc_conv numeral_eq_Suc)
  have "of_le [p, q, r, s] = a" using of_le_le_bytes [of 4 a] l by simp
  then show "quad_aton (quad_ntoa a) = Some a"
    by (simp add: quad_aton_def quad_split [OF l] quad_part_dec_str of_char_less_256)
  show "CHR '':'' \<notin> set (quad_ntoa a)" and "quad_ntoa a \<noteq> []"
    using l by (simp_all add: quad_ntoa_def)
qed

end
