(* ===== verification/Cxx_Vec.thy ===== *)
theory Cxx_Vec
  imports Prelude "HOL-Library.Multiset"
begin

text \<open>
  \<open>std::vector\<close> as the program walks it backwards,
  \<open>for (iter = v.end() - 1; iter >= v.begin(); iter--)\<close>.

  A vector that has never held an element has no buffer: its \<open>begin()\<close> and \<open>end()\<close> are null,
  \<open>end() - 1\<close> wraps to the top of the address space, the comparison succeeds and the body
  dereferences an address outside every object (\<open>BadIterator\<close>). Once a vector has held an
  element its buffer stays, also when the vector becomes empty again, and the loop then ends at
  the position before \<open>begin()\<close>. \<open>NullVec\<close> is the vector without a buffer.
\<close>

datatype 'a cvec = NullVec | Vec "'a list"

primrec elems :: "'a cvec \<Rightarrow> 'a list" where
  "elems NullVec = []"
| "elems (Vec xs) = xs"

definition push_back :: "'a cvec \<Rightarrow> 'a \<Rightarrow> 'a cvec" where
  "push_back v x = Vec (elems v @ [x])"

text \<open>Copy assignment: an empty source allocates nothing, a buffer already there is kept.\<close>

fun vassign :: "'a cvec \<Rightarrow> 'a cvec \<Rightarrow> 'a cvec" where
  "vassign NullVec src = (if elems src = [] then NullVec else Vec (elems src))"
| "vassign (Vec xs) src = Vec (elems src)"

text \<open>
  The backwards walk that erases the first match it meets and leaves the loop. The arguments are
  the elements still to visit, last first, and those already passed.
\<close>

fun rwalk_erase :: "('a \<Rightarrow> bool) \<Rightarrow> 'a list \<Rightarrow> 'a list \<Rightarrow> ('a \<times> 'a list) option" where
  "rwalk_erase P [] passed = None"
| "rwalk_erase P (x # todo) passed =
     (if P x then Some (x, rev todo @ passed) else rwalk_erase P todo (x # passed))"

text \<open>The backwards walk that erases every match and goes on: what it erased, in order, and the rest.\<close>

fun rwalk_erase_all :: "('a \<Rightarrow> bool) \<Rightarrow> 'a list \<Rightarrow> 'a list \<Rightarrow> 'a list \<Rightarrow> 'a list \<times> 'a list" where
  "rwalk_erase_all P [] passed erased = (erased, passed)"
| "rwalk_erase_all P (x # todo) passed erased =
     (if P x then rwalk_erase_all P todo passed (erased @ [x])
      else rwalk_erase_all P todo (x # passed) erased)"

definition erase_last :: "('a \<Rightarrow> bool) \<Rightarrow> 'a cvec \<Rightarrow> ('a \<times> 'a cvec) option res" where
  "erase_last P v =
     (case v of NullVec \<Rightarrow> Inl BadIterator
      | Vec xs \<Rightarrow> Inr (map_option (\<lambda>(x, ys). (x, Vec ys)) (rwalk_erase P (rev xs) [])))"

definition erase_all :: "('a \<Rightarrow> bool) \<Rightarrow> 'a cvec \<Rightarrow> ('a list \<times> 'a cvec) res" where
  "erase_all P v =
     (case v of NullVec \<Rightarrow> Inl BadIterator
      | Vec xs \<Rightarrow> (case rwalk_erase_all P (rev xs) [] [] of (es, ys) \<Rightarrow> Inr (es, Vec ys)))"

lemma elems_push_back [simp]: "elems (push_back v x) = elems v @ [x]"
  by (simp add: push_back_def)

lemma push_back_not_Null [simp]: "push_back v x \<noteq> NullVec"
  by (simp add: push_back_def)

lemma elems_vassign [simp]: "elems (vassign dst src) = elems src"
  by (cases "(dst, src)" rule: vassign.cases) auto

lemma vassign_not_Null [simp]: "elems src \<noteq> [] \<Longrightarrow> vassign dst src \<noteq> NullVec"
  by (cases "(dst, src)" rule: vassign.cases) auto

lemma rwalk_erase_Some:
  "rwalk_erase P todo passed = Some (x, ys) \<Longrightarrow>
   P x \<and> (\<exists>a b. rev todo @ passed = a @ x # b \<and> ys = a @ b)"
proof (induction P todo passed rule: rwalk_erase.induct)
  case (2 P z todo passed)
  show ?case
  proof (cases "P z")
    case True
    with 2(2) have "x = z" "ys = rev todo @ passed" by auto
    with True show ?thesis by auto
  next
    case False
    with 2 show ?thesis by auto
  qed
qed simp

lemma rwalk_erase_None: "rwalk_erase P todo passed = None \<longleftrightarrow> (\<forall>x \<in> set todo. \<not> P x)"
  by (induction P todo passed rule: rwalk_erase.induct) auto

lemma rwalk_erase_all_eq:
  "rwalk_erase_all P todo passed erased =
     (erased @ filter P todo, rev (filter (\<lambda>x. \<not> P x) todo) @ passed)"
  by (induction P todo passed erased rule: rwalk_erase_all.induct) auto

lemma erase_last_Some:
  assumes "erase_last P v = Inr (Some (x, w))"
  shows "P x \<and> (\<exists>a b. elems v = a @ x # b \<and> w = Vec (a @ b))"
  using assms rwalk_erase_Some
  by (fastforce simp: erase_last_def split: cvec.splits)

lemma erase_last_mset:
  "erase_last P v = Inr (Some (x, w)) \<Longrightarrow> P x \<and> mset (elems v) = add_mset x (mset (elems w))"
  using erase_last_Some by fastforce

lemma erase_last_None: "erase_last P v = Inr None \<Longrightarrow> \<forall>x \<in> set (elems v). \<not> P x"
  by (auto simp: erase_last_def rwalk_erase_None split: cvec.splits)

lemma erase_last_total: "v \<noteq> NullVec \<Longrightarrow> \<exists>r. erase_last P v = Inr r"
  by (cases v) (auto simp: erase_last_def)

lemma erase_last_found:
  assumes "v \<noteq> NullVec" and "x \<in> set (elems v)" and "P x"
  shows "\<exists>y w. erase_last P v = Inr (Some (y, w))"
proof -
  from erase_last_total [OF assms(1)] obtain r where r: "erase_last P v = Inr r" by blast
  moreover have "r \<noteq> None" using r assms(2,3) by (cases r) (auto dest: erase_last_None)
  ultimately show ?thesis by auto
qed

lemma erase_last_Null [simp]: "erase_last P NullVec = Inl BadIterator"
  by (simp add: erase_last_def)

lemma erase_all_Null [simp]: "erase_all P NullVec = Inl BadIterator"
  by (simp add: erase_all_def)

lemma erase_all_Vec [simp]:
  "erase_all P (Vec xs) = Inr (filter P (rev xs), Vec (filter (\<lambda>x. \<not> P x) xs))"
  by (simp add: erase_all_def rwalk_erase_all_eq rev_filter)

lemma erase_last_Vec_not_Null: "erase_last P v = Inr (Some (x, w)) \<Longrightarrow> w \<noteq> NullVec"
  by (auto dest: erase_last_Some)

end
