(* ===== verification/Packet_Codec.thy ===== *)
theory Packet_Codec
  imports Lan_Packet
begin

text \<open>
  What \<open>LanSyncPkt::write\<close> puts on the wire, the round trip through the parsing constructor,
  and the termination of its loop over the extension headers.
\<close>

section \<open>The bytes of a packet\<close>

text \<open>
  Texts the wire format can carry: no NUL, no separator in a key, no empty value. A separator in
  a value survives \<open>write\<close>, but the parser keeps only what stands before it (\<open>cut\<close>).
\<close>

definition nul_free :: "lan_sync_pkt \<Rightarrow> bool" where
  "nul_free p \<longleftrightarrow> (\<forall>(k, v) \<in> set (xheader p). NUL \<notin> set k \<and> NUL \<notin> set v)"

definition sendable :: "string \<times> string \<Rightarrow> bool" where
  "sendable e \<longleftrightarrow>
     NUL \<notin> set (fst e) \<and> CHR '':'' \<notin> set (fst e) \<and> NUL \<notin> set (snd e) \<and> snd e \<noteq> []"

definition cut :: "string \<Rightarrow> string" where
  "cut v = takeWhile (\<lambda>c. c \<noteq> CHR '':'') v"

definition cut_entries :: "(string, string) smap \<Rightarrow> (string, string) smap" where
  "cut_entries m = map (\<lambda>(k, v). (k, cut v)) m"

definition wire_bytes :: "lan_sync_pkt \<Rightarrow> bytes" where
  "wire_bytes p = header_bytes (pkt_header p) @ xh_text (xheader p) @ data_of p"

lemma c_str_id: "NUL \<notin> set s \<Longrightarrow> c_str s = s"
  by (auto simp: c_str_def takeWhile_eq_all_conv)

lemma put_xheader_at:
  assumes "NUL \<notin> set k" and "NUL \<notin> set v" and "length k + length v + 2 < 2 ^ 16"
    and "length mid = length k + length v + 2"
  shows "put_xheader (k, v) (pre @ mid @ post, length pre) =
           Inr (pre @ (k @ '':'' @ v @ [NUL]) @ post, length pre + (length k + length v + 2))"
proof -
  have "store (pre @ mid @ post) (length pre) (k @ '':'' @ v @ [NUL]) =
          Inr (pre @ (k @ '':'' @ v @ [NUL]) @ post)"
    by (rule store_append_middle) (use assms in auto)
  then show ?thesis
    using assms by (simp add: put_xheader_def c_str_id unat_kv_len)
qed

lemma put_xheaders:
  assumes "\<forall>(k, v) \<in> set es. NUL \<notin> set k \<and> NUL \<notin> set v" and "xh_size es < 2 ^ 16"
  shows "rfold put_xheader es (pre @ replicate (xh_size es) NUL @ post, length pre) =
           Inr (pre @ xh_text es @ post, length pre + xh_size es)"
  using assms
proof (induction es arbitrary: pre)
  case (Cons e es)
  obtain k v where e: "e = (k, v)" by (cases e)
  let ?n = "length k + length v + 2" and ?kv = "k @ '':'' @ v @ [NUL]"
  have n: "?n < 2 ^ 16" using Cons.prems(2) by (simp add: e)
  have kv: "put_xheader (k, v) (pre @ replicate ?n NUL @ replicate (xh_size es) NUL @ post, length pre) =
              Inr (pre @ ?kv @ replicate (xh_size es) NUL @ post, length pre + ?n)"
    using put_xheader_at [of k v "replicate ?n NUL" pre "replicate (xh_size es) NUL @ post"]
      Cons.prems(1) n by (simp add: e)
  have rep: "replicate (xh_size ((k, v) # es)) NUL = replicate ?n NUL @ replicate (xh_size es) NUL"
    by (simp only: xh_size_simps fst_conv snd_conv replicate_add)
  have len: "length (pre @ ?kv) = length pre + ?n" by simp
  have "rfold put_xheader ((k, v) # es) (pre @ replicate (xh_size ((k, v) # es)) NUL @ post, length pre) =
          rfold put_xheader es ((pre @ ?kv) @ replicate (xh_size es) NUL @ post, length (pre @ ?kv))"
    by (simp only: rfold.simps rep append_assoc kv rbind.simps len)
  also have "\<dots> = Inr ((pre @ ?kv) @ xh_text es @ post, length (pre @ ?kv) + xh_size es)"
    by (rule Cons.IH) (use Cons.prems in \<open>auto simp: e\<close>)
  finally show ?case by (simp add: e)
qed simp

theorem LanSyncPkt_write_bytes:
  assumes wf: "pkt_wf p" and nf: "nul_free p"
  shows "LanSyncPkt_write p = Inr (wire_bytes p)"
proof -
  let ?m = "xheader p" and ?d = "data_of p" and ?h = "header_bytes (pkt_header p)"
  have hl: "unat (header_len p) = 8 + xh_size ?m"
    and tl: "unat (total_len p) = 8 + xh_size ?m + length ?d"
    using wf by (auto simp: pkt_wf_def len_consts)
  have size: "xh_size ?m < 2 ^ 16" using unat_less_pow [of "header_len p"] hl by simp
  have m1: "store (replicate (unat (total_len p)) NUL) 0 ?h =
              Inr (?h @ replicate (xh_size ?m) NUL @ replicate (length ?d) NUL)"
    using tl by (simp add: store_def replicate_add [symmetric] drop_replicate)
  have m2: "rfold put_xheader ?m (?h @ replicate (xh_size ?m) NUL @ replicate (length ?d) NUL, 8) =
              Inr (?h @ xh_text ?m @ replicate (length ?d) NUL, 8 + xh_size ?m)"
    using put_xheaders [of ?m ?h "replicate (length ?d) NUL"] nf size
    by (simp add: nul_free_def)
  have dl: "unat (getDataLen p) = length ?d"
  proof -
    have "getDataLen p = of_nat (8 + xh_size ?m + length ?d) - of_nat (8 + xh_size ?m)"
      using word_eq_of_nat [OF tl] arg_cong [OF hl, of "of_nat :: nat \<Rightarrow> u32"]
      by (simp add: getDataLen_def)
    then have "getDataLen p = of_nat (length ?d)" by simp
    moreover have "length ?d < 2 ^ 32" using unat_less_pow [of "total_len p"] tl by simp
    ultimately show ?thesis by (simp only: unat_of_nat_u32)
  qed
  have cd: "copy_data p = Inr ?d"
    using dl by (auto simp: copy_data_def data_of_def slice_def unat_eq_0 split: option.splits)
  have "header_len p - 8 = of_nat (xh_size ?m)"
    using word_eq_of_nat [OF hl] by simp
  then have xl: "unat (header_len p - 8) = xh_size ?m"
    using size by (simp only: unat_of_nat_u16)
  have "store (?h @ xh_text ?m @ replicate (length ?d) NUL) (8 + xh_size ?m) ?d = Inr (wire_bytes p)"
    using store_append_middle [of "8 + xh_size ?m" "?h @ xh_text ?m" ?d "replicate (length ?d) NUL" "[]"]
    by (simp add: wire_bytes_def)
  with m1 m2 cd xl show ?thesis
    by (simp add: LanSyncPkt_write_def LEN_LAN_SYNC_HEADER_T_def)
qed

section \<open>Round trip\<close>

lemma cut_id: "CHR '':'' \<notin> set v \<Longrightarrow> cut v = v"
  by (auto simp: cut_def takeWhile_eq_all_conv)

lemma cut_entries_id:
  "\<forall>(k, v) \<in> set m. CHR '':'' \<notin> set v \<Longrightarrow> cut_entries m = m"
  by (induction m) (auto simp: cut_entries_def cut_id)

lemma sorted_cut_entries [simp]: "sm_sorted lt (cut_entries m) = sm_sorted lt m"
  by (simp add: sm_sorted_def cut_entries_def comp_def case_prod_beta)

lemma add_kv_sendable:
  assumes "sendable (k, v)"
  shows "add_kv (splitstr (k @ '':'' @ v) CHR '':'') xh = str_put k (cut v) xh"
proof -
  have "splitstr (k @ '':'' @ v) CHR '':'' = k # splitstr v CHR '':''"
    using assms splitstr_sep [of "CHR '':''" k v] by (simp add: sendable_def)
  moreover obtain t ts where "splitstr v CHR '':'' = t # ts" and "t = cut v"
    using assms splitstr_first [of v "CHR '':''"] by (cases "splitstr v CHR '':''") (auto simp: sendable_def cut_def)
  ultimately show ?thesis by (simp add: add_kv_def)
qed

text \<open>Reading back the extension headers written behind a prefix of 8 bytes plus \<open>done\<close>.\<close>

lemma parse_xheader_text:
  assumes "\<forall>e \<in> set es. sendable e"
    and "length pre = LEN_LAN_SYNC_HEADER_T + k" and "k + xh_size es < 2 ^ 16"
  shows "parse_xheader (pre @ xh_text es @ rest) (of_nat (k + xh_size es)) (of_nat k) xh =
           Some (Inr (foldl (\<lambda>a (k, v). str_put k v a) xh (cut_entries es)))"
  using assms
proof (induction es arbitrary: pre k xh)
  case Nil
  then show ?case by (subst parse_xheader.simps) (simp add: cut_entries_def)
next
  case (Cons e es)
  obtain key v where e: "e = (key, v)" by (cases e)
  let ?kv = "key @ '':'' @ v" and ?n = "length key + length v + 2"
  let ?xl = "of_nat (k + xh_size (e # es)) :: u16" and ?mem = "pre @ xh_text (e # es) @ rest"
  have clean: "sendable (key, v)" using Cons.prems(1) e by simp
  have k16: "k < 2 ^ 16" and x16: "k + xh_size (e # es) < 2 ^ 16" using Cons.prems(3) by auto
  have less: "(of_nat k :: u16) < ?xl"
    unfolding word_less_nat_alt unat_of_nat_u16 [OF k16] unat_of_nat_u16 [OF x16] by (simp add: e)
  have mem: "?mem = pre @ ?kv @ NUL # (xh_text es @ rest)" by (simp add: e)
  have "NUL \<notin> set ?kv" using clean by (simp add: sendable_def)
  then have "cstr_at ?mem (length pre) = Inr ?kv" unfolding mem by (rule cstr_at_append)
  then have cstr: "cstr_at ?mem (LEN_LAN_SYNC_HEADER_T + unat (of_nat k :: u16)) = Inr ?kv"
    using Cons.prems(2) k16 by (simp only: unat_of_nat_u16)
  have "parse_xheader ?mem ?xl (of_nat k) xh =
          parse_xheader ?mem ?xl (of_nat k + of_nat (length ?kv + 1)) (str_put key (cut v) xh)"
    by (subst parse_xheader.simps) (simp only: less if_True cstr sum.case add_kv_sendable [OF clean])
  also have "of_nat k + of_nat (length ?kv + 1) = (of_nat (k + ?n) :: u16)" by simp
  also have "?xl = of_nat ((k + ?n) + xh_size es)" by (simp add: e)
  also have "?mem = (pre @ ?kv @ [NUL]) @ xh_text es @ rest" by (simp add: e)
  also have "parse_xheader \<dots> (of_nat ((k + ?n) + xh_size es)) (of_nat (k + ?n)) (str_put key (cut v) xh) =
               Some (Inr (foldl (\<lambda>a (k, v). str_put k v a) (str_put key (cut v) xh) (cut_entries es)))"
    by (rule Cons.IH) (use Cons.prems in \<open>auto simp: e\<close>)
  finally show ?case by (simp add: e cut_entries_def)
qed

text \<open>The guard of the constructor, on the value in network byte order.\<close>

definition guard_passes :: "u32 \<Rightarrow> bool" where
  "guard_passes t \<longleftrightarrow> LEN_LAN_SYNC_HEADER_T \<le> unat (htonl t)"

lemma parse_wire_bytes:
  assumes wf: "pkt_wf p" and sendable: "\<forall>e \<in> set (xheader p). sendable e"
    and guard: "guard_passes (total_len p)"
  shows "LanSyncPkt_parse (wire_bytes p @ rest) =
           Some (Inr (Parsed (p\<lparr>xheader := cut_entries (xheader p), pkt_data := Some (data_of p)\<rparr>)))"
proof -
  let ?m = "xheader p" and ?d = "data_of p" and ?h = "pkt_header p"
  let ?mem = "header_bytes ?h @ xh_text ?m @ ?d @ rest"
  have hl: "unat (header_len p) = 8 + xh_size ?m"
    and tl: "unat (total_len p) = 8 + xh_size ?m + length ?d"
    and sorted: "sm_sorted str_less ([] @ cut_entries ?m)"
    using wf by (auto simp: pkt_wf_def len_consts)
  have size: "xh_size ?m < 2 ^ 16" using unat_less_pow [of "header_len p"] hl by simp
  have xl: "header_len p - of_nat LEN_LAN_SYNC_HEADER_T = of_nat (0 + xh_size ?m)"
    using word_eq_of_nat [OF hl] by (simp add: len_consts)
  have "parse_xheader ?mem (of_nat (0 + xh_size ?m)) (of_nat 0) [] =
          Some (Inr (foldl (\<lambda>a (k, v). str_put k v a) [] (cut_entries ?m)))"
    by (rule parse_xheader_text) (use sendable size in \<open>auto simp: len_consts\<close>)
  then have xh: "parse_xheader ?mem (header_len p - of_nat LEN_LAN_SYNC_HEADER_T) 0 [] =
                   Some (Inr (cut_entries ?m))"
    unfolding xl str_map.foldl_put_sorted [OF sorted] by simp
  have "total_len p - ucast (header_len p) = of_nat (length ?d)"
    using word_eq_of_nat [OF tl] arg_cong [OF hl, of "of_nat :: nat \<Rightarrow> u32"] by simp
  moreover have "length ?d < 2 ^ 32" using unat_less_pow [of "total_len p"] tl by simp
  ultimately have dl: "unat (total_len p - ucast (header_len p)) = length ?d"
    by (simp only: unat_of_nat_u32)
  have "slice ((header_bytes ?h @ xh_text ?m) @ ?d @ rest) (8 + xh_size ?m) (length ?d) = Inr ?d"
    by (rule slice_append_middle) simp_all
  then have body: "parse_body ?mem ?h (cut_entries ?m) =
                     Inr (p\<lparr>xheader := cut_entries ?m, pkt_data := Some ?d\<rparr>)"
    by (simp add: parse_body_def pkt_header_def hl dl)
  have "load_header ?mem = Inr ?h" by (rule load_header_bytes)
  moreover have "\<not> unat (hd_total_len ?h) < LEN_LAN_SYNC_HEADER_T"
    using guard by (simp add: guard_passes_def pkt_header_def)
  moreover have "ntohs (hd_header_len ?h) = header_len p" by (simp add: pkt_header_def)
  ultimately show ?thesis
    using xh body by (simp add: LanSyncPkt_parse_def Let_def wire_bytes_def)
qed

lemma sendable_nul_free: "\<forall>e \<in> set (xheader p). sendable e \<Longrightarrow> nul_free p"
  by (auto simp: nul_free_def sendable_def)

lemma low_byte_zero:
  fixes a x y :: nat
  assumes "a < 256" and "a + 256 * x = 256 * y"
  shows "a = 0 \<and> x = y"
proof -
  have "a = (a + 256 * x) mod 256" using assms(1) by simp
  also have "\<dots> = 0" unfolding assms(2) by simp
  finally show ?thesis using assms(2) by simp
qed

lemma byte_sum_small:
  fixes a b c d :: nat
  assumes "a < 256" and "b < 256" and "c < 256" and "d < 256"
  shows "d + 256 * (c + 256 * (b + 256 * a)) < 8 \<longleftrightarrow>
         (\<exists>j < 8. a + 256 * (b + 256 * (c + 256 * d)) = j * 2 ^ 24)"
proof
  assume "d + 256 * (c + 256 * (b + 256 * a)) < 8"
  then have "a = 0 \<and> b = 0 \<and> c = 0 \<and> d < 8" by auto
  then show "\<exists>j < 8. a + 256 * (b + 256 * (c + 256 * d)) = j * 2 ^ 24" by auto
next
  assume "\<exists>j < 8. a + 256 * (b + 256 * (c + 256 * d)) = j * 2 ^ 24"
  then obtain j where j: "j < 8"
    and eq: "a + 256 * (b + 256 * (c + 256 * d)) = 256 * (256 * (256 * j))" by auto
  from low_byte_zero [OF assms(1) eq] have a: "a = 0"
    and eq: "b + 256 * (c + 256 * d) = 256 * (256 * j)" by simp_all
  from low_byte_zero [OF assms(2) eq] have b: "b = 0" and eq: "c + 256 * d = 256 * j" by simp_all
  from low_byte_zero [OF assms(3) eq] a b j have "a = 0 \<and> b = 0 \<and> c = 0 \<and> d < 8" by simp
  then show "d + 256 * (c + 256 * (b + 256 * a)) < 8" by simp
qed

lemma guard_passes_iff: "guard_passes t \<longleftrightarrow> (\<forall>j < 8. unat t \<noteq> j * 2 ^ 24)"
proof -
  obtain a b c d where l: "le_bytes 4 t = [a, b, c, d]"
    using length_le_bytes [of 4 t] by (auto simp: length_Suc_conv numeral_eq_Suc)
  let ?v = "of_char :: char \<Rightarrow> nat"
  have t: "unat t = ?v a + 256 * (?v b + 256 * (?v c + 256 * ?v d))"
    using le_nat_le_bytes [of 4 t] unat_less_pow [of t] by (simp add: l)
  have h: "unat (htonl t) = ?v d + 256 * (?v c + 256 * (?v b + 256 * ?v a))"
    unfolding htonl_def l by (subst unat_of_le) simp_all
  note lt = of_char_less_256 [of a] of_char_less_256 [of b] of_char_less_256 [of c] of_char_less_256 [of d]
  have "unat (htonl t) < 8 \<longleftrightarrow> (\<exists>j < 8. unat t = j * 2 ^ 24)"
    unfolding h t by (rule byte_sum_small) (use lt in auto)
  then show ?thesis by (auto simp: guard_passes_def LEN_LAN_SYNC_HEADER_T_def)
qed

lemma guard_passes_small: "LEN_LAN_SYNC_HEADER_T \<le> unat t \<Longrightarrow> unat t < 2 ^ 24 \<Longrightarrow> guard_passes t"
  by (auto simp: guard_passes_iff LEN_LAN_SYNC_HEADER_T_def)

section \<open>Termination of the parser\<close>

lemma parse_xheader_returns:
  assumes "length mem \<le> 65543"
  shows "\<exists>r. parse_xheader mem xl k xh = Some r"
proof (induction "unat xl - unat k" arbitrary: k xh rule: less_induct)
  case less
  show ?case
  proof (cases "k < xl")
    case True
    show ?thesis
    proof (cases "cstr_at mem (LEN_LAN_SYNC_HEADER_T + unat k)")
      case (Inl e)
      with True show ?thesis by (subst parse_xheader.simps) simp
    next
      case (Inr s)
      then have fits: "unat k + (length s + 1) < 2 ^ 16"
        using cstr_at_length assms by (fastforce simp: len_consts)
      let ?k = "k + of_nat (length s + 1)"
      have "?k = of_nat (unat k + (length s + 1))" by simp
      with fits have k: "unat ?k = unat k + (length s + 1)" by (simp only: unat_of_nat_u16)
      have "unat xl - unat ?k < unat xl - unat k"
        using True k by (simp add: word_less_nat_alt)
      from less [OF this] show ?thesis
        using True Inr by (subst parse_xheader.simps) simp
    qed
  qed (subst parse_xheader.simps, simp)
qed

lemma LanSyncPkt_parse_returns: "length mem \<le> 65543 \<Longrightarrow> \<exists>r. LanSyncPkt_parse mem = Some r"
  using parse_xheader_returns by (fastforce simp: LanSyncPkt_parse_def Let_def split: sum.splits)

lemma parse_xheader_diverges:
  assumes cstr: "cstr_at mem LEN_LAN_SYNC_HEADER_T = Inr s" and "length s = 65535" and "0 < xl"
  shows "parse_xheader mem xl 0 xh = None"
proof -
  have never: "\<not> (m = mem \<and> x = xl \<and> k = 0)" if "parse_xheader m x k h = Some r" for m x k h r
  proof (rule parse_xheader.raw_induct [where P = "\<lambda>m x k h r. \<not> (m = mem \<and> x = xl \<and> k = 0)", OF _ that])
    fix f m x k h r
    assume IH: "\<And>m x k h r. f m x k h = Some r \<Longrightarrow> \<not> (m = mem \<and> x = xl \<and> k = 0)"
      and eq: "(if k < x
                then case cstr_at m (LEN_LAN_SYNC_HEADER_T + unat k) of
                       Inl e \<Rightarrow> Some (Inl e)
                     | Inr s \<Rightarrow> f m x (k + of_nat (length s + 1)) (add_kv (splitstr s CHR '':'') h)
                else Some (Inr h)) = Some r"
    have "of_nat (length s + 1) = (0 :: u16)" using assms(2) by simp
    show "\<not> (m = mem \<and> x = xl \<and> k = 0)"
    proof
      assume at: "m = mem \<and> x = xl \<and> k = 0"
      then have "f mem xl (0 + of_nat (length s + 1)) (add_kv (splitstr s CHR '':'') h) = Some r"
        using eq cstr assms(3) by simp
      then have "f mem xl 0 (add_kv (splitstr s CHR '':'') h) = Some r"
        unfolding \<open>of_nat (length s + 1) = (0 :: u16)\<close> by simp
      from IH [OF this] show False by simp
    qed
  qed
  show ?thesis
  proof (cases "parse_xheader mem xl 0 xh")
    case (Some r)
    from never [OF this] show ?thesis by simp
  qed
qed

section \<open>Properties\<close>

text \<open>
  C4: a packet survives the wire. For a packet whose counters are right, whose texts the format
  can carry (no NUL, no separator, no empty value) and which is smaller than 16 MiB, \<open>write\<close> puts
  out exactly \<open>total_len\<close> bytes without leaving its buffer, and the parsing constructor, whatever
  follows these bytes in memory, returns the same packet.
\<close>

theorem packet_roundtrip:
  assumes "pkt_wf p" and "\<forall>(k, v) \<in> set (xheader p). sendable (k, v) \<and> CHR '':'' \<notin> set v"
    and "unat (total_len p) < 2 ^ 24"
  shows "\<exists>mem. LanSyncPkt_write p = Inr mem \<and> length mem = unat (total_len p) \<and>
     LanSyncPkt_parse (mem @ rest) = Some (Inr (Parsed (p\<lparr>pkt_data := Some (data_of p)\<rparr>)))"
proof -
  have s: "\<forall>e \<in> set (xheader p). sendable e" using assms(2) by auto
  have "LanSyncPkt_write p = Inr (wire_bytes p)"
    using LanSyncPkt_write_bytes [OF assms(1) sendable_nul_free [OF s]] .
  moreover have "length (wire_bytes p) = unat (total_len p)"
    using assms(1) by (simp add: wire_bytes_def pkt_wf_def len_consts)
  moreover have "guard_passes (total_len p)"
    using assms(1,3) by (intro guard_passes_small) (simp_all add: pkt_wf_def)
  moreover have "cut_entries (xheader p) = xheader p" using assms(2) by (intro cut_entries_id) auto
  ultimately show ?thesis using parse_wire_bytes [OF assms(1) s, of rest] by auto
qed

definition sample_pkt :: lan_sync_pkt where
  "sample_pkt = setData ''xy'' (addXheader XHEADER_URI ''/a'' (LanSyncPkt_new LAN_SYNC_VER_0_1 LAN_SYNC_TYPE_REPLY_RESOURCE))"

lemma sample_pkt_wf: "pkt_wf sample_pkt"
proof -
  have "pkt_wf (addXheader XHEADER_URI ''/a'' (LanSyncPkt_new LAN_SYNC_VER_0_1 LAN_SYNC_TYPE_REPLY_RESOURCE))"
    by (rule pkt_wf_addXheader [OF pkt_wf_new])
      (simp_all add: LanSyncPkt_new_def len_consts XHEADER_URI_def data_of_def)
  moreover have "unat (header_len (addXheader XHEADER_URI ''/a''
      (LanSyncPkt_new LAN_SYNC_VER_0_1 LAN_SYNC_TYPE_REPLY_RESOURCE))) + length ''xy'' < 2 ^ 32"
    using unat_less_pow [of "header_len (addXheader XHEADER_URI ''/a''
      (LanSyncPkt_new LAN_SYNC_VER_0_1 LAN_SYNC_TYPE_REPLY_RESOURCE))"] by simp
  ultimately show ?thesis unfolding sample_pkt_def by (rule pkt_wf_setData)
qed

lemma sample_pkt_entries: "xheader sample_pkt = [(''uri'', ''/a'')]" "data_of sample_pkt = ''xy''"
  by (simp_all add: sample_pkt_def LanSyncPkt_new_def XHEADER_URI_def)

lemma sample_pkt_len: "unat (total_len sample_pkt) = 17"
  using sample_pkt_wf by (simp add: pkt_wf_def sample_pkt_entries len_consts)

theorem packet_roundtrip_witness:
  "\<exists>mem. LanSyncPkt_write sample_pkt = Inr mem \<and> length mem = 17 \<and>
     LanSyncPkt_parse (mem @ []) = Some (Inr (Parsed (sample_pkt\<lparr>pkt_data := Some ''xy''\<rparr>)))"
  using packet_roundtrip [OF sample_pkt_wf, of "[]"]
  by (simp add: sample_pkt_entries sample_pkt_len sendable_def)

text \<open>
  C16: building a packet keeps its counters right, each operation by itself. A new packet is well formed;
  \<open>addXheader\<close> of a non-empty value (a first time, or replacing the old value of the key) keeps it
  so as long as the headers fit 16 bits and the packet 32, stores this value and touches no other one
  and no data; \<open>setData\<close> (a first time, or replacing older data) keeps it so as long as the packet fits
  32 bits, stores the data with its length and touches no header.
\<close>

theorem packet_building_wf:
  assumes "pkt_wf p"
  shows "pkt_wf (LanSyncPkt_new ver ty) \<and>
    (v \<noteq> [] \<and> LEN_LAN_SYNC_HEADER_T + xh_size (str_put k v (xheader p)) < 2 ^ 16 \<and>
       LEN_LAN_SYNC_HEADER_T + xh_size (str_put k v (xheader p)) + length (data_of p) < 2 ^ 32 \<longrightarrow>
     pkt_wf (addXheader k v p) \<and> data_of (addXheader k v p) = data_of p \<and>
     (\<forall>k'. fst (queryXheader k' (addXheader k v p)) = (if k' = k then v else fst (queryXheader k' p)))) \<and>
    (unat (header_len p) + length bs < 2 ^ 32 \<longrightarrow>
     pkt_wf (setData bs p) \<and> data_of (setData bs p) = bs \<and> getDataLen (setData bs p) = of_nat (length bs) \<and>
     (\<forall>k'. fst (queryXheader k' (setData bs p)) = fst (queryXheader k' p)))"
proof (intro conjI impI)
  show "pkt_wf (LanSyncPkt_new ver ty)" by (rule pkt_wf_new)
next
  assume a: "v \<noteq> [] \<and> LEN_LAN_SYNC_HEADER_T + xh_size (str_put k v (xheader p)) < 2 ^ 16 \<and>
       LEN_LAN_SYNC_HEADER_T + xh_size (str_put k v (xheader p)) + length (data_of p) < 2 ^ 32"
  then show "pkt_wf (addXheader k v p)" by (intro pkt_wf_addXheader [OF assms]) simp_all
  show "data_of (addXheader k v p) = data_of p" by (simp add: data_of_def addXheader_def Let_def split: prod.split)
  show "\<forall>k'. fst (queryXheader k' (addXheader k v p)) = (if k' = k then v else fst (queryXheader k' p))"
    by (simp add: queryXheader_def sm_index_def split: option.splits)
next
  assume t: "unat (header_len p) + length bs < 2 ^ 32"
  show wf: "pkt_wf (setData bs p)" by (rule pkt_wf_setData [OF assms t])
  show "data_of (setData bs p) = bs" by simp
  from wf have "total_len (setData bs p) = of_nat (unat (header_len (setData bs p)) + length bs)"
    by (intro word_eq_of_nat) (simp add: pkt_wf_def)
  then show "getDataLen (setData bs p) = of_nat (length bs)" by (simp add: getDataLen_def)
  show "\<forall>k'. fst (queryXheader k' (setData bs p)) = fst (queryXheader k' p)"
    by (simp add: queryXheader_def sm_index_def split: option.splits)
qed

theorem packet_building_wf_witness:
  "pkt_wf (addXheader XHEADER_URI ''/long'' sample_pkt) \<and> pkt_wf (setData ''xyz'' sample_pkt) \<and>
     getDataLen (setData ''xyz'' sample_pkt) = 3"
proof -
  have "unat (header_len sample_pkt) = 8 + xh_size (xheader sample_pkt)" using sample_pkt_wf by (simp add: pkt_wf_def len_consts)
  then show ?thesis
    using packet_building_wf [OF sample_pkt_wf, of 0 0 "''/long''" XHEADER_URI "''xyz''"]
    by (simp add: sample_pkt_entries len_consts XHEADER_URI_def str_less_def)
qed

text \<open>
  C30: the guard of the parsing constructor tests the wrong number. It compares the length as it
  lies on the wire, so what it rejects, leaving a packet object whose version, type and data pointer
  are indeterminate, is exactly the packets whose length is \<open>j\<close> times 16 MiB (\<open>j\<close> from 0 to 7),
  those that \<open>write\<close> has produced among them; a packet that claims 1 to 7 bytes, less than the fixed
  header, gets past it, and copying its data, whose length has wrapped, leaves the buffer.
\<close>

theorem guard_rejects_written:
  shows "(\<forall>h rest. LanSyncPkt_parse (header_bytes h @ rest) = Some (Inr Rejected) \<longleftrightarrow>
      (\<exists>j < 8. unat (ntohl (hd_total_len h)) = j * 2 ^ 24)) \<and>
    (pkt_wf p \<and> nul_free p \<and> (\<exists>j < 8. unat (total_len p) = j * 2 ^ 24) \<longrightarrow>
      (\<exists>mem. LanSyncPkt_write p = Inr mem \<and> LanSyncPkt_parse (mem @ rest) = Some (Inr Rejected))) \<and>
    (1 \<le> unat n \<and> unat n < 8 \<and> length rest < 2 ^ 32 - 8 \<longrightarrow>
      LanSyncPkt_parse (header_bytes \<lparr>hd_version = ver, hd_type = ty, hd_header_len = htons 8, hd_total_len = htonl n\<rparr> @ rest) =
        Some (Inl OutOfBounds))"
proof (intro conjI allI impI)
  show rej: "LanSyncPkt_parse (header_bytes h @ rest) = Some (Inr Rejected) \<longleftrightarrow>
      (\<exists>j < 8. unat (ntohl (hd_total_len h)) = j * 2 ^ 24)" for h rest
  proof -
    have "LanSyncPkt_parse (header_bytes h @ rest) = Some (Inr Rejected) \<longleftrightarrow> \<not> guard_passes (ntohl (hd_total_len h))"
      by (auto simp: LanSyncPkt_parse_def guard_passes_def Let_def rbind_Inr_iff)
    then show ?thesis by (auto simp: guard_passes_iff)
  qed
  show "\<exists>mem. LanSyncPkt_write p = Inr mem \<and> LanSyncPkt_parse (mem @ rest) = Some (Inr Rejected)"
    if "pkt_wf p \<and> nul_free p \<and> (\<exists>j < 8. unat (total_len p) = j * 2 ^ 24)"
  proof -
    have "LanSyncPkt_write p = Inr (wire_bytes p)" using that by (intro LanSyncPkt_write_bytes) simp_all
    moreover have "LanSyncPkt_parse (wire_bytes p @ rest) = Some (Inr Rejected)"
      using that by (simp add: wire_bytes_def rej) (simp add: pkt_header_def)
    ultimately show ?thesis by blast
  qed
  show "LanSyncPkt_parse (header_bytes \<lparr>hd_version = ver, hd_type = ty, hd_header_len = htons 8, hd_total_len = htonl n\<rparr> @ rest) =
      Some (Inl OutOfBounds)" if a: "1 \<le> unat n \<and> unat n < 8 \<and> length rest < 2 ^ 32 - 8"
  proof -
    have "unat n \<noteq> j * 2 ^ 24" for j using a by (cases j) simp_all
    then have g: "guard_passes n" by (simp add: guard_passes_iff)
    have "unat (n - 8) = 2 ^ 32 + unat n - 8" using a by (simp add: unat_sub_if_size word_size)
    then have body: "slice (header_bytes hd @ rest) 8 (unat (n - 8)) = Inl OutOfBounds" for hd
      using a by (simp add: slice_def len_consts)
    have "parse_xheader mem 0 0 [] = Some (Inr [])" for mem by (subst parse_xheader.simps) simp
    then show ?thesis using g body
      by (simp add: LanSyncPkt_parse_def guard_passes_def parse_body_def len_consts Let_def)
  qed
qed

theorem guard_rejects_written_witness:
  "\<exists>p mem. length (data_of p) = 2 ^ 24 - 8 \<and> LanSyncPkt_write p = Inr mem \<and>
     LanSyncPkt_parse (mem @ []) = Some (Inr Rejected)"
proof -
  obtain d :: bytes where d: "length d = 2 ^ 24 - 8" using Ex_list_of_length by blast
  let ?new = "LanSyncPkt_new LAN_SYNC_VER_0_1 LAN_SYNC_TYPE_REPLY_TABLE_INDEX"
  let ?p = "setData d ?new"
  have h: "unat (header_len ?new) = 8" by (simp add: LanSyncPkt_new_def len_consts)
  have wf: "pkt_wf ?p" by (rule pkt_wf_setData [OF pkt_wf_new]) (simp add: h d)
  then have "unat (total_len ?p) = 1 * 2 ^ 24" by (simp add: pkt_wf_def h d)
  moreover have "nul_free ?p" by (simp add: nul_free_def LanSyncPkt_new_def)
  ultimately show ?thesis using guard_rejects_written [of ?p "[]"] wf d by force
qed

text \<open>
  C31: one header string hangs the parser. A packet whose first header string is 65535 bytes long
  takes the 16-bit counter around to where it was, and the constructor never returns.
\<close>

theorem parser_hangs:
  assumes "length s = 65535" and "NUL \<notin> set s" and "guard_passes (htonl (hd_total_len h))"
    and "ntohs (hd_header_len h) \<noteq> 8"
  shows "LanSyncPkt_parse (header_bytes h @ s @ NUL # rest) = None"
proof -
  have "cstr_at (header_bytes h @ s @ NUL # rest) LEN_LAN_SYNC_HEADER_T = Inr s"
    using cstr_at_append [OF assms(2), of "header_bytes h" rest] by (simp add: len_consts)
  moreover have "ntohs (hd_header_len h) - of_nat LEN_LAN_SYNC_HEADER_T \<noteq> 0"
    using assms(4) by (simp add: len_consts)
  then have "0 < ntohs (hd_header_len h) - of_nat LEN_LAN_SYNC_HEADER_T"
    by (simp only: word_gt_0)
  ultimately have "parse_xheader (header_bytes h @ s @ NUL # rest)
      (ntohs (hd_header_len h) - of_nat LEN_LAN_SYNC_HEADER_T) 0 [] = None"
    using parse_xheader_diverges assms(1) by blast
  then show ?thesis using assms(3) by (simp add: LanSyncPkt_parse_def guard_passes_def Let_def)
qed

theorem parser_hangs_witness:
  "\<exists>s. LanSyncPkt_parse (header_bytes \<lparr>hd_version = 1, hd_type = 1, hd_header_len = htons 9,
     hd_total_len = htonl 9\<rparr> @ s @ [NUL]) = None"
proof -
  have len: "length (replicate 65535 CHR ''a'') = 65535" by (rule length_replicate)
  have "guard_passes 9" by (rule guard_passes_small) (simp_all add: len_consts)
  then show ?thesis using parser_hangs [OF len, of "\<lparr>hd_version = 1, hd_type = 1, hd_header_len = htons 9,
     hd_total_len = htonl 9\<rparr>" "[]"] by (auto simp: in_set_replicate)
qed

text \<open>
  On what a datagram or any buffer of at most 65543 bytes holds, however malformed, the parser
  returns (with a packet, a rejection or a fault).
\<close>

theorem parser_returns:
  assumes "length mem \<le> 65543"
  shows "\<exists>r. LanSyncPkt_parse mem = Some r"
  using LanSyncPkt_parse_returns [OF assms] .

theorem parser_returns_witness:
  "\<exists>r. LanSyncPkt_parse (replicate 4096 NUL) = Some r"
  by (rule parser_returns) simp

text \<open>
  A separator in a value cuts it off. Of an extension header whose value contains a colon the
  parser keeps what stands before the colon, so a resource whose URI contains one is asked for
  under another name.
\<close>

theorem colon_cuts_value:
  assumes "pkt_wf p" and "\<forall>e \<in> set (xheader p). sendable e" and "unat (total_len p) < 2 ^ 24"
    and "str_find k (xheader p) = Some v"
  shows "\<exists>mem q. LanSyncPkt_write p = Inr mem \<and> LanSyncPkt_parse mem = Some (Inr (Parsed q)) \<and>
     fst (queryXheader k q) = takeWhile (\<lambda>c. c \<noteq> CHR '':'') v"
proof -
  have "LanSyncPkt_write p = Inr (wire_bytes p)"
    using LanSyncPkt_write_bytes [OF assms(1) sendable_nul_free [OF assms(2)]] .
  moreover have g: "guard_passes (total_len p)"
    using assms(1,3) by (intro guard_passes_small) (simp_all add: pkt_wf_def)
  moreover have "str_find k (cut_entries m) = map_option cut (str_find k m)" for m
    by (induction m) (auto simp: cut_entries_def)
  ultimately show ?thesis
    using parse_wire_bytes [OF assms(1,2) g, of "[]"] assms(4)
    by (auto simp: queryXheader_def sm_index_def cut_def)
qed

theorem colon_cuts_value_witness:
  "\<exists>mem q. LanSyncPkt_write sample_pkt = Inr mem \<and> LanSyncPkt_parse mem = Some (Inr (Parsed q)) \<and>
     fst (queryXheader ''uri'' q) = ''/a''"
  using colon_cuts_value [OF sample_pkt_wf, of "''uri''" "''/a''"]
  by (simp add: sample_pkt_entries sample_pkt_len sendable_def str_less_def)

end
