(* ===== verification/Net_Framework.thy ===== *)
theory Net_Framework
  imports Net_Addr Cxx_Vec Packet_Codec
begin

text \<open>
  The event-driven network layer, \<open>net/network_layer.cpp\<close> and
  \<open>net/net_framework_impl_with_event.cpp\<close>: the connection contexts and the two lists of them, the
  callbacks of a connection, the session index, and \<open>read_cb\<close>, which cuts the byte stream of a
  connection into packets.

  libevent and the sockets are outside the model: a callback is an operation, \<open>connect\<close> and
  \<open>socket\<close> succeed or not as an argument says, and what is written is appended to a log. A context
  is an address of the heap; an operation on one that was deleted is \<open>UseAfterFree\<close>.
\<close>

section \<open>Connection contexts\<close>

record conn_ctx =
  ctx_peer :: net_addr
  ctx_active :: bool
  ctx_udp :: bool

record net_fw =
  tcp_ctx :: "nat cvec"
  udp_ctx :: "nat cvec"
  ctx_heap :: "nat \<Rightarrow> conn_ctx option"
  ctx_fresh :: nat
  ctx_sent :: "(net_addr \<times> bytes) list"

definition net_fw_init :: net_fw where
  "net_fw_init = \<lparr>tcp_ctx = NullVec, udp_ctx = NullVec, ctx_heap = (\<lambda>_. None), ctx_fresh = 0, ctx_sent = []\<rparr>"

definition ctx_at :: "nat \<Rightarrow> net_fw \<Rightarrow> conn_ctx res" where
  "ctx_at i fw = (case ctx_heap fw i of Some c \<Rightarrow> Inr c | None \<Rightarrow> Inl UseAfterFree)"

definition ctx_getPeer :: "nat \<Rightarrow> net_fw \<Rightarrow> net_addr res" where
  "ctx_getPeer i fw = rbind (ctx_at i fw) (\<lambda>c. Inr (ctx_peer c))"

definition ctx_isActive :: "nat \<Rightarrow> net_fw \<Rightarrow> bool res" where
  "ctx_isActive i fw = rbind (ctx_at i fw) (\<lambda>c. Inr (ctx_active c))"

definition ctx_setNetAddr :: "nat \<Rightarrow> net_addr \<Rightarrow> net_fw \<Rightarrow> net_fw res" where
  "ctx_setNetAddr i a fw =
     rbind (ctx_at i fw) (\<lambda>c. Inr (fw\<lparr>ctx_heap := (ctx_heap fw)(i \<mapsto> c\<lparr>ctx_peer := a\<rparr>)\<rparr>))"

definition ctx_setActive :: "nat \<Rightarrow> bool \<Rightarrow> net_fw \<Rightarrow> net_fw res" where
  "ctx_setActive i status fw =
     rbind (ctx_at i fw) (\<lambda>c. Inr (fw\<lparr>ctx_heap := (ctx_heap fw)(i \<mapsto> c\<lparr>ctx_active := status\<rparr>)\<rparr>))"

text \<open>\<open>~NetworkConnCtx\<close>: the context takes itself out of its list, walking it backwards.\<close>

definition ctx_delete :: "nat \<Rightarrow> net_fw \<Rightarrow> net_fw res" where
  "ctx_delete i fw =
     rbind (ctx_at i fw) (\<lambda>c.
     rbind (erase_last (\<lambda>j. j = i) (if ctx_udp c then udp_ctx fw else tcp_ctx fw)) (\<lambda>found.
       let head = (case found of None \<Rightarrow> (if ctx_udp c then udp_ctx fw else tcp_ctx fw) | Some (_, rest) \<Rightarrow> rest);
           fw' = (if ctx_udp c then fw\<lparr>udp_ctx := head\<rparr> else fw\<lparr>tcp_ctx := head\<rparr>)
       in Inr (fw'\<lparr>ctx_heap := (ctx_heap fw')(i := None)\<rparr>)))"

text \<open>
  \<open>write\<close>: a TCP context that is not active deletes itself and throws, which is the answer
  \<open>False\<close>; a datagram is sent in any case.
\<close>

definition ctx_write :: "nat \<Rightarrow> bytes \<Rightarrow> net_fw \<Rightarrow> (bool \<times> net_fw) res" where
  "ctx_write i bs fw =
     rbind (ctx_at i fw) (\<lambda>c.
       if \<not> ctx_udp c \<and> \<not> ctx_active c then rbind (ctx_delete i fw) (\<lambda>fw'. Inr (False, fw'))
       else Inr (True, fw\<lparr>ctx_sent := ctx_sent fw @ [(ctx_peer c, bs)]\<rparr>))"

definition ctx_new :: "bool \<Rightarrow> net_addr \<Rightarrow> net_fw \<Rightarrow> nat \<times> net_fw" where
  "ctx_new udp peer fw =
     (let i = ctx_fresh fw;
          fw' = fw\<lparr>ctx_heap := (ctx_heap fw)(i \<mapsto> \<lparr>ctx_peer = peer, ctx_active = True, ctx_udp = udp\<rparr>),
                   ctx_fresh := i + 1\<rparr>
      in (i, if udp then fw'\<lparr>udp_ctx := push_back (udp_ctx fw') i\<rparr>
             else fw'\<lparr>tcp_ctx := push_back (tcp_ctx fw') i\<rparr>))"

text \<open>
  The callbacks and the operations that make contexts. Whatever event \<open>event_cb\<close> is called for, it
  deactivates the context and takes it off the list.
\<close>

definition event_cb :: "nat \<Rightarrow> net_fw \<Rightarrow> net_fw res" where
  "event_cb i fw =
     rbind (ctx_setActive i False fw) (\<lambda>fw'.
       Inr (fw'\<lparr>tcp_ctx := (case tcp_ctx fw' of NullVec \<Rightarrow> NullVec | Vec xs \<Rightarrow> Vec (remove1 i xs))\<rparr>))"

definition tcp_accept ::
    "(string \<Rightarrow> u32 option) \<Rightarrow> (u32 \<Rightarrow> string) \<Rightarrow> sockaddr_in \<Rightarrow> net_fw \<Rightarrow> (nat \<times> net_fw) res" where
  "tcp_accept aton ntoa peer fw =
     rbind (fromBe aton ntoa peer) (\<lambda>a. Inr (ctx_new False a fw))"

definition connectWithTcp :: "bool \<Rightarrow> net_addr \<Rightarrow> net_fw \<Rightarrow> nat option \<times> net_fw" where
  "connectWithTcp connected addr fw =
     (if \<not> connected then (None, fw)
      else (case ctx_new False addr fw of (i, fw') \<Rightarrow> (Some i, fw')))"

definition connectWithUdp :: "bool \<Rightarrow> net_addr \<Rightarrow> net_fw \<Rightarrow> nat option \<times> net_fw" where
  "connectWithUdp has_socket addr fw =
     (if \<not> has_socket then (None, fw)
      else (case ctx_new True addr fw of (i, fw') \<Rightarrow> (Some i, fw')))"

definition fw_cleanup :: "net_fw \<Rightarrow> net_fw" where
  "fw_cleanup fw =
     (let clear = (\<lambda>v. case v of NullVec \<Rightarrow> NullVec | Vec xs \<Rightarrow> Vec [])
      in fw\<lparr>tcp_ctx := clear (tcp_ctx fw), udp_ctx := clear (udp_ctx fw)\<rparr>)"

text \<open>\<open>addTcpServer\<close> and \<open>addUdpServer\<close>: a socket call that fails shuts the framework down.\<close>

definition addTcpServer :: "bool \<Rightarrow> net_fw \<Rightarrow> net_fw" where
  "addTcpServer sockets_ok fw = (if sockets_ok then fw else fw_cleanup fw)"

definition addUdpServer :: "bool \<Rightarrow> net_fw \<Rightarrow> net_fw" where
  "addUdpServer sockets_ok fw =
     (if sockets_ok then snd (ctx_new True NetAddr_default fw) else fw_cleanup fw)"

text \<open>The session index: the map orders addresses by their IP alone.\<close>

definition getAllTcpSession :: "net_fw \<Rightarrow> (net_addr, nat) smap res" where
  "getAllTcpSession fw =
     rfold (\<lambda>i idx. rbind (ctx_getPeer i fw) (\<lambda>a. Inr (sm_put addr_less a i idx))) (elems (tcp_ctx fw)) []"

section \<open>Reading a connection\<close>

text \<open>
  \<open>SyncController::isExtraAllDataNow\<close> decides how many bytes the next packet has, 0 meaning that
  it is not there yet.
\<close>

definition isExtraAllDataNow :: "bytes \<Rightarrow> u64 \<Rightarrow> u64 res" where
  "isExtraAllDataNow mem data_len =
     (if data_len < of_nat LEN_LAN_SYNC_HEADER_T then Inr 0
      else rbind (load_header mem) (\<lambda>h.
        if hd_version h \<noteq> LAN_SYNC_VER_0_1 then Inr 0
        else (let hd_total_len = ucast (ntohl (hd_total_len h)) in
              if data_len < hd_total_len then Inr 0 else Inr hd_total_len)))"

definition READ_LIMIT :: nat where "READ_LIMIT = 1024"

text \<open>
  \<open>read_cb\<close>: \<open>head\<close> is the buffer the packets are copied to, \<open>inbuf\<close> what the connection has
  received. The counter is tested after it is used, so the loop runs \<open>READ_LIMIT + 1\<close> times at
  most. The handler gets the buffer: the packet, zeros up to what had been received, and behind
  that what earlier rounds left.
\<close>

fun read_rounds ::
    "(bytes \<Rightarrow> u64 \<Rightarrow> u64 res) \<Rightarrow> (bytes \<Rightarrow> u64 \<Rightarrow> 's \<Rightarrow> 's res) \<Rightarrow> nat \<Rightarrow> bytes \<Rightarrow> bytes \<Rightarrow> 's \<Rightarrow>
     (bytes \<times> 's) res" where
  "read_rounds need recv 0 head inbuf s = Inr (inbuf, s)"
| "read_rounds need recv (Suc rounds) head inbuf s =
     (let recvLen = (of_nat (length inbuf) :: u32) in
      rbind (store head 0 (take (unat recvLen) inbuf)) (\<lambda>data.
      rbind (need data (ucast recvLen)) (\<lambda>want.
        if want = 0 \<or> ucast recvLen < want then Inr (inbuf, s)
        else
          rbind (store data 0 (replicate (unat recvLen) NUL)) (\<lambda>zeroed.
          rbind (store zeroed 0 (take (unat want) inbuf)) (\<lambda>data'.
          rbind (guard_res (unat want < 2 ^ 31) Uncaught) (\<lambda>_.
          rbind (recv data' want s) (\<lambda>s'.
            read_rounds need recv rounds data' (drop (unat want) inbuf) s')))))))"

definition read_cb ::
    "(bytes \<Rightarrow> u64 \<Rightarrow> u64 res) \<Rightarrow> (bytes \<Rightarrow> u64 \<Rightarrow> 's \<Rightarrow> 's res) \<Rightarrow> bytes \<Rightarrow> 's \<Rightarrow> (bytes \<times> 's) res" where
  "read_cb need recv inbuf s =
     (if (of_nat (length inbuf) :: u32) = 0 then Inr (inbuf, s)
      else read_rounds need recv (READ_LIMIT + 1)
             (replicate (unat (of_nat (length inbuf) :: u32)) NUL) inbuf s)"

text \<open>
  \<open>udp_read_cb\<close>: the datagram lies at the front of a zeroed buffer of 4096 bytes. An error of
  \<open>recvfrom\<close> is -1, which the unsigned test for 0 does not see.
\<close>

definition udp_read_cb :: "(bytes \<Rightarrow> u64 \<Rightarrow> 's \<Rightarrow> 's res) \<Rightarrow> bytes option \<Rightarrow> 's \<Rightarrow> 's res" where
  "udp_read_cb recv datagram s =
     (case datagram of
        None \<Rightarrow> recv (replicate 4096 NUL) (2 ^ 32 - 1) s
      | Some [] \<Rightarrow> Inr s
      | Some d \<Rightarrow> (let bs = take 4096 d in
          recv (bs @ replicate (4096 - length bs) NUL) (of_nat (length bs)) s))"

section \<open>Framing\<close>

text \<open>
  What \<open>read_cb\<close> needs of the logic it calls: \<open>frame\<close> says which byte strings are packets, \<open>need\<close>
  tells the length of the packet a buffer begins with and 0 while it is incomplete, and the handler
  looks at the bytes of the packet only.
\<close>

lemma read_round_stop:
  assumes "length X < 2 ^ 32" and "length X \<le> length head"
    and "\<And>tail. need (X @ tail) (of_nat (length X)) = Inr 0"
  shows "read_rounds need recv n head X s = Inr (X, s)"
proof (cases n)
  case (Suc m)
  have u: "unat (of_nat (length X) :: u32) = length X" using assms(1) by (rule unat_of_nat_u32)
  have uc: "ucast (of_nat (length X) :: u32) = (of_nat (length X) :: u64)"
    using assms(1) by (intro ucast_of_nat_less) simp
  have "store head 0 X = Inr (X @ drop (length X) head)" using assms(2) by (simp add: store_def)
  then show ?thesis using assms(3) by (simp add: Suc Let_def u uc)
qed simp

lemma read_round_go:
  assumes "length X < 2 ^ 32" and "length X \<le> length head"
    and "\<And>tail. need (X @ tail) (of_nat (length X)) = Inr (of_nat k)"
    and "0 < k" and "k < 2 ^ 31" and "k \<le> length X"
    and "\<And>tail. recv (take k X @ tail) (of_nat k) s = r"
  shows "\<exists>head'. length head' = length head \<and>
    read_rounds need recv (Suc n) head X s = rbind r (\<lambda>s'. read_rounds need recv n head' (drop k X) s')"
proof -
  have u: "unat (of_nat (length X) :: u32) = length X" using assms(1) by (rule unat_of_nat_u32)
  have uc: "ucast (of_nat (length X) :: u32) = (of_nat (length X) :: u64)"
    using assms(1) by (intro ucast_of_nat_less) simp
  have uk: "unat (of_nat k :: u64) = k" using assms(5) by (intro unat_of_nat_u64) simp
  have uX: "unat (of_nat (length X) :: u64) = length X" using assms(1) by (intro unat_of_nat_u64) simp
  have go: "\<not> ((of_nat k :: u64) = 0 \<or> of_nat (length X) < (of_nat k :: u64))"
    using assms(4,6) uk uX by (auto simp: word_less_nat_alt)
  let ?t1 = "X @ drop (length X) head"
  let ?t2 = "replicate (length X) NUL @ drop (length X) head"
  let ?t3 = "take k X @ drop k ?t2"
  have st: "store head 0 X = Inr ?t1" using assms(2) by (simp add: store_def)
  have z: "store ?t1 0 (replicate (length X) NUL) = Inr ?t2" by (simp add: store_def)
  have d: "store ?t2 0 (take k X) = Inr ?t3" using assms(6) by (simp add: store_def)
  have "length ?t3 = length head" using assms(2,6) by simp
  moreover have "read_rounds need recv (Suc n) head X s =
      rbind r (\<lambda>s'. read_rounds need recv n ?t3 (drop k X) s')"
    by (simp only: read_rounds.simps Let_def u uc st rbind.simps assms(3) go if_False z uk take_all order_refl d
        guard_res.simps assms(5) if_True assms(7))
  ultimately show ?thesis by blast
qed

locale framing =
  fixes need :: "bytes \<Rightarrow> u64 \<Rightarrow> u64 res" and recv :: "bytes \<Rightarrow> u64 \<Rightarrow> 's \<Rightarrow> 's res"
    and frame :: "bytes \<Rightarrow> bool" and handle :: "bytes \<Rightarrow> 's \<Rightarrow> 's res"
  assumes frame_length: "frame p \<Longrightarrow> 0 < length p \<and> length p < 2 ^ 31"
    and need_whole: "frame p \<Longrightarrow> length p \<le> n \<Longrightarrow> n < 2 ^ 32 \<Longrightarrow>
      need (p @ rest) (of_nat n) = Inr (of_nat (length p))"
    and need_part: "frame (p @ q) \<Longrightarrow> q \<noteq> [] \<Longrightarrow> need (p @ rest) (of_nat (length p)) = Inr 0"
    and need_empty: "need rest 0 = Inr 0"
    and recv_frame: "frame p \<Longrightarrow> recv (p @ rest) (of_nat (length p)) s = handle p s"
begin

definition partial :: "bytes \<Rightarrow> bool" where
  "partial p \<longleftrightarrow> p = [] \<or> (\<exists>q. q \<noteq> [] \<and> frame (p @ q))"

lemma need_partial: "partial p \<Longrightarrow> need (p @ rest) (of_nat (length p)) = Inr 0"
  using need_part need_empty by (auto simp: partial_def)

lemma partial_less: "partial p \<Longrightarrow> length p < 2 ^ 31"
  using frame_length by (force simp: partial_def)

text \<open>The rounds handle the complete packets, as many as there are rounds, and keep the rest.\<close>

lemma rounds:
  assumes "\<forall>p \<in> set ps. frame p" and "partial part" and "length (concat ps @ part) < 2 ^ 32"
    and "length (concat ps @ part) \<le> length head"
  shows "read_rounds need recv n head (concat ps @ part) s =
    rbind (rfold handle (take n ps) s) (\<lambda>s'. Inr (concat (drop n ps) @ part, s'))"
  using assms
proof (induction n arbitrary: ps head s)
  case (Suc n)
  show ?case
  proof (cases ps)
    case Nil
    then show ?thesis using Suc.prems need_partial [OF Suc.prems(2)]
        read_round_stop [where need = need and recv = recv and n = "Suc n" and head = head and X = part and s = s]
      by (simp del: read_rounds.simps)
  next
    case (Cons p qs)
    let ?X = "concat ps @ part"
    have p: "frame p" "0 < length p" "length p < 2 ^ 31" "length p \<le> length ?X"
      using Suc.prems(1) frame_length by (auto simp: Cons)
    have tk: "take (length p) ?X = p" "drop (length p) ?X = concat qs @ part" by (simp_all add: Cons)
    have nw: "need (?X @ tail) (of_nat (length ?X)) = Inr (of_nat (length p))" for tail
      using need_whole [OF p(1,4) Suc.prems(3), of "concat qs @ part @ tail"] by (simp add: Cons)
    have "recv (take (length p) ?X @ tail) (of_nat (length p)) s = handle p s" for tail
      unfolding tk by (rule recv_frame [OF p(1)])
    then obtain head' where h: "length head' = length head"
      and r: "read_rounds need recv (Suc n) head ?X s =
          rbind (handle p s) (\<lambda>s'. read_rounds need recv n head' (concat qs @ part) s')"
      using read_round_go [where need = need and recv = recv and s = s and n = n, OF Suc.prems(3,4) nw p(2,3,4)] unfolding tk by blast
    have "read_rounds need recv n head' (concat qs @ part) s' =
        rbind (rfold handle (take n qs) s') (\<lambda>s''. Inr (concat (drop n qs) @ part, s''))" for s'
      using Suc.prems h by (intro Suc.IH) (simp_all add: Cons)
    then show ?thesis unfolding r by (cases "handle p s") (simp_all add: Cons)
  qed
qed simp

lemma whole_not_partial:
  assumes "frame p"
  shows "\<not> partial (p @ r)"
proof
  assume w: "partial (p @ r)"
  have l: "length (p @ r) < 2 ^ 32" "0 < length p" "length p < 2 ^ 31"
    using partial_less [OF w] frame_length [OF assms] by auto
  have "unat (of_nat (length p) :: u64) = length p" using l(3) by (intro unat_of_nat_u64) simp
  then have "(of_nat (length p) :: u64) \<noteq> 0" using l(2) by auto
  then show False
    using need_whole [OF assms, of "length (p @ r)" r] need_partial [OF w, of "[]"] l(1) by simp
qed

lemma split_stream:
  assumes "\<forall>p \<in> set ps. frame p" and "partial part" and "x @ y = concat ps @ part"
  shows "\<exists>k part'. x = concat (take k ps) @ part' \<and> partial part' \<and> part' @ y = concat (drop k ps) @ part"
  using assms(1,3)
proof (induction ps arbitrary: x)
  case Nil
  then have "partial x" using assms(2) by (auto simp: partial_def)
  then show ?case using Nil by auto
next
  case (Cons p ps)
  obtain us where "x = p @ us \<or> x @ us = p"
    using Cons.prems(2) by (auto simp: append_eq_append_conv2)
  then consider (short) z where "p = x @ z" "z \<noteq> []" | (long) x' where "x = p @ x'"
    by (cases "us = []") auto
  then show ?case
  proof cases
    case short
    then have "partial x" using Cons.prems(1) by (auto simp: partial_def)
    then show ?thesis using Cons.prems(2) by (intro exI [of _ 0]) auto
  next
    case long
    then obtain k part' where "x' = concat (take k ps) @ part'" "partial part'"
      "part' @ y = concat (drop k ps) @ part"
      using Cons.IH [of x'] Cons.prems by auto
    then show ?thesis using long by (intro exI [of _ "Suc k"] exI [of _ part']) auto
  qed
qed

text \<open>However the bytes are cut into segments, the packets come out whole and in order.\<close>

lemma reassembly:
  assumes "\<forall>p \<in> set ps. frame p" and "length ps \<le> READ_LIMIT + 1" and "partial part" and "partial buf"
    and "buf @ concat segs = concat ps @ part" and "length (concat ps @ part) < 2 ^ 32"
  shows "rfold (\<lambda>seg (inbuf, s). read_cb need recv (inbuf @ seg) s) segs (buf, s) =
    rbind (rfold handle ps s) (\<lambda>s'. Inr (part, s'))"
  using assms
proof (induction segs arbitrary: ps buf s)
  case Nil
  then have "ps = []" using whole_not_partial by (cases ps) (auto simp: append_assoc)
  then show ?case using Nil by simp
next
  case (Cons seg segs)
  have "(buf @ seg) @ concat segs = concat ps @ part" using Cons.prems(5) by simp
  then obtain k part' where x: "buf @ seg = concat (take k ps) @ part'" "partial part'"
    "part' @ concat segs = concat (drop k ps) @ part"
    using split_stream [OF Cons.prems(1,3)] by blast
  have len: "length (concat ps @ part) = length (buf @ seg) + length (concat segs)"
    using Cons.prems(5) by (metis append_assoc concat.simps(2) length_append)
  then have lx: "length (concat (take k ps) @ part') < 2 ^ 32" using Cons.prems(6) x(1) by simp
  have tk: "take (READ_LIMIT + 1) (take k ps) = take k ps" "drop (READ_LIMIT + 1) (take k ps) = []"
    using Cons.prems(2) by (cases "k \<le> READ_LIMIT + 1"; simp)+
  have one: "read_cb need recv (buf @ seg) s = rbind (rfold handle (take k ps) s) (\<lambda>s'. Inr (part', s'))"
  proof (cases "buf @ seg = []")
    case True
    then have "concat (take k ps) = []" "part' = []" using x(1) by auto
    moreover have "take k ps = []"
      using \<open>concat (take k ps) = []\<close> Cons.prems(1) frame_length
      by (cases "take k ps") (auto dest: in_set_takeD, metis in_set_takeD length_greater_0_conv list.set_intros(1))
    ultimately show ?thesis using True by (simp only: read_cb_def rfold.simps rbind.simps) simp
  next
    case False
    have ln: "unat (of_nat (length (buf @ seg)) :: u32) = length (buf @ seg)"
      using lx unfolding x(1) by (rule unat_of_nat_u32)
    then have "(of_nat (length (buf @ seg)) :: u32) \<noteq> 0" using False by auto
    then show ?thesis
      using rounds [of "take k ps" part' "replicate (length (buf @ seg)) NUL" "READ_LIMIT + 1" s]
        Cons.prems(1) x(1,2) lx ln tk
      by (auto simp: read_cb_def dest: in_set_takeD simp del: read_rounds.simps)
  qed
  have ld: "length (concat (drop k ps) @ part) < 2 ^ 32"
    using Cons.prems(6) len x(1) unfolding x(3) [symmetric] by simp
  have IH: "rfold (\<lambda>seg (inbuf, s). read_cb need recv (inbuf @ seg) s) segs (part', s') =
      rbind (rfold handle (drop k ps) s') (\<lambda>s''. Inr (part, s''))" for s'
    by (rule Cons.IH) (use Cons.prems x ld in \<open>auto dest: in_set_dropD\<close>)
  have "rfold handle ps s = rbind (rfold handle (take k ps) s) (rfold handle (drop k ps))"
    by (metis append_take_drop_id rfold_append)
  then show ?case using one IH by (simp add: rbind_assoc)
qed

end

text \<open>
  The packets of the program: version 1, and as long as the header says. Every handler that reads
  only the bytes of the packet fits the interface.
\<close>

definition pkt_frame :: "bytes \<Rightarrow> bool" where
  "pkt_frame p \<longleftrightarrow> LEN_LAN_SYNC_HEADER_T \<le> length p \<and> length p < 2 ^ 31 \<and>
     (\<exists>h. load_header p = Inr h \<and> hd_version h = LAN_SYNC_VER_0_1 \<and>
        unat (ntohl (hd_total_len h)) = length p)"

lemma load_header_append: "LEN_LAN_SYNC_HEADER_T \<le> length p \<Longrightarrow> load_header (p @ r) = load_header p"
  by (simp add: load_header_def len_consts)

lemma isExtra_whole:
  assumes "pkt_frame p" and "length p \<le> n" and "n < 2 ^ 32"
  shows "isExtraAllDataNow (p @ rest) (of_nat n) = Inr (of_nat (length p))"
proof -
  obtain h where h: "load_header p = Inr h" "hd_version h = LAN_SYNC_VER_0_1"
    "unat (ntohl (hd_total_len h)) = length p" "8 \<le> length p" "length p < 2 ^ 31"
    using assms(1) by (auto simp: pkt_frame_def len_consts)
  have n: "unat (of_nat n :: u64) = n" using assms(3) by (intro unat_of_nat_u64) simp
  have t: "ucast (ntohl (hd_total_len h)) = (of_nat (length p) :: u64)" using h(3) by (metis of_nat_unat)
  have lp: "unat (of_nat (length p) :: u64) = length p" using h(5) by (intro unat_of_nat_u64) simp
  have "\<not> (of_nat n :: u64) < 8" using assms(2) h(4) n by (simp add: word_less_nat_alt)
  moreover have "\<not> (of_nat n :: u64) < of_nat (length p)" using assms(2) n lp by (simp add: word_less_nat_alt)
  ultimately show ?thesis
    using h(1,2,4) t load_header_append [of p rest] by (simp add: isExtraAllDataNow_def len_consts Let_def)
qed

lemma isExtra_part:
  assumes "pkt_frame (p @ q)" and "q \<noteq> []"
  shows "isExtraAllDataNow (p @ rest) (of_nat (length p)) = Inr 0"
proof -
  obtain h where h: "load_header (p @ q) = Inr h" "hd_version h = LAN_SYNC_VER_0_1"
    "unat (ntohl (hd_total_len h)) = length (p @ q)" "length (p @ q) < 2 ^ 31"
    using assms(1) by (auto simp: pkt_frame_def)
  have n: "unat (of_nat (length p) :: u64) = length p" using h(4) by (intro unat_of_nat_u64) simp
  show ?thesis
  proof (cases "length p < 8")
    case True
    then have "(of_nat (length p) :: u64) < 8" using n by (simp add: word_less_nat_alt)
    then show ?thesis by (simp add: isExtraAllDataNow_def len_consts)
  next
    case False
    then have lh: "load_header (p @ rest) = Inr h"
      using h(1) load_header_append [of p] by (simp add: len_consts)
    have "ucast (ntohl (hd_total_len h)) = (of_nat (length (p @ q)) :: u64)"
      using h(3) by (metis of_nat_unat)
    moreover have "unat (of_nat (length (p @ q)) :: u64) = length (p @ q)"
      using h(4) by (intro unat_of_nat_u64) simp
    ultimately have "(of_nat (length p) :: u64) < ucast (ntohl (hd_total_len h))"
      using n assms(2) by (simp add: word_less_nat_alt del: of_nat_add)
    then show ?thesis using lh h(2) by (simp add: isExtraAllDataNow_def Let_def)
  qed
qed

interpretation stream: framing isExtraAllDataNow "\<lambda>mem n. f (take (unat n) mem)" pkt_frame f
  for f :: "bytes \<Rightarrow> 's \<Rightarrow> 's res"
proof
  fix p q rest :: bytes and n :: nat and s :: 's
  show "pkt_frame p \<Longrightarrow> 0 < length p \<and> length p < 2 ^ 31"
    by (auto simp: pkt_frame_def len_consts)
  show "pkt_frame p \<Longrightarrow> length p \<le> n \<Longrightarrow> n < 2 ^ 32 \<Longrightarrow>
      isExtraAllDataNow (p @ rest) (of_nat n) = Inr (of_nat (length p))"
    by (rule isExtra_whole)
  show "pkt_frame (p @ q) \<Longrightarrow> q \<noteq> [] \<Longrightarrow> isExtraAllDataNow (p @ rest) (of_nat (length p)) = Inr 0"
    by (rule isExtra_part)
  show "isExtraAllDataNow rest 0 = Inr 0" by (simp add: isExtraAllDataNow_def len_consts)
  show "f (take (unat (of_nat (length p) :: u64)) (p @ rest)) s = f p s" if "pkt_frame p"
  proof -
    have "unat (of_nat (length p) :: u64) = length p"
      using that by (intro unat_of_nat_u64) (simp add: pkt_frame_def)
    then show ?thesis by simp
  qed
qed

lemma frame_of_wire:
  assumes "pkt_wf p" and "version p = LAN_SYNC_VER_0_1" and "unat (total_len p) < 2 ^ 31"
  shows "pkt_frame (wire_bytes p)"
proof -
  have "length (wire_bytes p) = unat (total_len p)"
    using assms(1) by (simp add: wire_bytes_def pkt_wf_def len_consts)
  moreover have "load_header (wire_bytes p) = Inr (pkt_header p)" by (simp add: wire_bytes_def)
  ultimately show ?thesis
    using assms by (simp add: pkt_frame_def pkt_header_def pkt_wf_def)
qed

section \<open>Properties\<close>

text \<open>
  C6: packets survive the stream. However TCP cuts the bytes of at most 1025 packets (the loop
  bound of \<open>read_cb\<close>) into segments, running \<open>read_cb\<close> after each segment hands the handler exactly
  these packets, whole and in order, and leaves nothing in the buffer.
\<close>

theorem stream_reassembled:
  assumes "\<forall>p \<in> set ps. pkt_frame p" and "length ps \<le> READ_LIMIT + 1"
    and "concat segs = concat ps" and "length (concat ps) < 2 ^ 32"
  shows "rfold (\<lambda>seg (inbuf, s). read_cb isExtraAllDataNow (\<lambda>mem n. f (take (unat n) mem)) (inbuf @ seg) s)
      segs ([], s) = rbind (rfold f ps s) (\<lambda>s'. Inr ([], s'))"
  using stream.reassembly [of ps "[]" "[]" segs] assms by (simp add: stream.partial_def)

lemma sample_frame: "pkt_frame (wire_bytes sample_pkt)"
  by (rule frame_of_wire [OF sample_pkt_wf])
    (simp_all add: sample_pkt_len, simp add: sample_pkt_def LanSyncPkt_new_def)

theorem stream_reassembled_witness:
  "\<exists>a b. a \<noteq> [] \<and> b \<noteq> [] \<and> a @ b = wire_bytes sample_pkt \<and>
     rfold (\<lambda>seg (inbuf, s). read_cb isExtraAllDataNow
         (\<lambda>mem n. (\<lambda>p s. Inr (s @ [p])) (take (unat n) mem)) (inbuf @ seg) s) [a, b] ([], []) =
       Inr ([], [wire_bytes sample_pkt])"
proof -
  let ?w = "wire_bytes sample_pkt"
  have l: "length ?w = 17" by (simp add: wire_bytes_def sample_pkt_entries)
  have "take 3 ?w \<noteq> []" "drop 3 ?w \<noteq> []" using l by auto
  moreover have "rfold (\<lambda>seg (inbuf, s). read_cb isExtraAllDataNow
         (\<lambda>mem n. (\<lambda>p s. Inr (s @ [p])) (take (unat n) mem)) (inbuf @ seg) s) [take 3 ?w, drop 3 ?w] ([], []) =
       rbind (rfold (\<lambda>p s. Inr (s @ [p])) [?w] []) (\<lambda>s'. Inr ([], s'))"
    by (rule stream_reassembled) (use sample_frame l in \<open>simp_all add: READ_LIMIT_def\<close>)
  ultimately show ?thesis
    by (intro exI [of _ "take 3 ?w"] exI [of _ "drop 3 ?w"]) simp
qed

text \<open>
  C39: one callback handles 1025 packets. When more have arrived the rest stays in the buffer, with
  no callback to come for it until the peer sends again.
\<close>

theorem read_limit_strands_packets:
  assumes "\<forall>p \<in> set ps. pkt_frame p" and "length (concat ps) < 2 ^ 32" and "ps \<noteq> []"
  shows "read_cb isExtraAllDataNow (\<lambda>mem n. f (take (unat n) mem)) (concat ps) s =
     rbind (rfold f (take 1025 ps) s) (\<lambda>s'. Inr (concat (drop 1025 ps), s'))"
proof -
  have ne: "concat ps \<noteq> []" using assms(1,3) by (cases ps) (auto simp: pkt_frame_def len_consts)
  have u: "unat (of_nat (length (concat ps)) :: u32) = length (concat ps)"
    using assms(2) by (rule unat_of_nat_u32)
  then have "(of_nat (length (concat ps)) :: u32) \<noteq> 0" using ne by auto
  then show ?thesis
    using stream.rounds [of ps "[]" "replicate (length (concat ps)) NUL" f "READ_LIMIT + 1" s] assms u
    by (simp add: read_cb_def stream.partial_def READ_LIMIT_def del: read_rounds.simps)
qed

theorem read_limit_strands_packets_witness:
  "read_cb isExtraAllDataNow (\<lambda>mem n. (\<lambda>p s. Inr (s + 1)) (take (unat n) mem))
     (concat (replicate 1030 (wire_bytes sample_pkt))) (0 :: nat) =
   rbind (rfold (\<lambda>p s. Inr (s + 1)) (take 1025 (replicate 1030 (wire_bytes sample_pkt))) 0)
     (\<lambda>s'. Inr (concat (drop 1025 (replicate 1030 (wire_bytes sample_pkt))), s'))"
proof (rule read_limit_strands_packets)
  have "length (wire_bytes sample_pkt) = 17" by (simp add: wire_bytes_def sample_pkt_entries)
  then have "length (concat (replicate n (wire_bytes sample_pkt))) = n * 17" for n
    by (induction n) simp_all
  then show "length (concat (replicate 1030 (wire_bytes sample_pkt))) < 2 ^ 32" by simp
qed (use sample_frame in auto)

text \<open>
  A connection whose next packet has another version byte is stuck: whatever has arrived and
  arrives, \<open>read_cb\<close> takes nothing out of the buffer and calls no handler.
\<close>

theorem wrong_version_wedges:
  assumes "LEN_LAN_SYNC_HEADER_T \<le> length inbuf" and "length inbuf < 2 ^ 32"
    and "hd inbuf \<noteq> char_of (1 :: nat)"
  shows "read_cb isExtraAllDataNow recv inbuf s = Inr (inbuf, s)"
proof -
  have u: "unat (of_nat (length inbuf) :: u32) = length inbuf"
    using assms(2) by (rule unat_of_nat_u32)
  have "isExtraAllDataNow (inbuf @ tail) n = Inr 0" for tail n
  proof -
    obtain c cs where c: "inbuf = c # cs" using assms(1) by (cases inbuf) (auto simp: len_consts)
    have "(of_le [c] :: u8) \<noteq> 1"
    proof
      assume "(of_le [c] :: u8) = 1"
      then have "unat (of_le [c] :: u8) = 1" by simp
      then have "(of_char c :: nat) = 1" by (simp add: unat_of_le del: of_le.simps)
      then have "char_of (1 :: nat) = c" by (metis char_of_char)
      then show False using assms(3) c by simp
    qed
    moreover obtain h where "load_header (inbuf @ tail) = Inr h" "hd_version h = of_le [c]"
      using assms(1) c by (auto simp: load_header_def len_consts)
    ultimately show ?thesis by (simp add: isExtraAllDataNow_def LAN_SYNC_VER_0_1_def)
  qed
  then show ?thesis
    using read_round_stop [where need = isExtraAllDataNow and X = inbuf and
        head = "replicate (length inbuf) NUL" and recv = recv and n = "READ_LIMIT + 1" and s = s] assms(2) u
    by (simp add: read_cb_def del: read_rounds.simps)
qed

theorem wrong_version_wedges_witness:
  "read_cb isExtraAllDataNow (\<lambda>mem n s. Inr (s + 1)) (replicate 100 NUL) (0 :: nat) = Inr (replicate 100 NUL, 0)"
  by (rule wrong_version_wedges) (simp_all add: len_consts char_of_def bit_0)

end
