(* ===== verification/Config_Manager.thy ===== *)
theory Config_Manager
  imports Std_Map Cxx_Text
begin

text \<open>
  Texts and configuration: \<open>utils/str_utils.cpp\<close>, \<open>utils/properties_parse.cpp\<close>,
  \<open>modules/config_manager.cpp\<close> and the level table of \<open>utils/logger.cpp\<close>. A properties file is
  its content, \<open>None\<close> when it cannot be opened.
\<close>

section \<open>StringBuilder and StringUtils\<close>

definition sb_add :: "string \<Rightarrow> string list \<Rightarrow> string list" where
  "sb_add a buf = buf @ [a]"

text \<open>
  \<open>str\<close> reads the text back with \<open>>>\<close>, which skips leading white space and stops at the next.
\<close>

definition sb_str :: "string list \<Rightarrow> string" where
  "sb_str buf =
     (if buf = [] then [] else takeWhile (\<lambda>c. \<not> is_space c) (dropWhile is_space (concat buf)))"

fun str_eq_loop :: "string \<Rightarrow> string \<Rightarrow> bool" where
  "str_eq_loop (a # l) (b # r) = (if a \<noteq> b then False else str_eq_loop l r)"
| "str_eq_loop _ _ = True"

definition str_eq :: "string \<Rightarrow> string \<Rightarrow> bool" where
  "str_eq l r = (if length l \<noteq> length r then False else str_eq_loop l r)"

lemma str_eq_iff [simp]: "str_eq l r \<longleftrightarrow> l = r"
proof -
  have "length l = length r \<Longrightarrow> str_eq_loop l r \<longleftrightarrow> l = r"
    by (induction l r rule: str_eq_loop.induct) auto
  then show ?thesis by (auto simp: str_eq_def)
qed

lemma sb_str_word:
  assumes "\<forall>s \<in> set buf. \<forall>c \<in> set s. \<not> is_space c"
  shows "sb_str buf = concat buf"
proof -
  have w: "\<forall>c \<in> set (concat buf). \<not> is_space c" using assms by auto
  have "dropWhile is_space s = s" if "\<forall>c \<in> set s. \<not> is_space c" for s
    using that by (cases s) auto
  with w have "dropWhile is_space (concat buf) = concat buf" by blast
  with w show ?thesis by (auto simp: sb_str_def takeWhile_eq_all_conv)
qed

section \<open>Properties files\<close>

definition LINE_LENGTH :: nat where "LINE_LENGTH = 10240"

definition trim :: "string \<Rightarrow> string" where
  "trim s =
     (if s = [] then s
      else rev (dropWhile (\<lambda>c. c = CHR '' '') (rev (dropWhile (\<lambda>c. c = CHR '' '') s))))"

text \<open>
  One line. Without an equals sign \<open>find\<close> answers \<open>npos\<close>, the key is the whole line, and
  \<open>npos + 1\<close> is 0, so that the value is the whole line too.
\<close>

definition prop_line :: "string \<Rightarrow> (string, string) smap \<Rightarrow> (string, string) smap" where
  "prop_line raw props =
     (let line = takeWhile (\<lambda>c. c \<noteq> NUL) raw in
      case find_char CHR ''='' line of
        Some p \<Rightarrow> str_put (trim (take p line)) (trim (drop (p + 1) line)) props
      | None \<Rightarrow> str_put (trim line) (trim line) props)"

text \<open>A line that does not fit the buffer fails the stream and ends the loop.\<close>

definition PropertiesParse_new :: "string option \<Rightarrow> (string, string) smap" where
  "PropertiesParse_new content =
     (case content of
        None \<Rightarrow> []
      | Some txt \<Rightarrow>
          foldl (\<lambda>props line. prop_line line props) []
            (takeWhile (\<lambda>l. length l < LINE_LENGTH) (splitstr txt CHR 0x0A)))"

definition prop_query :: "string \<Rightarrow> (string, string) smap \<Rightarrow> string \<times> (string, string) smap" where
  "prop_query key props = str_index [] key props"

section \<open>ConfigManager\<close>

definition CONFIG_KEY_DISCOVER_IPS :: string where
  "CONFIG_KEY_DISCOVER_IPS = ''ip.discovery''"
definition CONFIG_KEY_PROTO_DISCOVER_SERVER_UDP_PORT :: string where
  "CONFIG_KEY_PROTO_DISCOVER_SERVER_UDP_PORT = ''proto.udp.server.port''"
definition CONFIG_KEY_PROTO_SYNC_SERVER_TCP_PORT :: string where
  "CONFIG_KEY_PROTO_SYNC_SERVER_TCP_PORT = ''proto.tcp.server.port''"
definition CONFIG_KEY_RESOURCE_HOME :: string where
  "CONFIG_KEY_RESOURCE_HOME = ''resource.home''"
definition CONFIG_KEY_LOG_LEVEL :: string where
  "CONFIG_KEY_LOG_LEVEL = ''log.level''"

record config_manager =
  config_at :: string
  config_p :: "(string, string) smap"

definition config_init :: config_manager where
  "config_init = \<lparr>config_at = [], config_p = []\<rparr>"

definition config_reload :: "string \<Rightarrow> string option \<Rightarrow> config_manager \<Rightarrow> config_manager" where
  "config_reload path content c = c\<lparr>config_p := PropertiesParse_new content, config_at := path\<rparr>"

definition config_query :: "string \<Rightarrow> config_manager \<Rightarrow> (string \<times> config_manager) res" where
  "config_query key c =
     (if config_at c = [] then Inl ProcessExit
      else (case prop_query key (config_p c) of (v, p) \<Rightarrow> Inr (v, c\<lparr>config_p := p\<rparr>)))"

text \<open>\<open>queryList\<close> pushes what stands before a comma, and the last part unless it is empty.\<close>

function comma_loop :: "string \<Rightarrow> string list \<Rightarrow> string list" where
  "comma_loop v l =
     (case find_char CHR '','' v of
        None \<Rightarrow> l
      | Some p \<Rightarrow>
          (let rest = drop (p + 1) v in
           comma_loop rest
             (if rest \<noteq> [] \<and> find_char CHR '','' rest = None then (l @ [take p v]) @ [rest]
              else l @ [take p v])))"
  by pat_completeness auto
termination
proof (relation "measure (\<lambda>(v, l). length v)", goal_cases)
  case (2 v l p rest)
  then have "v \<noteq> []" by (auto simp: find_char_def split: if_splits)
  with 2 show ?case by simp
qed simp

declare comma_loop.simps [simp del]

lemma comma_loop_done: "find_char CHR '','' v = None \<Longrightarrow> comma_loop v l = l"
  by (simp add: comma_loop.simps)

definition config_queryList :: "string \<Rightarrow> config_manager \<Rightarrow> (string list \<times> config_manager) res" where
  "config_queryList key c =
     rbind (config_query key c) (\<lambda>(v, c').
       Inr (if v = [] then [] else if find_char CHR '','' v = None then [v] else comma_loop v [], c'))"

section \<open>Log levels\<close>

datatype log_level = L_debug | L_info | L_warn | L_err

definition log_level_a_to_enum :: "string \<Rightarrow> log_level" where
  "log_level_a_to_enum s =
     (if s = ''debug'' \<or> s = ''DEBUG'' then L_debug
      else if s = ''info'' \<or> s = ''INFO'' then L_info
      else if s = ''warn'' \<or> s = ''WARN'' then L_warn
      else if s = ''error'' \<or> s = ''ERROR'' then L_err
      else L_info)"

section \<open>What a configuration file means\<close>

text \<open>A list of addresses without commas, none of them empty, is read back as it was written.\<close>

fun comma_list :: "string list \<Rightarrow> string" where
  "comma_list [] = []"
| "comma_list [s] = s"
| "comma_list (s # t # ss) = s @ CHR '','' # comma_list (t # ss)"

lemma comma_loop_list:
  assumes "\<forall>s \<in> set (a # b # ss). s \<noteq> [] \<and> CHR '','' \<notin> set s"
  shows "comma_loop (comma_list (a # b # ss)) l = l @ a # b # ss"
  using assms
proof (induction ss arbitrary: a b l)
  case Nil
  then have "find_char CHR '','' b = None" by (simp add: find_char_def)
  then show ?case using Nil
    by (subst comma_loop.simps) (simp add: find_char_append Let_def comma_loop_done)
next
  case (Cons c ss)
  then have "comma_list (b # c # ss) \<noteq> []" and "find_char CHR '','' (comma_list (b # c # ss)) \<noteq> None"
    by (auto simp: find_char_def)
  moreover have "comma_loop (comma_list (b # c # ss)) (l @ [a]) = (l @ [a]) @ b # c # ss"
    using Cons.prems by (intro Cons.IH) auto
  ultimately show ?case using Cons.prems
    by (subst comma_loop.simps) (simp add: find_char_append Let_def)
qed

lemma queryList_reads_list:
  assumes "config_query key c = Inr (comma_list ss, c')" and "\<forall>s \<in> set ss. s \<noteq> [] \<and> CHR '','' \<notin> set s"
  shows "config_queryList key c = Inr (ss, c')"
proof (cases ss rule: comma_list.cases)
  case (2 s)
  then show ?thesis using assms by (simp add: config_queryList_def find_char_def)
next
  case (3 s t ts)
  then have "find_char CHR '','' (comma_list ss) \<noteq> None" "comma_list ss \<noteq> []"
    by (auto simp: find_char_def)
  then show ?thesis using assms comma_loop_list [of s t ts "[]"] 3
    by (simp add: config_queryList_def del: comma_list.simps)
qed (use assms in \<open>simp add: config_queryList_def\<close>)

end
