(* ===== verification/Net_Trigger.thy ===== *)
theory Net_Trigger
  imports Net_Framework Config_Manager
begin

text \<open>
  The periodic senders and how modules call each other: \<open>modules/net_trigger.cpp\<close>,
  \<open>modules/concrete_net_setup.cpp\<close>, \<open>modules/conn/mod_conn.cpp\<close>,
  \<open>components/sync_mod_conn_mediator.cpp\<close>, \<open>net/net_logic_container.cpp\<close> and
  \<open>components/sync_trigger.cpp\<close>.

  A \<open>NetTrigger\<close> keeps a map from the text of an address to a container, a null pointer being
  \<open>None\<close>. A container is the context it holds: the containers that reach the map have one.
  The discovery trigger sends over UDP, the other one over TCP; \<open>udp\<close> says which is meant.
\<close>

section \<open>The mediator\<close>

definition MODULE_NAME_SYNC_SERVICE :: string where
  "MODULE_NAME_SYNC_SERVICE = ''mod_syn_service''"
definition MODULE_NAME_DISCOVERY :: string where
  "MODULE_NAME_DISCOVERY = ''mod_discovery''"
definition MODULE_NAME_PERIOD_REQ_TB_IDX :: string where
  "MODULE_NAME_PERIOD_REQ_TB_IDX = ''mod_req_table_idx''"
definition MODULE_NAME_DISCOVER_LOGIC :: string where
  "MODULE_NAME_DISCOVER_LOGIC = ''mod_discovery_logic''"

definition MODULE_CONN_URI_DISCOVER_ADD :: string where
  "MODULE_CONN_URI_DISCOVER_ADD = ''/discover/add''"
definition MODULE_CONN_URI_DISCOVER_DEL :: string where
  "MODULE_CONN_URI_DISCOVER_DEL = ''/discover/del''"
definition MODULE_CONN_URI_PERIOD_REQ_TB_IDX_ADD :: string where
  "MODULE_CONN_URI_PERIOD_REQ_TB_IDX_ADD = ''/req_tb_idx/add''"
definition MODULE_CONN_URI_PERIOD_REQ_TB_IDX_DEL :: string where
  "MODULE_CONN_URI_PERIOD_REQ_TB_IDX_DEL = ''/req_tb_idx/del''"

lemmas module_names = MODULE_NAME_SYNC_SERVICE_def MODULE_NAME_DISCOVERY_def
  MODULE_NAME_PERIOD_REQ_TB_IDX_def MODULE_NAME_DISCOVER_LOGIC_def MODULE_CONN_URI_DISCOVER_ADD_def
  MODULE_CONN_URI_DISCOVER_DEL_def MODULE_CONN_URI_PERIOD_REQ_TB_IDX_ADD_def
  MODULE_CONN_URI_PERIOD_REQ_TB_IDX_DEL_def

text \<open>
  The objects that talk through the mediator, with the names their constructors give them:
  \<open>SyncCliSyncLogic\<close> never gets one.
\<close>

datatype module = Service | Discovery | DiscoverLogic | ReqTbIdx | ReqTbIdxLogic

fun mod_name :: "module \<Rightarrow> string" where
  "mod_name Service = MODULE_NAME_SYNC_SERVICE"
| "mod_name Discovery = MODULE_NAME_DISCOVERY"
| "mod_name DiscoverLogic = MODULE_NAME_DISCOVER_LOGIC"
| "mod_name ReqTbIdx = MODULE_NAME_PERIOD_REQ_TB_IDX"
| "mod_name ReqTbIdxLogic = []"

type_synonym mediator = "(string, module) smap"

definition med_add :: "module \<Rightarrow> mediator \<Rightarrow> bool \<times> mediator" where
  "med_add m mods =
     (if str_find (mod_name m) mods \<noteq> None then (False, mods)
      else (True, str_put (mod_name m) m mods))"

text \<open>\<open>del\<close> erases the first entry whose module has the name.\<close>

fun del_walk :: "string \<Rightarrow> mediator \<Rightarrow> mediator" where
  "del_walk name [] = []"
| "del_walk name ((k, m) # rest) =
     (if mod_name m = name then rest else (k, m) # del_walk name rest)"

definition med_del :: "string \<Rightarrow> mediator \<Rightarrow> mediator" where
  "med_del name mods = (if str_find name mods = None then mods else del_walk name mods)"

text \<open>\<open>mod_tel\<close>: the module whose \<open>mod_conn_recv\<close> is called, none if a name is not registered.\<close>

definition mod_tel :: "string \<Rightarrow> string \<Rightarrow> mediator \<Rightarrow> module option" where
  "mod_tel from_name to_name mods =
     (if str_find to_name mods = None then None
      else if str_find from_name mods = None then None
      else str_find to_name mods)"

section \<open>Triggers\<close>

type_synonym conn_map = "(string, nat option) smap"

record triggers =
  tr_fw :: net_fw
  tr_udp :: conn_map
  tr_tcp :: conn_map
  tr_mods :: mediator

definition conns :: "bool \<Rightarrow> triggers \<Rightarrow> conn_map" where
  "conns udp ts = (if udp then tr_udp ts else tr_tcp ts)"

definition set_conns :: "bool \<Rightarrow> conn_map \<Rightarrow> triggers \<Rightarrow> triggers" where
  "set_conns udp m ts = (if udp then ts\<lparr>tr_udp := m\<rparr> else ts\<lparr>tr_tcp := m\<rparr>)"

text \<open>
  \<open>setupConn\<close>. When the connection fails, \<open>connectWithTcp\<close> and \<open>connectWithUdp\<close> delete the
  container, whose destructor tests the pointer \<open>net_ctx\<close> that nothing has initialised yet.
\<close>

definition TcpCliConnSetUp_setupConn :: "bool \<Rightarrow> net_addr \<Rightarrow> net_fw \<Rightarrow> (nat \<times> net_fw) res" where
  "TcpCliConnSetUp_setupConn ok peer fw =
     (case connectWithTcp ok peer fw of
        (None, fw') \<Rightarrow> Inl Uninitialised
      | (Some i, fw') \<Rightarrow> Inr (i, fw'))"

definition UdpCliConnSetUp_setupConn :: "bool \<Rightarrow> net_addr \<Rightarrow> net_fw \<Rightarrow> (nat \<times> net_fw) res" where
  "UdpCliConnSetUp_setupConn ok peer fw =
     (case connectWithUdp ok peer fw of
        (None, fw') \<Rightarrow> Inl Uninitialised
      | (Some i, fw') \<Rightarrow> Inr (i, fw'))"

definition setupConn :: "bool \<Rightarrow> bool \<Rightarrow> net_addr \<Rightarrow> net_fw \<Rightarrow> (nat \<times> net_fw) res" where
  "setupConn udp = (if udp then UdpCliConnSetUp_setupConn else TcpCliConnSetUp_setupConn)"

text \<open>\<open>addConn\<close>: the lookup with \<open>[]\<close> enters a null pointer, and two of the returns leave it there.\<close>

definition addConn ::
    "(u32 \<Rightarrow> string) \<Rightarrow> bool \<Rightarrow> bool \<Rightarrow> net_addr \<Rightarrow> triggers \<Rightarrow> (bool \<times> triggers) res" where
  "addConn ntoa ok udp addr ts =
     (case str_index None (addr_str ntoa addr) (conns udp ts) of (netcli, cs) \<Rightarrow>
        (let ts1 = set_conns udp cs ts in
         if netcli \<noteq> None then Inr (False, ts1)
         else if s_addr (getAddr addr) = 0 then Inr (False, ts1)
         else
           rbind (setupConn udp ok addr (tr_fw ts1)) (\<lambda>(i, fw).
             Inr (True, set_conns udp (str_put (addr_str ntoa addr) (Some i) (conns udp ts1))
                          (ts1\<lparr>tr_fw := fw\<rparr>)))))"

text \<open>\<open>~NetCliLogicContainer\<close> deletes the context.\<close>

definition delNetAddr :: "(u32 \<Rightarrow> string) \<Rightarrow> bool \<Rightarrow> net_addr \<Rightarrow> triggers \<Rightarrow> (bool \<times> triggers) res" where
  "delNetAddr ntoa udp addr ts =
     (case str_index None (addr_str ntoa addr) (conns udp ts) of (udpcli, cs) \<Rightarrow>
        (case udpcli of
           None \<Rightarrow> Inr (False, set_conns udp cs ts)
         | Some i \<Rightarrow>
             rbind (ctx_delete i (tr_fw ts)) (\<lambda>fw.
               Inr (True, set_conns udp (str_erase (addr_str ntoa addr) cs) (ts\<lparr>tr_fw := fw\<rparr>)))))"

text \<open>
  \<open>trigger\<close> walks the map. \<open>exec\<close> answers \<open>False\<close> when an exception left it; then the entry is
  erased and its container deleted without its context. The iterator of a map stays valid while
  its element is in the map.
\<close>

definition next_entry :: "string \<Rightarrow> conn_map \<Rightarrow> (string \<times> nat option) option" where
  "next_entry k m = List.find (\<lambda>e. str_less k (fst e)) m"

partial_function (option) trigger_loop ::
    "bool \<Rightarrow> (nat \<Rightarrow> triggers \<Rightarrow> (bool \<times> triggers) res) \<Rightarrow> (string \<times> nat option) option \<Rightarrow> triggers \<Rightarrow>
     triggers res option" where
  "trigger_loop udp exec iter ts =
     (case iter of
        None \<Rightarrow> Some (Inr ts)
      | Some e \<Rightarrow>
          (case snd e of
             None \<Rightarrow> Some (Inl NullDeref)
           | Some i \<Rightarrow>
               (case rbind (ctx_getPeer i (tr_fw ts)) (\<lambda>peerAddr. exec i ts) of
                  Inl err \<Rightarrow> Some (Inl err)
                | Inr r \<Rightarrow>
                    (let ts' = snd r; cs = conns udp ts' in
                     if str_find (fst e) cs = None then Some (Inl BadIterator)
                     else if fst r then trigger_loop udp exec (next_entry (fst e) cs) ts'
                     else trigger_loop udp exec (next_entry (fst e) cs)
                            (set_conns udp (str_erase (fst e) cs) ts')))))"

definition trigger ::
    "bool \<Rightarrow> (nat \<Rightarrow> triggers \<Rightarrow> (bool \<times> triggers) res) \<Rightarrow> triggers \<Rightarrow> triggers res option" where
  "trigger udp exec ts =
     trigger_loop udp exec (case conns udp ts of [] \<Rightarrow> None | e # _ \<Rightarrow> Some e) ts"

section \<open>The modules\<close>

text \<open>The \<open>void *\<close> that goes with a call: an address or a context.\<close>

datatype mod_data = AddrPtr net_addr | CtxPtr nat

definition data_addr :: "mod_data \<Rightarrow> net_addr res" where
  "data_addr d = (case d of AddrPtr a \<Rightarrow> Inr a | CtxPtr i \<Rightarrow> Inl OutOfBounds)"

definition data_ctx_peer :: "mod_data \<Rightarrow> net_fw \<Rightarrow> net_addr res" where
  "data_ctx_peer d fw = (case d of AddrPtr a \<Rightarrow> Inl OutOfBounds | CtxPtr i \<Rightarrow> ctx_getPeer i fw)"

definition DiscoveryTrigger_recv ::
    "(u32 \<Rightarrow> string) \<Rightarrow> bool \<Rightarrow> string \<Rightarrow> mod_data \<Rightarrow> triggers \<Rightarrow> triggers res" where
  "DiscoveryTrigger_recv ntoa ok uri d ts =
     (if str_eq MODULE_CONN_URI_DISCOVER_ADD uri then
        rbind (data_ctx_peer d (tr_fw ts)) (\<lambda>a. rbind (addConn ntoa ok True a ts) (\<lambda>(_, ts'). Inr ts'))
      else if str_eq MODULE_CONN_URI_DISCOVER_DEL uri then
        rbind (data_ctx_peer d (tr_fw ts)) (\<lambda>a. rbind (delNetAddr ntoa True a ts) (\<lambda>(_, ts'). Inr ts'))
      else Inr ts)"

definition SyncReqTbIdxTrigger_recv ::
    "(u32 \<Rightarrow> string) \<Rightarrow> bool \<Rightarrow> string \<Rightarrow> mod_data \<Rightarrow> triggers \<Rightarrow> triggers res" where
  "SyncReqTbIdxTrigger_recv ntoa ok uri d ts =
     (if str_eq MODULE_CONN_URI_PERIOD_REQ_TB_IDX_ADD uri then
        rbind (data_addr d) (\<lambda>a. rbind (addConn ntoa ok False a ts) (\<lambda>(_, ts'). Inr ts'))
      else if str_eq MODULE_CONN_URI_PERIOD_REQ_TB_IDX_DEL uri then
        rbind (data_ctx_peer d (tr_fw ts)) (\<lambda>a. rbind (delNetAddr ntoa False a ts) (\<lambda>(_, ts'). Inr ts'))
      else Inr ts)"

text \<open>
  \<open>mod_conn_recv\<close> of each module. The two logics throw a string literal, which no handler of the
  program catches.
\<close>

fun mod_conn_recv ::
    "(u32 \<Rightarrow> string) \<Rightarrow> bool \<Rightarrow> module \<Rightarrow> string \<Rightarrow> mod_data \<Rightarrow> triggers \<Rightarrow> triggers res" where
  "mod_conn_recv ntoa ok Service uri d ts = Inr ts"
| "mod_conn_recv ntoa ok Discovery uri d ts = DiscoveryTrigger_recv ntoa ok uri d ts"
| "mod_conn_recv ntoa ok DiscoverLogic uri d ts = Inl Uncaught"
| "mod_conn_recv ntoa ok ReqTbIdx uri d ts = SyncReqTbIdxTrigger_recv ntoa ok uri d ts"
| "mod_conn_recv ntoa ok ReqTbIdxLogic uri d ts = Inl Uncaught"

definition mod_conn_send ::
    "(u32 \<Rightarrow> string) \<Rightarrow> bool \<Rightarrow> module \<Rightarrow> string \<Rightarrow> string \<Rightarrow> mod_data \<Rightarrow> triggers \<Rightarrow> triggers res" where
  "mod_conn_send ntoa ok sender to_name uri d ts =
     (case mod_tel (mod_name sender) to_name (tr_mods ts) of
        None \<Rightarrow> Inr ts
      | Some m \<Rightarrow> mod_conn_recv ntoa ok m uri d ts)"

text \<open>
  What the triggers send. An exception of \<open>write\<close> is caught here, by which time the context has
  deleted itself; its address goes to the mediator all the same.
\<close>

definition SyncCliDiscoverLogic_exec ::
    "(u32 \<Rightarrow> string) \<Rightarrow> nat \<Rightarrow> triggers \<Rightarrow> (bool \<times> triggers) res" where
  "SyncCliDiscoverLogic_exec ntoa i ts =
     rbind (LanSyncPkt_write (LanSyncPkt_new LAN_SYNC_VER_0_1 LAN_SYNC_TYPE_HELLO)) (\<lambda>bs.
     rbind (ctx_write i bs (tr_fw ts)) (\<lambda>(sent, fw).
       if sent then Inr (True, ts\<lparr>tr_fw := fw\<rparr>)
       else rbind (mod_conn_send ntoa False DiscoverLogic MODULE_NAME_DISCOVERY
                     MODULE_CONN_URI_DISCOVER_DEL (CtxPtr i) (ts\<lparr>tr_fw := fw\<rparr>)) (\<lambda>ts'. Inr (True, ts'))))"

definition reqTbIdx :: "(u32 \<Rightarrow> string) \<Rightarrow> nat \<Rightarrow> triggers \<Rightarrow> (bool \<times> triggers) res" where
  "reqTbIdx ntoa i ts =
     rbind (LanSyncPkt_write (LanSyncPkt_new LAN_SYNC_VER_0_1 LAN_SYNC_TYPE_GET_TABLE_INDEX)) (\<lambda>bs.
     rbind (ctx_write i bs (tr_fw ts)) (\<lambda>(sent, fw).
       if sent then Inr (True, ts\<lparr>tr_fw := fw\<rparr>)
       else rbind (mod_conn_send ntoa False ReqTbIdxLogic MODULE_NAME_PERIOD_REQ_TB_IDX
                     MODULE_CONN_URI_PERIOD_REQ_TB_IDX_DEL (CtxPtr i) (ts\<lparr>tr_fw := fw\<rparr>)) (\<lambda>ts'. Inr (True, ts'))))"

text \<open>
  The wiring of \<open>main\<close>: the constructors of the triggers register their logics, then \<open>main\<close>
  registers the service and the triggers.
\<close>

definition wired_mods :: mediator where
  "wired_mods = foldl (\<lambda>mods m. snd (med_add m mods)) []
     [DiscoverLogic, ReqTbIdxLogic, Service, Discovery, ReqTbIdx]"

section \<open>One round of a trigger\<close>

definition exec_of :: "bool \<Rightarrow> (u32 \<Rightarrow> string) \<Rightarrow> nat \<Rightarrow> triggers \<Rightarrow> (bool \<times> triggers) res" where
  "exec_of udp ntoa = (if udp then SyncCliDiscoverLogic_exec ntoa else reqTbIdx ntoa)"

definition tick_pkt :: "bool \<Rightarrow> lan_sync_pkt" where
  "tick_pkt udp = LanSyncPkt_new LAN_SYNC_VER_0_1
     (if udp then LAN_SYNC_TYPE_HELLO else LAN_SYNC_TYPE_GET_TABLE_INDEX)"

text \<open>A context that can be written to, and what a round over the entries \<open>es\<close> appends to the log.\<close>

definition ctx_ready :: "net_fw \<Rightarrow> nat \<Rightarrow> bool" where
  "ctx_ready fw i \<longleftrightarrow> (case ctx_heap fw i of None \<Rightarrow> False | Some c \<Rightarrow> ctx_udp c \<or> ctx_active c)"

definition tick_log :: "bool \<Rightarrow> net_fw \<Rightarrow> conn_map \<Rightarrow> (net_addr \<times> bytes) list" where
  "tick_log udp fw es =
     concat (map (\<lambda>(k, con). case con of None \<Rightarrow> []
        | Some i \<Rightarrow> [(ctx_peer (the (ctx_heap fw i)), wire_bytes (tick_pkt udp))]) es)"

definition add_sent :: "(net_addr \<times> bytes) list \<Rightarrow> triggers \<Rightarrow> triggers" where
  "add_sent out ts = ts\<lparr>tr_fw := (tr_fw ts)\<lparr>ctx_sent := ctx_sent (tr_fw ts) @ out\<rparr>\<rparr>"

lemma add_sent_simps [simp]:
  "conns udp (add_sent out ts) = conns udp ts" "tr_mods (add_sent out ts) = tr_mods ts"
  "ctx_heap (tr_fw (add_sent out ts)) = ctx_heap (tr_fw ts)"
  "ctx_ready (tr_fw (add_sent out ts)) = ctx_ready (tr_fw ts)"
  "tick_log udp (tr_fw (add_sent out ts)) es = tick_log udp (tr_fw ts) es"
  "add_sent b (add_sent a ts) = add_sent (a @ b) ts" "add_sent [] ts = ts"
  by (simp_all add: add_sent_def conns_def ctx_ready_def fun_eq_iff tick_log_def cong: option.case_cong)

lemma tick_pkt_write: "LanSyncPkt_write (tick_pkt udp) = Inr (wire_bytes (tick_pkt udp))"
  by (rule LanSyncPkt_write_bytes) (simp_all add: tick_pkt_def nul_free_def LanSyncPkt_new_def pkt_wf_def
      data_of_def xh_size_def len_consts)

lemma wired_tel:
  "mod_tel (mod_name DiscoverLogic) MODULE_NAME_DISCOVERY wired_mods = Some Discovery"
  "mod_tel (mod_name ReqTbIdxLogic) MODULE_NAME_PERIOD_REQ_TB_IDX wired_mods = Some ReqTbIdx"
  "mod_tel (mod_name Service) MODULE_NAME_PERIOD_REQ_TB_IDX wired_mods = Some ReqTbIdx"
  by code_simp+

lemma ctx_delete_gone: "ctx_delete i fw = Inr fw' \<Longrightarrow> ctx_heap fw' i = None"
  by (auto simp: ctx_delete_def rbind_Inr_iff Let_def split: option.splits)

lemma exec_ready:
  assumes "ctx_ready (tr_fw ts) i"
  shows "rbind (ctx_getPeer i (tr_fw ts)) (\<lambda>a. exec_of udp ntoa i ts) =
    Inr (True, add_sent [(ctx_peer (the (ctx_heap (tr_fw ts) i)), wire_bytes (tick_pkt udp))] ts)"
  using assms tick_pkt_write [of udp]
  by (auto simp: ctx_ready_def exec_of_def SyncCliDiscoverLogic_exec_def reqTbIdx_def tick_pkt_def ctx_write_def
      ctx_at_def ctx_getPeer_def add_sent_def split: option.splits)

lemma exec_not_ready:
  assumes "\<not> ctx_ready (tr_fw ts) i" and "tr_mods ts = wired_mods"
  shows "\<exists>e. rbind (ctx_getPeer i (tr_fw ts)) (\<lambda>a. exec_of udp ntoa i ts) = Inl e"
proof (cases "ctx_heap (tr_fw ts) i")
  case None
  then show ?thesis by (simp add: ctx_getPeer_def ctx_at_def)
next
  case (Some c)
  then have c: "\<not> ctx_udp c \<and> \<not> ctx_active c" using assms(1) by (simp add: ctx_ready_def)
  show ?thesis
  proof (cases "ctx_delete i (tr_fw ts)")
    case (Inl e)
    with Some c tick_pkt_write [of udp] show ?thesis
      by (auto simp: exec_of_def SyncCliDiscoverLogic_exec_def reqTbIdx_def tick_pkt_def ctx_write_def ctx_at_def
          ctx_getPeer_def)
  next
    case (Inr fw')
    then have "ctx_getPeer i fw' = Inl UseAfterFree"
      using ctx_delete_gone by (simp add: ctx_getPeer_def ctx_at_def)
    with Inr Some c assms(2) tick_pkt_write [of udp] wired_tel show ?thesis
      by (auto simp: exec_of_def SyncCliDiscoverLogic_exec_def reqTbIdx_def tick_pkt_def ctx_write_def ctx_at_def
          ctx_getPeer_def mod_conn_send_def DiscoveryTrigger_recv_def SyncReqTbIdxTrigger_recv_def module_names
          data_ctx_peer_def)
  qed
qed

definition first_entry :: "conn_map \<Rightarrow> (string \<times> nat option) option" where
  "first_entry m = (case m of [] \<Rightarrow> None | e # _ \<Rightarrow> Some e)"

lemma next_entry_sorted:
  assumes "sm_sorted str_less (pre @ e # rest)"
  shows "next_entry (fst e) (pre @ e # rest) = first_entry rest"
proof -
  have s: "sorted_wrt str_less (map fst pre @ fst e # map fst rest)" using assms by (simp add: sm_sorted_def)
  then have "List.find (\<lambda>x. str_less (fst e) (fst x)) pre = None"
    using str_map.asym by (auto simp: find_None_iff sorted_wrt_append)
  moreover have "List.find (\<lambda>x. str_less (fst e) (fst x)) (p @ q) = List.find (\<lambda>x. str_less (fst e) (fst x)) q"
    if "List.find (\<lambda>x. str_less (fst e) (fst x)) p = None" for p q :: conn_map
    using that by (induction p) (auto split: if_splits)
  ultimately show ?thesis using s
    by (cases rest) (auto simp: next_entry_def first_entry_def sorted_wrt_append str_map.irrefl)
qed

text \<open>The outcome of a round: one packet to every connection, or a fault if one of them is not ready.\<close>

lemma trigger_loop_outcome:
  assumes "sm_sorted str_less (conns udp ts)" and "tr_mods ts = wired_mods" and "conns udp ts = pre @ rest"
  shows "if \<forall>e \<in> set rest. \<exists>i. snd e = Some i \<and> ctx_ready (tr_fw ts) i
    then trigger_loop udp (exec_of udp ntoa) (first_entry rest) ts =
      Some (Inr (add_sent (tick_log udp (tr_fw ts) rest) ts))
    else \<exists>err. trigger_loop udp (exec_of udp ntoa) (first_entry rest) ts = Some (Inl err)"
  using assms
proof (induction rest arbitrary: pre ts)
  case Nil
  then show ?case by (subst trigger_loop.simps) (simp add: first_entry_def tick_log_def)
next
  case (Cons e rest)
  show ?case
  proof (cases "\<exists>i. snd e = Some i \<and> ctx_ready (tr_fw ts) i")
    case True
    then obtain i where i: "snd e = Some i" "ctx_ready (tr_fw ts) i" by blast
    let ?out = "[(ctx_peer (the (ctx_heap (tr_fw ts) i)), wire_bytes (tick_pkt udp))]"
    have "str_find (fst e) (conns udp ts) \<noteq> None"
      using Cons.prems by (cases e) (auto simp: str_map.find_map_of map_of_eq_None_iff)
    then obtain v where f: "str_find (fst e) (conns udp ts) = Some v" by blast
    have nx: "next_entry (fst e) (conns udp ts) = first_entry rest"
      using next_entry_sorted Cons.prems by simp
    have "trigger_loop udp (exec_of udp ntoa) (first_entry (e # rest)) ts =
        trigger_loop udp (exec_of udp ntoa) (first_entry rest) (add_sent ?out ts)"
      using f by (subst trigger_loop.simps) (simp add: first_entry_def i(1) exec_ready [OF i(2)] Let_def nx)
    moreover have "tick_log udp (tr_fw ts) (e # rest) = ?out @ tick_log udp (tr_fw ts) rest"
      using i(1) by (cases e) (simp add: tick_log_def)
    ultimately show ?thesis
      using Cons.IH [of "add_sent ?out ts" "pre @ [e]"] Cons.prems i by auto
  next
    case False
    have "\<exists>err. trigger_loop udp (exec_of udp ntoa) (first_entry (e # rest)) ts = Some (Inl err)"
    proof (cases "snd e")
      case None
      then show ?thesis by (subst trigger_loop.simps) (simp add: first_entry_def)
    next
      case (Some i)
      with False have "\<not> ctx_ready (tr_fw ts) i" by simp
      from exec_not_ready [OF this Cons.prems(2), of udp ntoa] obtain err
        where "rbind (ctx_getPeer i (tr_fw ts)) (\<lambda>a. exec_of udp ntoa i ts) = Inl err" ..
      with Some show ?thesis by (subst trigger_loop.simps) (simp add: first_entry_def)
    qed
    with False show ?thesis by auto
  qed
qed

lemma trigger_outcome:
  assumes "sm_sorted str_less (conns udp ts)" and "tr_mods ts = wired_mods"
  shows "if \<forall>e \<in> set (conns udp ts). \<exists>i. snd e = Some i \<and> ctx_ready (tr_fw ts) i
    then trigger udp (exec_of udp ntoa) ts = Some (Inr (add_sent (tick_log udp (tr_fw ts) (conns udp ts)) ts))
    else \<exists>err. trigger udp (exec_of udp ntoa) ts = Some (Inl err)"
proof -
  have "trigger udp exec ts = trigger_loop udp exec (first_entry (conns udp ts)) ts" for exec
    by (simp add: trigger_def first_entry_def)
  then show ?thesis using trigger_loop_outcome [OF assms, of "[]" "conns udp ts" ntoa] by simp
qed

section \<open>Properties\<close>

lemma conns_set [simp]: "conns udp (set_conns udp m ts) = m" "tr_fw (set_conns udp m ts) = tr_fw ts"
  "tr_mods (set_conns udp m ts) = tr_mods ts"
  by (simp_all add: conns_def set_conns_def)

text \<open>What a round does: every connection in turn; those on which the sender fails are erased.\<close>

fun each_conn ::
    "bool \<Rightarrow> (nat \<Rightarrow> triggers \<Rightarrow> (bool \<times> triggers) res) \<Rightarrow> conn_map \<Rightarrow> triggers \<Rightarrow> triggers res" where
  "each_conn udp exec [] ts = Inr ts"
| "each_conn udp exec ((key, None) # es) ts = Inl NullDeref"
| "each_conn udp exec ((key, Some i) # es) ts =
     rbind (ctx_getPeer i (tr_fw ts)) (\<lambda>peer. rbind (exec i ts) (\<lambda>(ok, ts').
       each_conn udp exec es
         (if ok then ts' else set_conns udp (filter (\<lambda>e. fst e \<noteq> key) (conns udp ts')) ts')))"

lemma erase_filter: "sm_sorted str_less m \<Longrightarrow> str_erase k m = filter (\<lambda>e. fst e \<noteq> k) m"
proof (induction m)
  case (Cons e m)
  have above: "\<forall>x \<in> set m. fst e < fst x" using Cons.prems by (auto simp: sm_sorted_def str_less_def)
  have "sm_sorted str_less m" using Cons.prems by (simp add: sm_sorted_def)
  then have IH: "str_erase k m = filter (\<lambda>e. fst e \<noteq> k) m" by (rule Cons.IH)
  have keep: "filter (\<lambda>e. fst e \<noteq> k) m = m" if le: "k \<le> fst e"
  proof (intro filter_True ballI)
    fix x assume "x \<in> set m"
    with above have "fst e < fst x" by blast
    with le have "k < fst x" by (rule le_less_trans)
    then show "fst x \<noteq> k" by simp
  qed
  obtain key con where e: "e = (key, con)" by (cases e)
  from less_linear [of k key] show ?case
  proof (elim disjE)
    assume "k < key"
    then show ?thesis using keep by (simp add: e str_less_def)
  next
    assume "k = key"
    then show ?thesis using keep by (simp add: e str_less_def)
  next
    assume "key < k"
    then have "str_less key k" "\<not> str_less k key" "key \<noteq> k" by (simp_all add: str_less_def less_not_sym)
    then show ?thesis using IH by (simp add: e)
  qed
qed simp

lemma trigger_loop_each:
  assumes "sm_sorted str_less (conns udp ts)" and "conns udp ts = pre @ rest"
    and "\<And>i t ok t'. exec i t = Inr (ok, t') \<Longrightarrow> conns udp t' = conns udp t"
  shows "trigger_loop udp exec (first_entry rest) ts = Some (each_conn udp exec rest ts)"
  using assms(1,2)
proof (induction rest arbitrary: pre ts)
  case Nil
  then show ?case by (subst trigger_loop.simps) (simp add: first_entry_def)
next
  case (Cons e rest)
  obtain key con where e: "e = (key, con)" by (cases e)
  show ?case
  proof (cases con)
    case None
    then show ?thesis by (subst trigger_loop.simps) (simp add: first_entry_def e)
  next
    case (Some i)
    show ?thesis
    proof (cases "rbind (ctx_getPeer i (tr_fw ts)) (\<lambda>a. exec i ts)")
      case (Inl err)
      then show ?thesis using Some
        by (subst trigger_loop.simps, cases "ctx_getPeer i (tr_fw ts)") (simp_all add: first_entry_def e)
    next
      case (Inr r)
      obtain ok ts' where r: "r = (ok, ts')" by (cases r)
      obtain peer where run: "ctx_getPeer i (tr_fw ts) = Inr peer" "exec i ts = Inr (ok, ts')"
        using Inr r by (auto simp: rbind_Inr_iff)
      have cs: "conns udp ts' = pre @ e # rest" and sorted: "sm_sorted str_less (conns udp ts')"
        using assms(3) [OF run(2)] Cons.prems by simp_all
      then have "str_find key (conns udp ts') \<noteq> None"
        by (auto simp: str_map.find_map_of map_of_eq_None_iff e)
      then obtain v where f: "str_find key (conns udp ts') = Some v" by blast
      have nx: "next_entry key (conns udp ts') = first_entry rest"
        using next_entry_sorted [of pre e rest] sorted cs by (simp add: e)
      let ?erased = "set_conns udp (filter (\<lambda>e. fst e \<noteq> key) (conns udp ts')) ts'"
      have "\<forall>x \<in> set (pre @ rest). fst x \<noteq> key"
        using sorted str_map.irrefl unfolding cs by (auto simp: sm_sorted_def sorted_wrt_append e)
      then have "filter (\<lambda>e. fst e \<noteq> key) (pre @ rest) = pre @ rest" by (intro filter_True) simp
      then have gone: "filter (\<lambda>e. fst e \<noteq> key) (conns udp ts') = pre @ rest" unfolding cs by (simp add: e)
      have "sm_sorted str_less (pre @ rest)" using sorted unfolding cs by (auto simp: sm_sorted_def sorted_wrt_append)
      then have erased: "trigger_loop udp exec (first_entry rest) ?erased = Some (each_conn udp exec rest ?erased)"
        using gone by (intro Cons.IH [of ?erased pre]) simp_all
      have kept: "trigger_loop udp exec (first_entry rest) ts' = Some (each_conn udp exec rest ts')"
        using sorted cs by (intro Cons.IH [of ts' "pre @ [e]"]) simp_all
      show ?thesis
        using run f nx erased kept erase_filter [OF sorted, of key]
        by (subst trigger_loop.simps) (simp add: first_entry_def e Some Let_def)
    qed
  qed
qed

text \<open>
  C21: a round of a trigger goes over its map in order, whatever the sender does as long as it leaves the
  map alone: a null entry is a fault, an entry whose sender fails is erased (and its context left to
  itself), and the round goes on with the next one. With the senders of the program (\<open>HELLO\<close>, or the
  request for the table) it has one of two outcomes: when every entry has a context that is open,
  the packet is sent once to each of them in the order of the map and nothing else changes;
  otherwise the round faults.
\<close>

theorem trigger_reaches_all:
  assumes "sm_sorted str_less (conns udp ts)"
  shows "((\<forall>i t ok t'. exec i t = Inr (ok, t') \<longrightarrow> conns udp t' = conns udp t) \<longrightarrow>
      trigger udp exec ts = Some (each_conn udp exec (conns udp ts) ts)) \<and>
    (tr_mods ts = wired_mods \<longrightarrow>
      (if \<forall>e \<in> set (conns udp ts). \<exists>i c. snd e = Some i \<and> ctx_heap (tr_fw ts) i = Some c \<and> (ctx_udp c \<or> ctx_active c)
       then trigger udp (exec_of udp ntoa) ts = Some (Inr (ts\<lparr>tr_fw := (tr_fw ts)\<lparr>ctx_sent := ctx_sent (tr_fw ts) @
         map (\<lambda>e. (ctx_peer (the (ctx_heap (tr_fw ts) (the (snd e)))), wire_bytes (tick_pkt udp))) (conns udp ts)\<rparr>\<rparr>))
       else \<exists>err. trigger udp (exec_of udp ntoa) ts = Some (Inl err)))"
proof (intro conjI impI)
  assume "\<forall>i t ok t'. exec i t = Inr (ok, t') \<longrightarrow> conns udp t' = conns udp t"
  moreover have "trigger udp exec ts = trigger_loop udp exec (first_entry (conns udp ts)) ts"
    by (simp add: trigger_def first_entry_def)
  ultimately show "trigger udp exec ts = Some (each_conn udp exec (conns udp ts) ts)"
    using trigger_loop_each [OF assms, of "[]" "conns udp ts"] by simp
next
  assume wired: "tr_mods ts = wired_mods"
  have ready: "(\<exists>i c. snd e = Some i \<and> ctx_heap (tr_fw ts) i = Some c \<and> (ctx_udp c \<or> ctx_active c)) \<longleftrightarrow>
      (\<exists>i. snd e = Some i \<and> ctx_ready (tr_fw ts) i)" for e :: "string \<times> nat option"
    by (auto simp: ctx_ready_def split: option.splits)
  have "tick_log udp (tr_fw ts) es =
      map (\<lambda>e. (ctx_peer (the (ctx_heap (tr_fw ts) (the (snd e)))), wire_bytes (tick_pkt udp))) es"
    if "\<forall>e \<in> set es. \<exists>i. snd e = Some i \<and> ctx_ready (tr_fw ts) i" for es
    using that by (induction es) (auto simp: tick_log_def)
  then show "if \<forall>e \<in> set (conns udp ts). \<exists>i c. snd e = Some i \<and> ctx_heap (tr_fw ts) i = Some c \<and> (ctx_udp c \<or> ctx_active c)
       then trigger udp (exec_of udp ntoa) ts = Some (Inr (ts\<lparr>tr_fw := (tr_fw ts)\<lparr>ctx_sent := ctx_sent (tr_fw ts) @
         map (\<lambda>e. (ctx_peer (the (ctx_heap (tr_fw ts) (the (snd e)))), wire_bytes (tick_pkt udp))) (conns udp ts)\<rparr>\<rparr>))
       else \<exists>err. trigger udp (exec_of udp ntoa) ts = Some (Inl err)"
    unfolding ready using trigger_outcome [OF assms wired, of ntoa] by (auto simp: add_sent_def split: if_splits)
qed

definition one_conn :: "net_addr \<Rightarrow> triggers" where
  "one_conn a = (case ctx_new False a net_fw_init of (i, fw) \<Rightarrow>
     \<lparr>tr_fw = fw, tr_udp = [], tr_tcp = [(''a'', Some i)], tr_mods = wired_mods\<rparr>)"

lemma one_conn_simps [simp]:
  "conns False (one_conn a) = [(''a'', Some 0)]" "tr_mods (one_conn a) = wired_mods"
  "ctx_heap (tr_fw (one_conn a)) 0 = Some \<lparr>ctx_peer = a, ctx_active = True, ctx_udp = False\<rparr>"
  by (simp_all add: one_conn_def ctx_new_def net_fw_init_def conns_def Let_def)

theorem trigger_reaches_all_witness:
  "(\<exists>ts. trigger False (exec_of False quad_ntoa) (one_conn NetAddr_default) = Some (Inr ts) \<and>
      ctx_sent (tr_fw ts) = ctx_sent (tr_fw (one_conn NetAddr_default)) @ [(NetAddr_default, wire_bytes (tick_pkt False))]) \<and>
   (\<exists>ts. trigger False (\<lambda>i t. Inr (False, t)) (one_conn NetAddr_default) = Some (Inr ts) \<and> conns False ts = [])"
proof -
  have s: "sm_sorted str_less (conns False (one_conn NetAddr_default))" by simp
  have "ctx_getPeer 0 (tr_fw (one_conn NetAddr_default)) = Inr NetAddr_default" by (simp add: ctx_getPeer_def ctx_at_def)
  then show ?thesis
    using trigger_reaches_all [OF s, of "\<lambda>i t. Inr (False, t)" quad_ntoa] by simp
qed

text \<open>
  An address whose IP is 0 (a host the C library could not parse, an interface without a
  broadcast address) is refused by \<open>addConn\<close>, but the refusal leaves a null container in the map,
  and the next round of the trigger faults on it, whatever the other connections are.
\<close>

theorem refused_address_breaks_trigger:
  assumes "sm_sorted str_less (conns udp ts)" and "tr_mods ts = wired_mods"
    and "s_addr (le_addr a) = 0" and "str_find (addr_str ntoa a) (conns udp ts) = None"
  shows "\<exists>ts' err. addConn ntoa ok udp a ts = Inr (False, ts') \<and> tr_fw ts' = tr_fw ts \<and>
    trigger udp (exec_of udp ntoa) ts' = Some (Inl err)"
proof -
  let ?ts = "set_conns udp (str_put (addr_str ntoa a) None (conns udp ts)) ts"
  have "addConn ntoa ok udp a ts = Inr (False, ?ts)"
    using assms(3,4) by (simp add: addConn_def sm_index_def getAddr_def)
  moreover have "(addr_str ntoa a, None) \<in> set (conns udp ?ts)"
    by (rule str_map.find_Some_in) simp
  then have "\<not> (\<forall>e \<in> set (conns udp ?ts). \<exists>i. snd e = Some i \<and> ctx_ready (tr_fw ?ts) i)" by force
  then have "\<exists>err. trigger udp (exec_of udp ntoa) ?ts = Some (Inl err)"
    using trigger_outcome [of udp ?ts ntoa] assms(1,2) by (simp split: if_splits)
  ultimately show ?thesis by auto
qed

theorem refused_address_breaks_trigger_witness:
  "\<exists>ts' err. addConn quad_ntoa True False NetAddr_default (one_conn NetAddr_default) = Inr (False, ts') \<and>
     trigger False (exec_of False quad_ntoa) ts' = Some (Inl err)"
proof -
  have "str_find (addr_str quad_ntoa NetAddr_default) (conns False (one_conn NetAddr_default)) = None"
    unfolding one_conn_simps by code_simp
  then show ?thesis
    using refused_address_breaks_trigger [of False "one_conn NetAddr_default" NetAddr_default quad_ntoa True]
    by (auto simp: NetAddr_default_def sockaddr_zero_def)
qed

text \<open>
  After a peer has closed its connection (\<open>event_cb\<close>), the trigger's map still names the
  context; the next round uses it after it has deleted itself.
\<close>

theorem closed_connection_breaks_trigger:
  assumes "sm_sorted str_less (conns False ts)" and "tr_mods ts = wired_mods"
    and "(k, Some i) \<in> set (conns False ts)" and "ctx_heap (tr_fw ts) i = Some c" and "\<not> ctx_udp c"
  shows "\<exists>fw err. event_cb i (tr_fw ts) = Inr fw \<and>
    trigger False (exec_of False ntoa) (ts\<lparr>tr_fw := fw\<rparr>) = Some (Inl err)"
proof -
  obtain fw where fw: "event_cb i (tr_fw ts) = Inr fw" and h: "ctx_heap fw i = Some (c\<lparr>ctx_active := False\<rparr>)"
    using assms(4) by (simp add: event_cb_def ctx_setActive_def ctx_at_def)
  let ?ts = "ts\<lparr>tr_fw := fw\<rparr>"
  have "\<not> ctx_ready fw i" using h assms(5) by (simp add: ctx_ready_def)
  moreover have "conns False ?ts = conns False ts" by (simp add: conns_def)
  ultimately have "\<not> (\<forall>e \<in> set (conns False ?ts). \<exists>i. snd e = Some i \<and> ctx_ready (tr_fw ?ts) i)"
    using assms(3) by force
  then have "\<exists>err. trigger False (exec_of False ntoa) ?ts = Some (Inl err)"
    using trigger_outcome [of False ?ts ntoa] assms(1,2) by (simp add: conns_def split: if_splits)
  with fw show ?thesis by auto
qed

theorem closed_connection_breaks_trigger_witness:
  "\<exists>fw err. event_cb 0 (tr_fw (one_conn NetAddr_default)) = Inr fw \<and>
     trigger False (exec_of False quad_ntoa) (one_conn NetAddr_default\<lparr>tr_fw := fw\<rparr>) = Some (Inl err)"
  by (rule closed_connection_breaks_trigger [where k = "''a''" and
        c = "\<lparr>ctx_peer = NetAddr_default, ctx_active = True, ctx_udp = False\<rparr>"]) simp_all

end
