(* ===== verification/Content_Range.thy ===== *)
theory Content_Range
  imports Cxx_Text
begin

text \<open>
  The classes \<open>Range\<close> and \<open>ContentRange\<close> of \<open>proto/lan_share_protocol.cpp\<close>: which part of a file
  a request asks for and a reply carries, as text in an extension header
  (\<open>0-500\<close>, \<open>0-\<close>, \<open>0-500/22400/more\<close>). A field whose conversion matched no digit keeps an
  indeterminate value, \<open>None\<close>. The two texts have one law in common, stated as the locale
  \<open>text_codec\<close>: what \<open>to_string\<close> prints, the constructor reads back.
\<close>

definition FLAG_XHEADER_CONTENT_RANGE_LAST :: string where
  "FLAG_XHEADER_CONTENT_RANGE_LAST = ''last''"
definition FLAG_XHEADER_CONTENT_RANGE_MORE :: string where
  "FLAG_XHEADER_CONTENT_RANGE_MORE = ''more''"
definition FLAG_XHEADER_CONTENT_SEPERATE_CHAR :: char where
  "FLAG_XHEADER_CONTENT_SEPERATE_CHAR = CHR ''/''"
definition FLAG_XHEADER_CONTENT_BETWEEN_CHAR :: char where
  "FLAG_XHEADER_CONTENT_BETWEEN_CHAR = CHR ''-''"

lemmas range_consts = FLAG_XHEADER_CONTENT_RANGE_LAST_def FLAG_XHEADER_CONTENT_RANGE_MORE_def
  FLAG_XHEADER_CONTENT_SEPERATE_CHAR_def FLAG_XHEADER_CONTENT_BETWEEN_CHAR_def

definition u64_str :: "u64 \<Rightarrow> string" where
  "u64_str w = dec_str (unat w)"

lemma u64_str_facts [simp]:
  "u64_str w \<noteq> []" "CHR ''/'' \<notin> set (u64_str w)" "CHR ''-'' \<notin> set (u64_str w)"
  "scan_lu (u64_str w) = Inr (Some w)" "NUL \<notin> set (u64_str w)" "CHR '':'' \<notin> set (u64_str w)"
  by (simp_all add: u64_str_def)

section \<open>ContentRange\<close>

record content_range =
  cr_start_pos :: u64
  cr_size :: u64
  cr_total_size :: "u64 option"
  cr_is_last :: bool

definition ContentRange_new :: "u64 \<Rightarrow> u64 \<Rightarrow> u64 \<Rightarrow> bool \<Rightarrow> content_range" where
  "ContentRange_new start_pos sz total_size is_last =
     \<lparr>cr_start_pos = start_pos, cr_size = sz, cr_total_size = Some total_size,
      cr_is_last = is_last\<rparr>"

text \<open>\<open>uint64_t end = 0\<close> is overwritten only by a conversion that matches.\<close>

definition ContentRange_of :: "string \<Rightarrow> content_range res" where
  "ContentRange_of str =
     (let rawv = splitstr str FLAG_XHEADER_CONTENT_SEPERATE_CHAR in
      rbind (vec_at rawv 1) (\<lambda>total_text.
      rbind (scan_lu total_text) (\<lambda>total_size.
      rbind (vec_at rawv 2) (\<lambda>flag.
      rbind (vec_at rawv 0) (\<lambda>range_text.
      (let raw_range = splitstr range_text FLAG_XHEADER_CONTENT_BETWEEN_CHAR in
       rbind (vec_at raw_range 0) (\<lambda>start_text.
       rbind (scan_lu start_text) (\<lambda>start_pos.
       rbind (vec_at raw_range 1) (\<lambda>end_text.
       rbind (scan_lu end_text) (\<lambda>end_opt.
       rbind (read_init start_pos) (\<lambda>s.
         (let end_pos = (case end_opt of Some e \<Rightarrow> e | None \<Rightarrow> 0)
          in Inr \<lparr>cr_start_pos = s, cr_size = end_pos - s, cr_total_size = total_size,
                  cr_is_last = (flag = FLAG_XHEADER_CONTENT_RANGE_LAST)\<rparr>))))))))))))"

definition ContentRange_to_string :: "content_range \<Rightarrow> string res" where
  "ContentRange_to_string cr =
     rbind (read_init (cr_total_size cr)) (\<lambda>total.
       Inr (u64_str (cr_start_pos cr) @ ''-'' @ u64_str (cr_start_pos cr + cr_size cr) @ ''/'' @
            u64_str total @ ''/'' @
            (if cr_is_last cr then FLAG_XHEADER_CONTENT_RANGE_LAST
             else FLAG_XHEADER_CONTENT_RANGE_MORE)))"

section \<open>Range\<close>

record range_req =
  rg_start_pos :: "u64 option"
  rg_size :: u64

definition Range_defaultStr :: string where
  "Range_defaultStr = ''0-0/0/last''"

definition Range_new :: "u64 \<Rightarrow> u64 \<Rightarrow> range_req" where
  "Range_new start_pos sz = \<lparr>rg_start_pos = Some start_pos, rg_size = sz\<rparr>"

definition Range_of :: "string \<Rightarrow> range_req res" where
  "Range_of str =
     (let rawv = splitstr str FLAG_XHEADER_CONTENT_BETWEEN_CHAR in
      rbind (vec_at rawv 0) (\<lambda>start_text.
      rbind (scan_lu start_text) (\<lambda>start_pos.
      if length rawv = 1 then Inr \<lparr>rg_start_pos = start_pos, rg_size = 0\<rparr>
      else
        rbind (vec_at rawv 1) (\<lambda>end_text.
        rbind (scan_lu end_text) (\<lambda>end_opt.
        rbind (read_init start_pos) (\<lambda>s.
          (let end_pos = (case end_opt of Some e \<Rightarrow> e | None \<Rightarrow> 0)
           in Inr \<lparr>rg_start_pos = Some s, rg_size = end_pos - s\<rparr>)))))))"

definition Range_to_string :: "range_req \<Rightarrow> string res" where
  "Range_to_string r =
     rbind (read_init (rg_start_pos r)) (\<lambda>s.
       Inr (u64_str s @ ''-'' @ (if rg_size r \<noteq> 0 then u64_str (s + rg_size r) else [])))"

section \<open>Printing and reading back\<close>

text \<open>
  A text form: a printer that may read an indeterminate field, and a reader that may fault. The
  law makes the printed text identify the value.
\<close>

locale text_codec =
  fixes print :: "'a \<Rightarrow> string res" and parse :: "string \<Rightarrow> 'a res"
  assumes parse_print: "print x = Inr s \<Longrightarrow> parse s = Inr x"
begin

lemma print_inject: "print x = Inr s \<Longrightarrow> print y = Inr s \<Longrightarrow> x = y"
  using parse_print [of x s] parse_print [of y s] by simp

lemma parse_then_print_stable:
  "parse s = Inr x \<Longrightarrow> print x = Inr t \<Longrightarrow> parse t = parse s"
  using parse_print by simp

end

lemma splitstr_range:
  "splitstr (u64_str a @ ''-'' @ u64_str b) CHR ''-'' = [u64_str a, u64_str b]"
  by (simp add: splitstr_sep splitstr_last)

lemma splitstr_content_range:
  assumes "CHR ''/'' \<notin> set f" and "f \<noteq> []"
  shows "splitstr (u64_str a @ ''-'' @ u64_str b @ ''/'' @ u64_str t @ ''/'' @ f) CHR ''/'' =
           [u64_str a @ ''-'' @ u64_str b, u64_str t, f]"
  using assms splitstr_sep [of "CHR ''/''" "u64_str a @ ''-'' @ u64_str b"]
  by (simp add: splitstr_sep splitstr_last)

lemma ContentRange_parse_print:
  assumes "ContentRange_to_string cr = Inr s"
  shows "ContentRange_of s = Inr cr"
proof -
  obtain start sz total_opt last where cr: "cr = \<lparr>cr_start_pos = start, cr_size = sz,
      cr_total_size = total_opt, cr_is_last = last\<rparr>" by (cases cr)
  from assms obtain total where t: "total_opt = Some total"
    by (cases total_opt) (auto simp: ContentRange_to_string_def cr)
  let ?f = "if last then ''last'' else ''more''"
  have s: "s = u64_str start @ ''-'' @ u64_str (start + sz) @ ''/'' @ u64_str total @ ''/'' @ ?f"
    using assms by (auto simp: ContentRange_to_string_def cr t range_consts)
  have "splitstr s CHR ''/'' = [u64_str start @ ''-'' @ u64_str (start + sz), u64_str total, ?f]"
    unfolding s by (rule splitstr_content_range) auto
  then show ?thesis
    by (simp add: ContentRange_of_def range_consts vec_at_def splitstr_range [simplified] cr t)
qed

interpretation cr_text: text_codec ContentRange_to_string ContentRange_of
  by unfold_locales (rule ContentRange_parse_print)

lemma Range_parse_print:
  assumes "Range_to_string r = Inr s"
  shows "Range_of s = Inr r"
proof -
  obtain start_opt sz where r: "r = \<lparr>rg_start_pos = start_opt, rg_size = sz\<rparr>" by (cases r)
  from assms obtain start where st: "start_opt = Some start"
    by (cases start_opt) (auto simp: Range_to_string_def r)
  show ?thesis
  proof (cases "sz = 0")
    case True
    then have "s = u64_str start @ ''-''" using assms by (auto simp: Range_to_string_def r st)
    then have "splitstr s CHR ''-'' = [u64_str start]" by (simp add: splitstr_sep_last)
    then show ?thesis using True by (simp add: Range_of_def range_consts vec_at_def r st)
  next
    case False
    then have "s = u64_str start @ ''-'' @ u64_str (start + sz)"
      using assms by (auto simp: Range_to_string_def r st)
    then have "splitstr s CHR ''-'' = [u64_str start, u64_str (start + sz)]"
      by (simp only: splitstr_range)
    then show ?thesis by (simp add: Range_of_def range_consts vec_at_def r st)
  qed
qed

interpretation rg_text: text_codec Range_to_string Range_of
  by unfold_locales (rule Range_parse_print)

text \<open>The texts are values an extension header carries unchanged.\<close>

lemma ContentRange_text_clean:
  assumes "ContentRange_to_string cr = Inr s"
  shows "s \<noteq> [] \<and> NUL \<notin> set s \<and> CHR '':'' \<notin> set s"
  using assms
  by (cases "cr_total_size cr") (auto simp: ContentRange_to_string_def range_consts split: if_splits)

lemma Range_text_clean:
  assumes "Range_to_string r = Inr s"
  shows "s \<noteq> [] \<and> NUL \<notin> set s \<and> CHR '':'' \<notin> set s"
  using assms by (cases "rg_start_pos r") (auto simp: Range_to_string_def)

text \<open>A missing header reads as the empty string, on which both constructors run out of bounds.\<close>

lemma ContentRange_of_Nil: "ContentRange_of [] = Inl OutOfBounds"
  by (simp add: ContentRange_of_def vec_at_def)

lemma Range_of_Nil: "Range_of [] = Inl OutOfBounds"
  by (simp add: Range_of_def vec_at_def)

text \<open>The texts are short.\<close>

lemma length_u64_str: "length (u64_str w) \<le> 20"
proof -
  have "unat w < 2 ^ 64" using unat_less_pow [of w] by simp
  then have "unat w < 10 ^ Suc 19" by simp
  then show ?thesis using length_dec_str unfolding u64_str_def by fastforce
qed

lemma ContentRange_text_length: "ContentRange_to_string cr = Inr s \<Longrightarrow> length s \<le> 67"
  using length_u64_str [of "cr_start_pos cr"] length_u64_str [of "cr_start_pos cr + cr_size cr"]
    length_u64_str [of "the (cr_total_size cr)"]
  by (cases "cr_total_size cr") (auto simp: ContentRange_to_string_def range_consts)

lemma Range_text_length: "Range_to_string r = Inr s \<Longrightarrow> length s \<le> 41"
  using length_u64_str [of "the (rg_start_pos r)"] length_u64_str [of "the (rg_start_pos r) + rg_size r"]
  by (cases "rg_start_pos r") (auto simp: Range_to_string_def)

end
