(* ===== verification/Sync_Rs.thy ===== *)
theory Sync_Rs
  imports Net_Addr Cxx_Vec "HOL-Library.Product_Lexorder"
begin

text \<open>
  One resource being fetched: the classes \<open>Block\<close>, \<open>SyncingRange\<close> and \<open>SyncRs\<close> of
  \<open>modules/block.h\<close> and \<open>modules/rs_sync_mamanger.cpp\<close>, with the parts of the manager's
  operations that act on one entry \<open>uriRs[uri]\<close>.

  The size macros of \<open>constants.h\<close> are not parenthesised: \<open>size / BLOCK_SIZE\<close> is
  \<open>size / 1024 * 1024\<close> and \<open>size / SIZE_50_KByte\<close> is \<open>size / 50 * 1024\<close>. The model writes the
  expansions out.
\<close>

section \<open>Blocks\<close>

record block =
  b_start :: u64
  b_end :: u64

abbreviation Block :: "u64 \<Rightarrow> u64 \<Rightarrow> block" where
  "Block s e \<equiv> \<lparr>b_start = s, b_end = e\<rparr>"

definition block_eq :: "block \<Rightarrow> block \<Rightarrow> bool" where
  "block_eq l r \<longleftrightarrow> b_start l = b_start r \<and> b_end l = b_end r"

lemma block_eq_iff [simp]: "block_eq l r \<longleftrightarrow> l = r"
  by (cases l; cases r) (simp add: block_eq_def)

text \<open>Blocks are ordered by their start, so that the library's \<open>sorted\<close> applies to block lists.\<close>

instantiation block_ext :: (linorder) linorder
begin

definition less_eq_block_ext :: "'a block_scheme \<Rightarrow> 'a block_scheme \<Rightarrow> bool" where
  "less_eq_block_ext x y \<longleftrightarrow>
     (b_start x, b_end x, block.more x) \<le> (b_start y, b_end y, block.more y)"

definition less_block_ext :: "'a block_scheme \<Rightarrow> 'a block_scheme \<Rightarrow> bool" where
  "less_block_ext x y \<longleftrightarrow>
     (b_start x, b_end x, block.more x) < (b_start y, b_end y, block.more y)"

instance
proof
  fix x y z :: "'a block_scheme"
  show "x < y \<longleftrightarrow> x \<le> y \<and> \<not> y \<le> x"
    unfolding less_eq_block_ext_def less_block_ext_def by (rule less_le_not_le)
  show "x \<le> x" unfolding less_eq_block_ext_def by (rule order_refl)
  show "x \<le> z" if "x \<le> y" and "y \<le> z"
    using that unfolding less_eq_block_ext_def by (rule order_trans)
  show "x = y" if "x \<le> y" and "y \<le> x"
    using order_antisym [OF that [unfolded less_eq_block_ext_def]] by (cases x; cases y) simp
  show "x \<le> y \<or> y \<le> x" unfolding less_eq_block_ext_def by (rule linear)
qed

end

section \<open>The block list of a new resource\<close>

definition SIZE_1KByte :: u64 where "SIZE_1KByte = 1024"
definition BLOCK_SIZE :: u64 where "BLOCK_SIZE = 1024 * SIZE_1KByte"
definition DOWNLOAD_LIMIT :: nat where "DOWNLOAD_LIMIT = 5"

lemma BLOCK_SIZE_eq: "BLOCK_SIZE = 1048576"
  by (simp add: BLOCK_SIZE_def SIZE_1KByte_def)

text \<open>\<open>uint num = size / BLOCK_SIZE + 1\<close>, with the macro expanded and cut to 32 bits.\<close>

definition block_num :: "u64 \<Rightarrow> u32" where
  "block_num sz = ucast (sz div 1024 * SIZE_1KByte + 1)"

function block_loop :: "u32 \<Rightarrow> u32 \<Rightarrow> u64 \<Rightarrow> u64 \<Rightarrow> block list" where
  "block_loop num i sz offset =
     (if i < num then
        (let end_pos = min sz (offset + BLOCK_SIZE)
         in Block offset end_pos #
            (if sz \<le> end_pos then [] else block_loop num (i + 1) sz end_pos))
      else [])"
  by pat_completeness auto
termination
proof (relation "measure (\<lambda>(num, i, sz, offset). unat num - unat i)", goal_cases)
  case (2 num i sz offset x)
  then have "unat (i + 1) = unat i + 1" by (simp add: unat_plus_one_less)
  with 2 show ?case by (simp add: word_less_nat_alt)
qed simp

declare block_loop.simps [simp del]

definition initial_blocks :: "u64 \<Rightarrow> block list" where
  "initial_blocks sz =
     (if sz \<le> BLOCK_SIZE then [Block 0 sz] else block_loop (block_num sz) 0 sz 0)"

text \<open>
  \<open>tiles bs a e\<close>: the list covers \<open>[a, e)\<close> without gap or overlap, in order, by blocks of at
  most \<open>BLOCK_SIZE\<close> bytes.
\<close>

fun tiles :: "block list \<Rightarrow> u64 \<Rightarrow> u64 \<Rightarrow> bool" where
  "tiles [] a e \<longleftrightarrow> a = e"
| "tiles (b # bs) a e \<longleftrightarrow>
     b_start b = a \<and> b_start b < b_end b \<and> b_end b - b_start b \<le> BLOCK_SIZE \<and> tiles bs (b_end b) e"

lemma tiles_le: "tiles bs a e \<Longrightarrow> a \<le> e"
  by (induction bs arbitrary: a) force+

lemma tiles_start_ge: "tiles bs a e \<Longrightarrow> b \<in> set bs \<Longrightarrow> a \<le> b_start b \<and> b_start b < b_end b \<and> b_end b \<le> e"
proof (induction bs arbitrary: a)
  case (Cons c bs)
  then show ?case using tiles_le [of bs "b_end c" e] by force
qed simp

lemma tiles_sorted: "tiles bs a e \<Longrightarrow> sorted bs \<and> distinct bs"
proof (induction bs arbitrary: a)
  case (Cons c bs)
  then have "tiles bs (b_end c) e" and c: "b_start c < b_end c" by auto
  then have *: "\<forall>b \<in> set bs. b_start c < b_start b"
    using tiles_start_ge [of bs "b_end c" e] by force
  then have "\<forall>b \<in> set bs. c \<le> b" by (auto simp: less_eq_block_ext_def less_eq_prod_def)
  with * Cons show ?case by auto
qed simp

text \<open>The bytes the blocks of a list name.\<close>

definition covers :: "block list \<Rightarrow> nat set" where
  "covers bs = (\<Union>b \<in> set bs. {unat (b_start b) ..< unat (b_end b)})"

lemma tiles_covers: "tiles bs a e \<Longrightarrow> covers bs = {unat a ..< unat e}"
proof (induction bs arbitrary: a)
  case (Cons c bs)
  then have t: "tiles bs (b_end c) e" and c: "b_start c = a" "a < b_end c" by auto
  have "covers (c # bs) = {unat a ..< unat (b_end c)} \<union> covers bs"
    using c by (simp add: covers_def)
  also have "\<dots> = {unat a ..< unat (b_end c)} \<union> {unat (b_end c) ..< unat e}"
    using Cons.IH [OF t] by simp
  also have "\<dots> = {unat a ..< unat e}"
    using c tiles_le [OF t] by (intro ivl_disj_un_two) (auto simp: word_le_nat_alt word_less_nat_alt)
  finally show ?case .
qed (simp add: covers_def)

lemma unat_offset_BLOCK_SIZE:
  assumes "unat offset < 2 ^ 63"
  shows "unat (offset + BLOCK_SIZE) = unat offset + 1048576"
proof -
  have "offset + BLOCK_SIZE = of_nat (unat offset + 1048576)" by (simp add: BLOCK_SIZE_eq)
  moreover have "unat offset + 1048576 < 2 ^ 64" using assms by simp
  ultimately show ?thesis by (simp only: unat_of_nat_u64)
qed

lemma block_loop_tiles:
  assumes "unat sz < 2 ^ 63" and "offset < sz"
    and "unat sz \<le> unat offset + (unat num - unat i) * 1048576"
  shows "tiles (block_loop num i sz offset) offset sz"
  using assms
proof (induction num i sz offset rule: block_loop.induct)
  case (1 num i sz offset)
  have lt: "unat offset < unat sz" using 1(3) by (simp add: word_less_nat_alt)
  have i: "i < num" using 1(4) lt by (cases "i < num") (auto simp: word_less_nat_alt)
  have nx: "unat (offset + BLOCK_SIZE) = unat offset + 1048576"
    using lt 1(2) by (intro unat_offset_BLOCK_SIZE) simp
  show ?case
  proof (cases "sz \<le> offset + BLOCK_SIZE")
    case True
    then have "sz - offset \<le> BLOCK_SIZE"
      using lt nx by (simp add: word_le_nat_alt unat_sub BLOCK_SIZE_eq)
    with True i 1(3) show ?thesis by (subst block_loop.simps) (simp add: min_def)
  next
    case False
    let ?o = "offset + BLOCK_SIZE"
    have o: "min sz ?o = ?o" and olt: "?o < sz" using False by (auto simp: min_def)
    have off: "offset < ?o" using nx by (simp add: word_less_nat_alt)
    have "unat (i + 1) = unat i + 1" using i by (rule unat_plus_one_less)
    moreover have "unat num - unat i = Suc (unat num - (unat i + 1))"
      using i by (simp add: word_less_nat_alt)
    ultimately have "unat sz \<le> unat ?o + (unat num - unat (i + 1)) * 1048576"
      using 1(4) nx by simp
    then have "tiles (block_loop num (i + 1) sz ?o) ?o sz"
      using 1(1) [OF i refl] 1(2) olt False o by auto
    then show ?thesis using i off False o by (subst block_loop.simps) (simp add: Let_def)
  qed
qed

text \<open>
  Whatever the size, the loop lays its blocks end to end: the 32-bit counter keeps the offset far
  below the point where the addition could wrap.
\<close>

lemma block_loop_prefix:
  assumes "unat offset = unat i * 1048576" and "offset < sz"
  shows "\<exists>e \<le> sz. tiles (block_loop num i sz offset) offset e"
  using assms
proof (induction num i sz offset rule: block_loop.induct)
  case (1 num i sz offset)
  let ?o = "offset + BLOCK_SIZE"
  have "unat i < 2 ^ 32" using unsigned_less [of i] by simp
  then have "unat offset < 2 ^ 63" using 1(2) by simp
  then have nx: "unat ?o = unat offset + 1048576" by (rule unat_offset_BLOCK_SIZE)
  have off: "offset < ?o" using nx by (simp add: word_less_nat_alt)
  consider "\<not> i < num" | "i < num" "sz \<le> ?o" | "i < num" "?o < sz" by fastforce
  then show ?case
  proof cases
    case 1
    then show ?thesis using \<open>offset < sz\<close> by (subst block_loop.simps) (auto intro: exI [of _ offset])
  next
    case 2
    then have "sz - offset \<le> BLOCK_SIZE"
      using nx \<open>offset < sz\<close> by (simp add: word_le_nat_alt word_less_nat_alt unat_sub BLOCK_SIZE_eq)
    with 2 show ?thesis using \<open>offset < sz\<close>
      by (subst block_loop.simps) (auto simp: min_def intro: exI [of _ sz])
  next
    case 3
    then have m: "min sz ?o = ?o" by simp
    have "unat (i + 1) = unat i + 1" using 3(1) by (rule unat_plus_one_less)
    then have "unat ?o = unat (i + 1) * 1048576" using nx 1(2) by simp
    then have "\<exists>e \<le> sz. tiles (block_loop num (i + 1) sz ?o) ?o e"
      using 1(1) [OF 3(1) refl] 3 m by auto
    then show ?thesis using 3 off m by (subst block_loop.simps) (auto simp: Let_def)
  qed
qed

lemma initial_blocks_prefix:
  assumes "0 < sz"
  shows "\<exists>e \<le> sz. tiles (initial_blocks sz) 0 e"
proof (cases "sz \<le> BLOCK_SIZE")
  case True
  then show ?thesis using assms by (auto simp: initial_blocks_def)
next
  case False
  then show ?thesis using assms block_loop_prefix [of 0 0 sz "block_num sz"]
    by (simp add: initial_blocks_def)
qed

lemma initial_blocks_distinct: "distinct (initial_blocks sz)"
proof (cases "sz = 0")
  case False
  then have "0 < sz" by (simp add: word_neq_0_conv)
  then show ?thesis using initial_blocks_prefix tiles_sorted by blast
qed (simp add: initial_blocks_def)

lemma unat_block_num:
  assumes "unat sz < 2 ^ 32"
  shows "unat (block_num sz) = unat sz div 1024 * 1024 + 1"
proof -
  have "unat sz div 1024 < 4194304" using assms by (simp add: less_mult_imp_div_less)
  then have le: "unat sz div 1024 * 1024 + 1 < 2 ^ 32" by simp
  have "sz div 1024 = of_nat (unat sz div 1024)"
    by (rule word_eq_of_nat) (simp add: unat_div)
  then have "sz div 1024 * SIZE_1KByte + 1 = (of_nat (unat sz div 1024 * 1024 + 1) :: u64)"
    by (simp add: SIZE_1KByte_def)
  then have "block_num sz = ucast (of_nat (unat sz div 1024 * 1024 + 1) :: u64)"
    by (simp only: block_num_def)
  also have "\<dots> = of_nat (unat sz div 1024 * 1024 + 1)"
    by (rule ucast_of_nat_less) (use le in simp)
  finally show ?thesis using le by (simp only: unat_of_nat_u32)
qed

theorem initial_blocks_tile:
  assumes "0 < sz" and "unat sz < 2 ^ 32"
  shows "tiles (initial_blocks sz) 0 sz"
proof (cases "sz \<le> BLOCK_SIZE")
  case True
  then show ?thesis using assms(1) by (simp add: initial_blocks_def)
next
  case False
  have "unat sz = unat sz div 1024 * 1024 + unat sz mod 1024" by simp
  also have "\<dots> \<le> (unat sz div 1024 * 1024 + 1) * 1048576"
    by (simp add: add_mult_distrib)
  finally show ?thesis
    using False assms block_loop_tiles [of sz 0 "block_num sz" 0] unat_block_num [OF assms(2)]
    by (simp add: initial_blocks_def)
qed

text \<open>
  From 4 GiB on the 32-bit block count can be smaller than the number of blocks: at exactly
  4 GiB it is 1, and a single block stands for the whole resource.
\<close>

lemma initial_blocks_4GiB: "initial_blocks (2 ^ 32) = [Block 0 BLOCK_SIZE]"
  by (simp add: initial_blocks_def block_num_def block_loop.simps BLOCK_SIZE_eq SIZE_1KByte_def min_def)

text \<open>An empty resource has one block, of no bytes.\<close>

lemma initial_blocks_0 [simp]: "initial_blocks 0 = [Block 0 0]"
  by (simp add: initial_blocks_def)

lemma initial_blocks_small: "sz \<le> BLOCK_SIZE \<Longrightarrow> initial_blocks sz = [Block 0 sz]"
  by (simp add: initial_blocks_def)

section \<open>The entry of a resource\<close>

text \<open>\<open>now\<close> is what \<open>time(&now)\<close> answers.\<close>

record syncing_range =
  sr_peer :: net_addr
  sr_block :: block
  sr_timeOut :: u64

definition SyncingRange_new :: "net_addr \<Rightarrow> block \<Rightarrow> u64 \<Rightarrow> syncing_range" where
  "SyncingRange_new peer blk now =
     (let sz = b_end blk - b_start blk
      in \<lparr>sr_peer = peer, sr_block = blk, sr_timeOut = now + sz div 50 * SIZE_1KByte\<rparr>)"

record sync_rs =
  rs_uri :: string
  rs_size :: "u64 option"
  rs_hash :: string
  rs_block :: "block list"
  rs_owner :: "net_addr cvec"
  rs_syncing :: "syncing_range cvec"
  rs_success :: bool

text \<open>The default constructor leaves the size indeterminate.\<close>

definition SyncRs_default :: sync_rs where
  "SyncRs_default =
     \<lparr>rs_uri = [], rs_size = None, rs_hash = [], rs_block = [], rs_owner = NullVec,
      rs_syncing = NullVec, rs_success = False\<rparr>"

definition SyncRs_new :: "string \<Rightarrow> u64 \<Rightarrow> string \<Rightarrow> net_addr \<Rightarrow> sync_rs" where
  "SyncRs_new uri sz hash owner =
     \<lparr>rs_uri = uri, rs_size = Some sz, rs_hash = hash, rs_block = initial_blocks sz,
      rs_owner = push_back NullVec owner, rs_syncing = NullVec, rs_success = False\<rparr>"

text \<open>The implicit copy assignment \<open>dst = src\<close>.\<close>

definition rs_assign :: "sync_rs \<Rightarrow> sync_rs \<Rightarrow> sync_rs" where
  "rs_assign dst src =
     src\<lparr>rs_owner := vassign (rs_owner dst) (rs_owner src),
         rs_syncing := vassign (rs_syncing dst) (rs_syncing src)\<rparr>"

text \<open>\<open>regReqSyncRsAuto\<close> on an entry: the last free block goes to an owner.\<close>

definition rs_request :: "net_addr \<Rightarrow> u64 \<Rightarrow> sync_rs \<Rightarrow> block \<times> sync_rs" where
  "rs_request peer now rs =
     (if rs_block rs \<noteq> [] \<and> list_ex (\<lambda>o'. addr_eq o' peer) (elems (rs_owner rs)) then
        (let blk = last (rs_block rs) in
         (blk, rs\<lparr>rs_block := butlast (rs_block rs),
                  rs_syncing := push_back (rs_syncing rs) (SyncingRange_new peer blk now)\<rparr>))
      else (Block 0 0, rs))"

text \<open>\<open>unregReqSyncRsByBlock\<close> on an entry: the range goes back to the free blocks.\<close>

definition is_range :: "net_addr \<Rightarrow> block \<Rightarrow> syncing_range \<Rightarrow> bool" where
  "is_range peer b rng \<longleftrightarrow> addr_eq (sr_peer rng) peer \<and> block_eq (sr_block rng) b"

definition rs_unreg_block :: "net_addr \<Rightarrow> block \<Rightarrow> sync_rs \<Rightarrow> sync_rs res" where
  "rs_unreg_block peer b rs =
     rbind (erase_last (is_range peer b) (rs_syncing rs)) (\<lambda>found.
       case found of
         None \<Rightarrow> Inr rs
       | Some (rng, rest) \<Rightarrow>
           Inr (rs\<lparr>rs_block := rs_block rs @ [sr_block rng], rs_syncing := rest\<rparr>))"

text \<open>\<open>unregAllReqSyncRsByPeer\<close> on an entry: every range of the peer, then the peer itself.\<close>

definition rs_unreg_peer :: "net_addr \<Rightarrow> sync_rs \<Rightarrow> sync_rs res" where
  "rs_unreg_peer peer rs =
     rbind (erase_all (\<lambda>rng. addr_eq (sr_peer rng) peer) (rs_syncing rs)) (\<lambda>(gone, rest).
     rbind (erase_all (\<lambda>o'. addr_eq o' peer) (rs_owner rs)) (\<lambda>(_, owners).
       Inr (rs\<lparr>rs_block := rs_block rs @ map sr_block gone, rs_syncing := rest,
               rs_owner := owners\<rparr>)))"

text \<open>
  \<open>syncingRangeDoneAndValid\<close> on an entry: the last matching range is erased; the second
  component says that nothing is left to fetch.
\<close>

definition rs_done :: "net_addr \<Rightarrow> block \<Rightarrow> sync_rs \<Rightarrow> (sync_rs \<times> bool) res" where
  "rs_done peer b rs =
     rbind (erase_last (is_range peer b) (rs_syncing rs)) (\<lambda>found.
       case found of
         None \<Rightarrow> Inr (rs, False)
       | Some (rng, rest) \<Rightarrow>
           (let rs' = rs\<lparr>rs_syncing := rest\<rparr>
            in if rs_block rs' = [] \<and> elems (rs_syncing rs') = []
               then Inr (rs'\<lparr>rs_success := True\<rparr>, True) else Inr (rs', False)))"

section \<open>Conservation of blocks\<close>

text \<open>The blocks an entry still accounts for: the free ones and those being fetched.\<close>

definition parts :: "sync_rs \<Rightarrow> block multiset" where
  "parts rs = mset (rs_block rs) + mset (map sr_block (elems (rs_syncing rs)))"

lemma is_range_iff [simp]: "is_range peer b rng \<longleftrightarrow> sr_peer rng = peer \<and> sr_block rng = b"
  by (simp add: is_range_def)

lemma SyncingRange_new_sel [simp]:
  "sr_peer (SyncingRange_new peer blk now) = peer" "sr_block (SyncingRange_new peer blk now) = blk"
  by (simp_all add: SyncingRange_new_def)

lemma parts_new [simp]: "parts (SyncRs_new uri sz hash owner) = mset (initial_blocks sz)"
  by (simp add: parts_def SyncRs_new_def)

lemma parts_default [simp]: "parts SyncRs_default = {#}"
  by (simp add: parts_def SyncRs_default_def)

lemma parts_assign [simp]: "parts (rs_assign dst src) = parts src"
  by (simp add: parts_def rs_assign_def)

lemma owner_ex_iff [simp]: "list_ex (\<lambda>o'. o' = peer) xs \<longleftrightarrow> peer \<in> set xs"
  by (induction xs) auto

lemma parts_request [simp]: "parts (snd (rs_request peer now rs)) = parts rs"
proof (cases "rs_block rs \<noteq> [] \<and> peer \<in> set (elems (rs_owner rs))")
  case True
  then have "mset (rs_block rs) = add_mset (last (rs_block rs)) (mset (butlast (rs_block rs)))"
    by (metis append_butlast_last_id mset_append mset_single_iff_right add_mset_add_single mset.simps)
  with True show ?thesis by (simp add: rs_request_def parts_def Let_def)
qed (auto simp: rs_request_def)

lemma parts_unreg_block: "rs_unreg_block peer b rs = Inr rs' \<Longrightarrow> parts rs' = parts rs"
  by (auto simp: rs_unreg_block_def rbind_Inr_iff parts_def dest!: erase_last_Some split: option.splits)

lemma parts_unreg_peer:
  assumes "rs_unreg_peer peer rs = Inr rs'"
  shows "parts rs' = parts rs"
proof -
  let ?P = "\<lambda>rng. addr_eq (sr_peer rng) peer"
  obtain xs where xs: "rs_syncing rs = Vec xs"
    using assms by (cases "rs_syncing rs") (auto simp: rs_unreg_peer_def)
  have "image_mset sr_block (mset xs) =
      image_mset sr_block (mset (filter ?P (rev xs))) + image_mset sr_block (mset (filter (\<lambda>x. \<not> ?P x) xs))"
    by (induction xs) auto
  with assms show ?thesis
    by (auto simp: rs_unreg_peer_def xs parts_def rbind_Inr_iff ac_simps)
qed

lemma rs_done_found:
  assumes "erase_last (is_range peer b) (rs_syncing rs) = Inr (Some (rng, rest))"
  shows "rs_done peer b rs =
           Inr (if rs_block rs = [] \<and> elems rest = []
                then (rs\<lparr>rs_syncing := rest, rs_success := True\<rparr>, True)
                else (rs\<lparr>rs_syncing := rest\<rparr>, False))"
  using assms by (simp add: rs_done_def Let_def)

lemma rs_done_cases:
  assumes "rs_done peer b rs = Inr (rs', fin)"
  obtains (unknown) "rs' = rs" "\<not> fin" "erase_last (is_range peer b) (rs_syncing rs) = Inr None"
  | (known) rng rest where
      "erase_last (is_range peer b) (rs_syncing rs) = Inr (Some (rng, rest))"
      "fin \<longleftrightarrow> rs_block rs = [] \<and> elems rest = []"
      "rs' = rs\<lparr>rs_syncing := rest, rs_success := (if fin then True else rs_success rs)\<rparr>"
proof (cases "erase_last (is_range peer b) (rs_syncing rs)")
  case (Inl e)
  with assms show ?thesis by (simp add: rs_done_def)
next
  case (Inr found)
  show ?thesis
  proof (cases found)
    case None
    with Inr assms unknown show ?thesis by (simp add: rs_done_def)
  next
    case (Some e)
    obtain rng rest where e: "e = (rng, rest)" by (cases e)
    show ?thesis
      using assms Inr rs_done_found [of peer b rs rng rest]
      by (intro known [of rng rest]) (auto simp: Some e split: if_splits)
  qed
qed

lemma parts_done:
  assumes "rs_done peer b rs = Inr (rs', fin)"
  shows "fin \<Longrightarrow> parts rs = {#b#} \<and> parts rs' = {#}"
    and "parts rs = add_mset b (parts rs') \<or> rs' = rs"
    and "rs_hash rs' = rs_hash rs"
  using assms by (cases rule: rs_done_cases; force simp: parts_def dest: erase_last_Some)+

end
