(* ===== verification/Ledger.thy ===== *)
theory Ledger
  imports Prelude "HOL-Library.Multiset"
begin

text \<open>
  What a bookkeeping component promises about the work it hands out. Each operation tells its
  \<open>flow\<close>: the parts it put on the books, the parts it took off because they were reported done,
  and the parts it dropped because the work was replaced. The law of the locale \<open>ledger\<close> is that
  nothing else changes the books, and its consequences for a sequence of operations are proved
  once. The synchronisation manager interprets it for every URI.
\<close>

record 'b flow =
  issued :: "'b multiset"
  reported :: "'b multiset"
  dropped :: "'b multiset"

definition no_flow :: "'b flow" where
  "no_flow = \<lparr>issued = {#}, reported = {#}, dropped = {#}\<rparr>"

definition add_flow :: "'b flow \<Rightarrow> 'b flow \<Rightarrow> 'b flow" where
  "add_flow f g = \<lparr>issued = issued f + issued g, reported = reported f + reported g,
                   dropped = dropped f + dropped g\<rparr>"

lemma flow_simps [simp]:
  "issued no_flow = {#}" "reported no_flow = {#}" "dropped no_flow = {#}"
  "issued (add_flow f g) = issued f + issued g"
  "reported (add_flow f g) = reported f + reported g"
  "dropped (add_flow f g) = dropped f + dropped g"
  by (simp_all add: no_flow_def add_flow_def)

fun ledger_run ::
    "('op \<Rightarrow> 'e \<Rightarrow> ('e \<times> 'b flow) res) \<Rightarrow> 'op list \<Rightarrow> 'e \<Rightarrow> ('e \<times> 'b flow) res" where
  "ledger_run step [] e = Inr (e, no_flow)"
| "ledger_run step (x # xs) e =
     rbind (step x e) (\<lambda>(e', f). rbind (ledger_run step xs e') (\<lambda>(e'', g).
       Inr (e'', add_flow f g)))"

lemma ledger_run_append:
  "ledger_run step (xs @ ys) e = rbind (ledger_run step xs e) (\<lambda>(e1, f).
     rbind (ledger_run step ys e1) (\<lambda>(e2, g). Inr (e2, add_flow f g)))"
proof (induction xs arbitrary: e)
  case Nil
  show ?case by (cases "ledger_run step ys e") (auto simp: add_flow_def no_flow_def)
next
  case (Cons x xs)
  show ?case
  proof (cases "step x e")
    case (Inr r)
    obtain e1 f where r: "r = (e1, f)" by (cases r)
    show ?thesis
    proof (cases "ledger_run step xs e1")
      case xs: (Inr r2)
      obtain e2 g where r2: "r2 = (e2, g)" by (cases r2)
      show ?thesis
        by (cases "ledger_run step ys e2")
          (auto simp: Cons.IH Inr r xs r2 add_flow_def ac_simps split: prod.splits)
    qed (simp add: Cons.IH Inr r)
  qed simp
qed

locale ledger =
  fixes step :: "'op \<Rightarrow> 'e \<Rightarrow> ('e \<times> 'b flow) res"
    and books :: "'e \<Rightarrow> 'b multiset" and invar :: "'e \<Rightarrow> bool"
  assumes step_invar: "invar e \<Longrightarrow> step x e = Inr (e', f) \<Longrightarrow> invar e'"
    and step_conserves:
      "invar e \<Longrightarrow> step x e = Inr (e', f) \<Longrightarrow>
       books e + issued f = books e' + reported f + dropped f"
begin

lemma run_cases:
  assumes "ledger_run step (x # xs) e = Inr (e'', h)"
  obtains e' f g where "step x e = Inr (e', f)" and "ledger_run step xs e' = Inr (e'', g)"
    and "h = add_flow f g"
  using assms by (auto simp: rbind_Inr_iff split: prod.splits)

lemma run_invar: "invar e \<Longrightarrow> ledger_run step xs e = Inr (e', f) \<Longrightarrow> invar e'"
proof (induction xs arbitrary: e f)
  case (Cons x xs)
  from Cons.prems(2) show ?case
    by (rule run_cases) (use Cons step_invar in blast)
qed simp

lemma run_conserves:
  "invar e \<Longrightarrow> ledger_run step xs e = Inr (e', f) \<Longrightarrow>
   books e + issued f = books e' + reported f + dropped f"
proof (induction xs arbitrary: e f)
  case (Cons x xs)
  from Cons.prems(2) show ?case
  proof (rule run_cases)
    fix e1 g h
    assume "step x e = Inr (e1, g)" and "ledger_run step xs e1 = Inr (e', h)" and f: "f = add_flow g h"
    then have "books e + issued g = books e1 + reported g + dropped g"
      and "books e1 + issued h = books e' + reported h + dropped h"
      using Cons step_invar step_conserves by blast+
    then show ?case by (simp add: f) (metis (no_types, lifting) add.assoc add.commute)
  qed
qed simp

text \<open>Closed books mean that all work put on them was reported or replaced.\<close>

lemma run_closed:
  assumes "invar e" and "ledger_run step xs e = Inr (e', f)" and "books e' = {#}"
  shows "books e + issued f = reported f + dropped f"
  using run_conserves [OF assms(1,2)] assms(3) by simp

text \<open>A part issued once is on the books at most once.\<close>

lemma run_no_duplicates:
  assumes "invar e" and "ledger_run step xs e = Inr (e', f)"
    and "count (books e + issued f) b \<le> 1"
  shows "count (books e') b \<le> 1"
  using run_conserves [OF assms(1,2)] assms(3) by simp

end

end
