(* ===== verification/Sync_Manager.thy ===== *)
theory Sync_Manager
  imports Sync_Rs Ledger
begin

text \<open>
  \<open>RsSyncManager\<close> of \<open>modules/rs_sync_mamanger.cpp\<close>: the map from a URI to its entry and every
  operation on it. The operations read \<open>uriRs[uri]\<close>, which inserts a default entry (with an
  indeterminate size) for a URI that is not there; the model does the same. \<open>valid_res\<close> stands
  for \<open>RsLocalManager::validRes\<close> on the state of the local manager, which the completion of a
  resource calls.
\<close>

section \<open>State\<close>

record sync_manager =
  uriRs :: "(string, sync_rs) smap"

definition sync_manager_init :: sync_manager where
  "sync_manager_init = \<lparr>uriRs = []\<rparr>"

text \<open>The entry \<open>uriRs[uri]\<close> refers to, and storing it back.\<close>

definition uri_entry :: "string \<Rightarrow> sync_manager \<Rightarrow> sync_rs" where
  "uri_entry uri m = fst (str_index SyncRs_default uri (uriRs m))"

definition set_entry :: "string \<Rightarrow> sync_rs \<Rightarrow> sync_manager \<Rightarrow> sync_manager" where
  "set_entry uri rs m = m\<lparr>uriRs := str_put uri rs (uriRs m)\<rparr>"

text \<open>\<open>uriRs[uri] = rs\<close>.\<close>

definition assign_entry :: "string \<Rightarrow> sync_rs \<Rightarrow> sync_manager \<Rightarrow> sync_manager" where
  "assign_entry uri rs m = set_entry uri (rs_assign (uri_entry uri m) rs) m"

section \<open>Operations\<close>

definition getAllUriRs :: "sync_manager \<Rightarrow> (string, sync_rs) smap" where
  "getAllUriRs m = uriRs m"

definition updateSyncRs ::
    "net_addr \<Rightarrow> string \<Rightarrow> string \<Rightarrow> u64 \<Rightarrow> sync_manager \<Rightarrow> (bool \<times> sync_manager) res" where
  "updateSyncRs peer uri hash sz m =
     (case str_find uri (uriRs m) of
        None \<Rightarrow> Inr (True, assign_entry uri (SyncRs_new uri sz hash peer) m)
      | Some rs \<Rightarrow>
          rbind (read_init (rs_size rs)) (\<lambda>old.
            if old < sz then Inr (True, assign_entry uri (SyncRs_new uri sz hash peer) m)
            else if sz < old then Inr (False, m)
            else if rs_hash rs \<noteq> hash then Inr (False, m)
            else if list_ex (\<lambda>o'. addr_eq o' peer) (elems (rs_owner rs)) then Inr (True, m)
            else Inr (True, set_entry uri (rs\<lparr>rs_owner := push_back (rs_owner rs) peer\<rparr>) m)))"

definition regSyncRs ::
    "net_addr \<Rightarrow> string \<Rightarrow> string \<Rightarrow> u64 \<Rightarrow> sync_manager \<Rightarrow> (bool \<times> sync_manager) res" where
  "regSyncRs peer uri hash sz m =
     (case str_find uri (uriRs m) of
        None \<Rightarrow> Inr (True, assign_entry uri (SyncRs_new uri sz hash peer) m)
      | Some rs \<Rightarrow> updateSyncRs peer uri hash sz m)"

definition regReqSyncRsAuto ::
    "net_addr \<Rightarrow> string \<Rightarrow> u64 \<Rightarrow> sync_manager \<Rightarrow> block \<times> sync_manager" where
  "regReqSyncRsAuto peer uri now m =
     (let (b, rs) = rs_request peer now (uri_entry uri m) in (b, set_entry uri rs m))"

definition unregReqSyncRsByBlock ::
    "net_addr \<Rightarrow> block \<Rightarrow> string \<Rightarrow> sync_manager \<Rightarrow> sync_manager res" where
  "unregReqSyncRsByBlock peer b uri m =
     rbind (rs_unreg_block peer b (uri_entry uri m)) (\<lambda>rs. Inr (set_entry uri rs m))"

definition unregAllReqSyncRsByPeer :: "net_addr \<Rightarrow> string \<Rightarrow> sync_manager \<Rightarrow> sync_manager res" where
  "unregAllReqSyncRsByPeer peer uri m =
     rbind (rs_unreg_peer peer (uri_entry uri m)) (\<lambda>rs. Inr (set_entry uri rs m))"

definition syncingRangeDoneAndValid ::
    "(string \<Rightarrow> string \<Rightarrow> 'l \<Rightarrow> (bool \<times> 'l) res) \<Rightarrow> net_addr \<Rightarrow> string \<Rightarrow> block \<Rightarrow> bool \<Rightarrow>
     'l \<times> sync_manager \<Rightarrow> ('l \<times> sync_manager) res" where
  "syncingRangeDoneAndValid valid_res peer uri blk valid s =
     (case s of (l, m) \<Rightarrow>
        rbind (rs_done peer blk (uri_entry uri m)) (\<lambda>(rs, complete).
          if complete then
            rbind (if valid then valid_res uri (rs_hash rs) l else Inr (True, l)) (\<lambda>(_, l').
              Inr (l', m\<lparr>uriRs := str_erase uri (uriRs (set_entry uri rs m))\<rparr>))
          else Inr (l, set_entry uri rs m)))"

definition syncingRangeDone ::
    "(string \<Rightarrow> string \<Rightarrow> 'l \<Rightarrow> (bool \<times> 'l) res) \<Rightarrow> net_addr \<Rightarrow> string \<Rightarrow> block \<Rightarrow>
     'l \<times> sync_manager \<Rightarrow> ('l \<times> sync_manager) res" where
  "syncingRangeDone valid_res peer uri blk s = syncingRangeDoneAndValid valid_res peer uri blk False s"

definition getOwnerSize :: "string \<Rightarrow> sync_manager \<Rightarrow> u32 \<times> sync_manager" where
  "getOwnerSize uri m =
     (let rs = uri_entry uri m in (of_nat (length (elems (rs_owner rs))), set_entry uri rs m))"

definition getBlockSize :: "string \<Rightarrow> sync_manager \<Rightarrow> u32 \<times> sync_manager" where
  "getBlockSize uri m =
     (let rs = uri_entry uri m in (of_nat (length (rs_block rs)), set_entry uri rs m))"

definition getSyncingSize :: "string \<Rightarrow> sync_manager \<Rightarrow> u32 \<times> sync_manager" where
  "getSyncingSize uri m =
     (let rs = uri_entry uri m in (of_nat (length (elems (rs_syncing rs))), set_entry uri rs m))"

section \<open>The map under the operations\<close>

definition mgr_sorted :: "sync_manager \<Rightarrow> bool" where
  "mgr_sorted m \<longleftrightarrow> sm_sorted str_less (uriRs m)"

lemma mgr_sorted_init [simp]: "mgr_sorted sync_manager_init"
  by (simp add: mgr_sorted_def sync_manager_init_def)

lemma mgr_sorted_set [simp]: "mgr_sorted m \<Longrightarrow> mgr_sorted (set_entry uri rs m)"
  by (simp add: mgr_sorted_def set_entry_def)

lemma uri_entry_eq:
  "uri_entry uri m = (case str_find uri (uriRs m) of Some rs \<Rightarrow> rs | None \<Rightarrow> SyncRs_default)"
  by (simp add: uri_entry_def sm_index_def split: option.splits)

lemma find_set_entry [simp]:
  "str_find u (uriRs (set_entry uri rs m)) = (if u = uri then Some rs else str_find u (uriRs m))"
  by (simp add: set_entry_def)

lemma uri_entry_set [simp]:
  "uri_entry u (set_entry uri rs m) = (if u = uri then rs else uri_entry u m)"
  by (simp add: uri_entry_eq)

lemma find_assign_entry [simp]:
  "str_find u (uriRs (assign_entry uri rs m)) =
     (if u = uri then Some (rs_assign (uri_entry uri m) rs) else str_find u (uriRs m))"
  by (simp add: assign_entry_def)

lemma mgr_sorted_assign [simp]: "mgr_sorted m \<Longrightarrow> mgr_sorted (assign_entry uri rs m)"
  by (simp add: assign_entry_def)

text \<open>The blocks on the books for one URI.\<close>

definition uri_parts :: "string \<Rightarrow> sync_manager \<Rightarrow> block multiset" where
  "uri_parts uri m = parts (uri_entry uri m)"

lemma uri_parts_set [simp]:
  "uri_parts u (set_entry uri rs m) = (if u = uri then parts rs else uri_parts u m)"
  by (simp add: uri_parts_def)

section \<open>The manager keeps the books\<close>

text \<open>
  One operation of the manager, watched from one URI: what it issues, takes as reported, or
  replaces for that URI. The getters are operations too, since they insert default entries.
\<close>

datatype mgr_op =
    Register net_addr string string u64
  | Request net_addr string u64
  | UnregBlock net_addr block string
  | UnregPeer net_addr string
  | RangeDone net_addr string block bool
  | OwnerSize string
  | BlockSize string
  | SyncingSize string

definition replaces :: "string \<Rightarrow> u64 \<Rightarrow> sync_manager \<Rightarrow> bool" where
  "replaces uri sz m \<longleftrightarrow>
     (case str_find uri (uriRs m) of
        None \<Rightarrow> True
      | Some rs \<Rightarrow> (case rs_size rs of None \<Rightarrow> False | Some old \<Rightarrow> old < sz))"

definition range_known :: "net_addr \<Rightarrow> block \<Rightarrow> sync_rs \<Rightarrow> bool" where
  "range_known peer b rs \<longleftrightarrow> list_ex (is_range peer b) (elems (rs_syncing rs))"

fun mgr_step ::
    "(string \<Rightarrow> string \<Rightarrow> 'l \<Rightarrow> (bool \<times> 'l) res) \<Rightarrow> string \<Rightarrow> mgr_op \<Rightarrow> 'l \<times> sync_manager \<Rightarrow>
     (('l \<times> sync_manager) \<times> block flow) res" where
  "mgr_step vr w (Register peer uri hash sz) (l, m) =
     rbind (regSyncRs peer uri hash sz m) (\<lambda>(_, m').
       Inr ((l, m'),
         if uri = w \<and> replaces uri sz m
         then no_flow\<lparr>issued := mset (initial_blocks sz), dropped := uri_parts w m\<rparr>
         else no_flow))"
| "mgr_step vr w (Request peer uri now) (l, m) =
     Inr ((l, snd (regReqSyncRsAuto peer uri now m)), no_flow)"
| "mgr_step vr w (UnregBlock peer b uri) (l, m) =
     rbind (unregReqSyncRsByBlock peer b uri m) (\<lambda>m'. Inr ((l, m'), no_flow))"
| "mgr_step vr w (UnregPeer peer uri) (l, m) =
     rbind (unregAllReqSyncRsByPeer peer uri m) (\<lambda>m'. Inr ((l, m'), no_flow))"
| "mgr_step vr w (RangeDone peer uri b valid) (l, m) =
     rbind (syncingRangeDoneAndValid vr peer uri b valid (l, m)) (\<lambda>s.
       Inr (s, if uri = w \<and> range_known peer b (uri_entry w m)
               then no_flow\<lparr>reported := {#b#}\<rparr> else no_flow))"
| "mgr_step vr w (OwnerSize uri) (l, m) = Inr ((l, snd (getOwnerSize uri m)), no_flow)"
| "mgr_step vr w (BlockSize uri) (l, m) = Inr ((l, snd (getBlockSize uri m)), no_flow)"
| "mgr_step vr w (SyncingSize uri) (l, m) = Inr ((l, snd (getSyncingSize uri m)), no_flow)"

lemma uri_parts_assign [simp]:
  "uri_parts u (assign_entry uri rs m) = (if u = uri then parts rs else uri_parts u m)"
  by (simp add: assign_entry_def)

lemma uri_parts_erase [simp]:
  "mgr_sorted m \<Longrightarrow>
   uri_parts u (m\<lparr>uriRs := str_erase uri (uriRs m)\<rparr>) = (if u = uri then {#} else uri_parts u m)"
  by (simp add: uri_parts_def uri_entry_eq mgr_sorted_def)

lemma mgr_sorted_erase [simp]: "mgr_sorted m \<Longrightarrow> mgr_sorted (m\<lparr>uriRs := str_erase uri (uriRs m)\<rparr>)"
  by (simp add: mgr_sorted_def)

lemma parts_owner [simp]: "parts (rs\<lparr>rs_owner := os\<rparr>) = parts rs"
  by (simp add: parts_def)

lemma updateSyncRs_books:
  assumes "updateSyncRs peer uri hash sz m = Inr (ok, m')" and "mgr_sorted m"
  shows "mgr_sorted m' \<and>
         uri_parts w m' = (if uri = w \<and> replaces uri sz m then mset (initial_blocks sz) else uri_parts w m)"
proof (cases "str_find uri (uriRs m)")
  case None
  with assms show ?thesis by (auto simp: updateSyncRs_def replaces_def)
next
  case (Some rs)
  then have e: "parts rs = uri_parts uri m" by (simp add: uri_parts_def uri_entry_eq)
  from assms Some obtain old where old: "rs_size rs = Some old"
    by (cases "rs_size rs") (auto simp: updateSyncRs_def)
  consider "old < sz" | "sz < old" | "old = sz" by fastforce
  then show ?thesis
    using assms Some old e
    by cases (auto simp: updateSyncRs_def replaces_def split: if_splits)
qed

lemma regSyncRs_eq: "regSyncRs peer uri hash sz m = updateSyncRs peer uri hash sz m"
  by (simp add: regSyncRs_def updateSyncRs_def split: option.splits)

lemma request_books:
  "uri_parts w (snd (regReqSyncRsAuto peer uri now m)) = uri_parts w m"
  "mgr_sorted m \<Longrightarrow> mgr_sorted (snd (regReqSyncRsAuto peer uri now m))"
  using parts_request [of peer now "uri_entry uri m"]
  by (cases "rs_request peer now (uri_entry uri m)"; simp add: regReqSyncRsAuto_def uri_parts_def)+

lemma unreg_block_books:
  "unregReqSyncRsByBlock peer b uri m = Inr m' \<Longrightarrow> mgr_sorted m \<Longrightarrow>
   mgr_sorted m' \<and> uri_parts w m' = uri_parts w m"
  by (auto simp: unregReqSyncRsByBlock_def rbind_Inr_iff uri_parts_def dest: parts_unreg_block)

lemma unreg_peer_books:
  "unregAllReqSyncRsByPeer peer uri m = Inr m' \<Longrightarrow> mgr_sorted m \<Longrightarrow>
   mgr_sorted m' \<and> uri_parts w m' = uri_parts w m"
  by (auto simp: unregAllReqSyncRsByPeer_def rbind_Inr_iff uri_parts_def dest: parts_unreg_peer)

lemma touch_books:
  "mgr_sorted m \<Longrightarrow> mgr_sorted (set_entry uri (uri_entry uri m) m) \<and>
     uri_parts w (set_entry uri (uri_entry uri m) m) = uri_parts w m"
  by (simp add: uri_parts_def)

lemma range_done_books:
  assumes "syncingRangeDoneAndValid vr peer uri b valid (l, m) = Inr (l', m')" and "mgr_sorted m"
  shows "mgr_sorted m' \<and>
         uri_parts w m = uri_parts w m' +
           (if uri = w \<and> range_known peer b (uri_entry w m) then {#b#} else {#})"
proof -
  obtain rs fin where d: "rs_done peer b (uri_entry uri m) = Inr (rs, fin)"
    using assms(1) by (auto simp: syncingRangeDoneAndValid_def rbind_Inr_iff)
  have m': "m' = (if fin then m\<lparr>uriRs := str_erase uri (uriRs (set_entry uri rs m))\<rparr>
                  else set_entry uri rs m)"
    using assms(1) d by (auto simp: syncingRangeDoneAndValid_def rbind_Inr_iff split: if_splits)
  have erase: "m\<lparr>uriRs := str_erase uri (uriRs (set_entry uri rs m))\<rparr> =
               (set_entry uri rs m)\<lparr>uriRs := str_erase uri (uriRs (set_entry uri rs m))\<rparr>"
    by (simp add: set_entry_def)
  have sorted: "mgr_sorted m'" using assms(2) unfolding m' erase by simp
  from d have known: "parts (uri_entry uri m) = parts rs +
      (if range_known peer b (uri_entry uri m) then {#b#} else {#})"
  proof (cases rule: rs_done_cases)
    case unknown
    from erase_last_None [OF unknown(3)] show ?thesis
      by (auto simp: unknown(1) range_known_def list_ex_iff)
  next
    case (known rng rest)
    from erase_last_Some [OF known(1)] known(3) show ?thesis
      by (force simp: range_known_def list_ex_iff parts_def)
  qed
  have "fin \<Longrightarrow> parts rs = {#}" using parts_done(1) [OF d] by simp
  with assms(2) have "uri_parts w m' = (if uri = w then parts rs else uri_parts w m)"
    unfolding m' erase by auto
  with known have "uri_parts w m = uri_parts w m' +
      (if uri = w \<and> range_known peer b (uri_entry w m) then {#b#} else {#})"
    by (auto simp: uri_parts_def)
  with sorted show ?thesis ..
qed

text \<open>A range that is on the books can be reported, and only its URI is touched.\<close>

lemma uri_entry_erase:
  "mgr_sorted m \<Longrightarrow>
   uri_entry u (m\<lparr>uriRs := str_erase uri (uriRs m)\<rparr>) =
     (if u = uri then SyncRs_default else uri_entry u m)"
  by (simp add: uri_entry_eq mgr_sorted_def)

lemma range_done_free:
  assumes "syncingRangeDoneAndValid vr peer uri b valid (l, m) = Inr (l', m')" and "mgr_sorted m"
  shows "rs_block (uri_entry uri m') = rs_block (uri_entry uri m)"
proof -
  obtain rs fin where d: "rs_done peer b (uri_entry uri m) = Inr (rs, fin)"
    using assms(1) by (auto simp: syncingRangeDoneAndValid_def rbind_Inr_iff)
  then have free: "rs_block rs = rs_block (uri_entry uri m)" "fin \<Longrightarrow> rs_block rs = []"
    by (auto elim: rs_done_cases)
  have "m' = (if fin then (set_entry uri rs m)\<lparr>uriRs := str_erase uri (uriRs (set_entry uri rs m))\<rparr>
              else set_entry uri rs m)"
    using assms(1) d by (auto simp: syncingRangeDoneAndValid_def rbind_Inr_iff set_entry_def split: if_splits)
  then show ?thesis
    using free uri_entry_erase [OF mgr_sorted_set [OF assms(2)]] by (auto simp: SyncRs_default_def)
qed

lemma range_done_total:
  assumes "range_known peer b (uri_entry uri m)" and "\<And>hash. \<exists>ok l'. vr uri hash l = Inr (ok, l')"
  shows "\<exists>l' m'. syncingRangeDoneAndValid vr peer uri b valid (l, m) = Inr (l', m')"
proof -
  let ?rs = "uri_entry uri m"
  obtain r where r: "r \<in> set (elems (rs_syncing ?rs))" "is_range peer b r"
    using assms(1) by (auto simp: range_known_def list_ex_iff)
  then have "rs_syncing ?rs \<noteq> NullVec" by auto
  then obtain x where "erase_last (is_range peer b) (rs_syncing ?rs) = Inr (Some x)"
    using erase_last_found [where P = "is_range peer b" and x = r and v = "rs_syncing ?rs"] r by auto
  then obtain e v where "erase_last (is_range peer b) (rs_syncing ?rs) = Inr (Some (e, v))" by (cases x) auto
  from rs_done_found [OF this] obtain rs fin where "rs_done peer b ?rs = Inr (rs, fin)" by (auto split: if_splits)
  moreover obtain ok l' where "vr uri (rs_hash rs) l = Inr (ok, l')" using assms(2) by blast
  ultimately show ?thesis by (simp add: syncingRangeDoneAndValid_def)
qed

lemma range_done_other:
  assumes "syncingRangeDoneAndValid vr peer uri b valid (l, m) = Inr (l', m')" and "mgr_sorted m" and "w \<noteq> uri"
  shows "str_find w (uriRs m') = str_find w (uriRs m)"
proof -
  obtain rs fin where d: "rs_done peer b (uri_entry uri m) = Inr (rs, fin)"
    using assms(1) by (auto simp: syncingRangeDoneAndValid_def rbind_Inr_iff)
  have "sm_sorted str_less (uriRs (set_entry uri rs m))"
    using mgr_sorted_set [OF assms(2)] by (simp add: mgr_sorted_def)
  then show ?thesis
    using assms(1,3) d by (auto simp: syncingRangeDoneAndValid_def rbind_Inr_iff split: if_splits)
qed

lemma mgr_step_books:
  assumes "mgr_sorted m" and "mgr_step vr w x (l, m) = Inr ((l', m'), f)"
  shows "mgr_sorted m' \<and> uri_parts w m + issued f = uri_parts w m' + reported f + dropped f"
proof (cases x)
  case (Register peer uri hash sz)
  then show ?thesis using assms
    by (auto simp: regSyncRs_eq rbind_Inr_iff split: if_splits dest!: updateSyncRs_books)
next
  case (Request peer uri now)
  then show ?thesis using assms request_books by auto
next
  case (UnregBlock peer b uri)
  then show ?thesis using assms unreg_block_books [of peer b uri m m' w]
    by (auto simp: rbind_Inr_iff)
next
  case (UnregPeer peer uri)
  then show ?thesis using assms unreg_peer_books [of peer uri m m' w]
    by (auto simp: rbind_Inr_iff)
next
  case (RangeDone peer uri b valid)
  then obtain ok: "syncingRangeDoneAndValid vr peer uri b valid (l, m) = Inr (l', m')"
    and f: "f = (if uri = w \<and> range_known peer b (uri_entry w m)
                 then no_flow\<lparr>reported := {#b#}\<rparr> else no_flow)"
    using assms(2) by (auto simp: rbind_Inr_iff)
  from range_done_books [OF ok assms(1), of w] show ?thesis
    unfolding f by (auto split: if_splits)
next
  case (OwnerSize uri)
  then show ?thesis using assms touch_books [of m uri w]
    by (auto simp: getOwnerSize_def Let_def simp del: uri_parts_set)
next
  case (BlockSize uri)
  then show ?thesis using assms touch_books [of m uri w]
    by (auto simp: getBlockSize_def Let_def simp del: uri_parts_set)
next
  case (SyncingSize uri)
  then show ?thesis using assms touch_books [of m uri w]
    by (auto simp: getSyncingSize_def Let_def simp del: uri_parts_set)
qed

interpretation mgr: ledger "mgr_step vr w" "\<lambda>(l, m). uri_parts w m" "\<lambda>(l, m). mgr_sorted m"
  for vr :: "string \<Rightarrow> string \<Rightarrow> 'l \<Rightarrow> (bool \<times> 'l) res" and w
proof
  fix e e' :: "'l \<times> sync_manager" and x f
  assume "case e of (l, m) \<Rightarrow> mgr_sorted m" and "mgr_step vr w x e = Inr (e', f)"
  then show "case e' of (l, m) \<Rightarrow> mgr_sorted m"
    and "(case e of (l, m) \<Rightarrow> uri_parts w m) + issued f =
         (case e' of (l, m) \<Rightarrow> uri_parts w m) + reported f + dropped f"
    using mgr_step_books by (cases e; cases e'; fastforce)+
qed

section \<open>The success flag\<close>

text \<open>
  \<open>success\<close> is set just before the entry is erased, under the same lock, so no caller ever reads
  it as true: after the last range of a URI \<open>uriRs[uri]\<close> is a fresh default entry.
\<close>

definition unfinished :: "sync_manager \<Rightarrow> bool" where
  "unfinished m \<longleftrightarrow> (\<forall>uri. \<not> rs_success (uri_entry uri m))"

lemma unfinished_init [simp]: "unfinished sync_manager_init"
  by (simp add: unfinished_def uri_entry_eq sync_manager_init_def SyncRs_default_def)

lemma unfinished_set:
  "unfinished m \<Longrightarrow> unfinished (set_entry uri rs m) \<longleftrightarrow> \<not> rs_success rs"
  by (auto simp: unfinished_def)

lemma range_done_unfinished:
  assumes ok: "syncingRangeDoneAndValid vr peer uri b valid (l, m) = Inr (l', m')"
    and "mgr_sorted m" "unfinished m"
  shows "unfinished m'"
proof -
  obtain rs fin where d: "rs_done peer b (uri_entry uri m) = Inr (rs, fin)"
    using ok by (auto simp: syncingRangeDoneAndValid_def rbind_Inr_iff)
  let ?m = "set_entry uri rs m"
  show ?thesis
  proof (cases fin)
    case True
    with ok d have "m' = ?m\<lparr>uriRs := str_erase uri (uriRs ?m)\<rparr>"
      by (auto simp: syncingRangeDoneAndValid_def rbind_Inr_iff set_entry_def)
    with assms(2,3) show ?thesis
      by (simp add: unfinished_def uri_entry_erase SyncRs_default_def)
  next
    case False
    with d have "rs_success rs = rs_success (uri_entry uri m)"
      by (cases rule: rs_done_cases) auto
    with False ok d assms(3) show ?thesis
      by (auto simp: syncingRangeDoneAndValid_def unfinished_set) (simp add: unfinished_def)
  qed
qed

lemma success_kept:
  "rs_success (SyncRs_new uri sz hash owner) \<longleftrightarrow> False"
  "rs_success (rs_assign dst src) = rs_success src"
  "rs_success (snd (rs_request peer now rs)) = rs_success rs"
  by (simp_all add: SyncRs_new_def rs_assign_def rs_request_def Let_def)

lemma update_unfinished:
  assumes "updateSyncRs peer uri hash sz m = Inr (ok, m')" and "unfinished m"
  shows "unfinished m'"
proof (cases "str_find uri (uriRs m)")
  case None
  with assms show ?thesis
    by (auto simp: updateSyncRs_def assign_entry_def unfinished_set success_kept)
next
  case (Some rs)
  then have "\<not> rs_success rs"
    using assms(2) by (auto simp: unfinished_def uri_entry_eq split: option.splits)
  with assms Some show ?thesis
    by (auto simp: updateSyncRs_def assign_entry_def unfinished_set success_kept rbind_Inr_iff
        split: if_splits)
qed

lemma mgr_step_unfinished:
  assumes "mgr_sorted m" and "unfinished m" and "mgr_step vr w x (l, m) = Inr ((l', m'), f)"
  shows "unfinished m'"
proof -
  have entry: "\<not> rs_success (uri_entry uri m)" for uri using assms(2) by (simp add: unfinished_def)
  show ?thesis
  proof (cases x)
    case (Register peer uri hash sz)
    with assms show ?thesis by (auto simp: regSyncRs_eq rbind_Inr_iff dest: update_unfinished)
  next
    case (Request peer uri now)
    with assms entry show ?thesis
      using success_kept(3) [of peer now "uri_entry uri m"]
      by (auto simp: regReqSyncRsAuto_def unfinished_set split: prod.splits)
  next
    case (UnregBlock peer b uri)
    with assms entry show ?thesis
      by (auto simp: unregReqSyncRsByBlock_def rs_unreg_block_def rbind_Inr_iff unfinished_set
          split: option.splits)
  next
    case (UnregPeer peer uri)
    with assms entry show ?thesis
      by (auto simp: unregAllReqSyncRsByPeer_def rs_unreg_peer_def rbind_Inr_iff unfinished_set)
  next
    case (RangeDone peer uri b valid)
    with assms show ?thesis by (auto simp: rbind_Inr_iff dest: range_done_unfinished)
  qed (use assms entry in \<open>auto simp: getOwnerSize_def getBlockSize_def getSyncingSize_def Let_def
         unfinished_set\<close>)
qed

interpretation open_mgr: ledger "mgr_step vr w" "\<lambda>(l, m). uri_parts w m"
    "\<lambda>(l, m). mgr_sorted m \<and> unfinished m"
  for vr :: "string \<Rightarrow> string \<Rightarrow> 'l \<Rightarrow> (bool \<times> 'l) res" and w
proof
  fix e e' :: "'l \<times> sync_manager" and x f
  assume "case e of (l, m) \<Rightarrow> mgr_sorted m \<and> unfinished m" and "mgr_step vr w x e = Inr (e', f)"
  then show "case e' of (l, m) \<Rightarrow> mgr_sorted m \<and> unfinished m"
    and "(case e of (l, m) \<Rightarrow> uri_parts w m) + issued f =
         (case e' of (l, m) \<Rightarrow> uri_parts w m) + reported f + dropped f"
    using mgr_step_books mgr_step_unfinished by (cases e; cases e'; fastforce)+
qed

lemma success_never_seen:
  assumes "ledger_run (mgr_step vr w) xs (l, sync_manager_init) = Inr ((l', m'), f)"
  shows "\<not> rs_success (uri_entry uri m')"
  using open_mgr.run_invar [OF _ assms] by (simp add: unfinished_def [symmetric])
    (simp add: unfinished_def)

end
