(* ===== verification/Resource_Dto.thy ===== *)
theory Resource_Dto
  imports Prelude
begin

text \<open>
  The table entries two peers exchange: \<open>struct Resource\<close> of \<open>vo/dto/resource.h\<close> and
  \<open>Resource::vecToArr\<close> of \<open>vo/dto/resource.cpp\<close>, which lays a table out as an array of structs,
  and the way a receiver reads the array back (\<open>table[i]\<close> on the data of a packet).

  The struct has four character arrays of 2048 bytes and a 64-bit size, 8200 bytes without
  padding. A string in an array ends at its first NUL; the bytes behind it are never read. Where
  \<open>malloc\<close> leaves them indeterminate the model has NULs.
\<close>

section \<open>The struct\<close>

definition NAME_MAX_SIZE :: nat where "NAME_MAX_SIZE = 2048"
definition SIZEOF_RESOURCE :: nat where "SIZEOF_RESOURCE = 8200"

record resource =
  r_name :: bytes
  r_uri :: bytes
  r_path :: bytes
  r_hash :: bytes
  r_size :: u64

definition res_wf :: "resource \<Rightarrow> bool" where
  "res_wf r \<longleftrightarrow> length (r_name r) = NAME_MAX_SIZE \<and> length (r_uri r) = NAME_MAX_SIZE \<and>
     length (r_path r) = NAME_MAX_SIZE \<and> length (r_hash r) = NAME_MAX_SIZE"

text \<open>A value-initialised struct, as \<open>map<string, Resource>::operator[]\<close> creates it.\<close>

definition Resource_zero :: resource where
  "Resource_zero = \<lparr>r_name = replicate NAME_MAX_SIZE NUL, r_uri = replicate NAME_MAX_SIZE NUL,
     r_path = replicate NAME_MAX_SIZE NUL, r_hash = replicate NAME_MAX_SIZE NUL, r_size = 0\<rparr>"

text \<open>The string in an array, and \<open>strcpy\<close> into one.\<close>

definition arr_str :: "bytes \<Rightarrow> string res" where
  "arr_str a = cstr_at a 0"

definition arr_strcpy :: "string \<Rightarrow> bytes res" where
  "arr_strcpy s =
     (let c = takeWhile (\<lambda>x. x \<noteq> NUL) s
      in if length c < NAME_MAX_SIZE then Inr (c @ replicate (NAME_MAX_SIZE - length c) NUL)
         else Inl OutOfBounds)"

lemma arr_str_pad:
  "NUL \<notin> set s \<Longrightarrow> n \<noteq> 0 \<Longrightarrow> arr_str (s @ replicate n NUL) = Inr s"
  using cstr_at_append [of s "[]" "replicate (n - 1) NUL"]
  by (cases n) (simp_all add: arr_str_def)

lemma arr_strcpy_str:
  assumes "NUL \<notin> set s" and "length s < NAME_MAX_SIZE"
  shows "arr_strcpy s = Inr (s @ replicate (NAME_MAX_SIZE - length s) NUL)"
    and "arr_str (s @ replicate (NAME_MAX_SIZE - length s) NUL) = Inr s"
proof -
  have tw: "takeWhile (\<lambda>x. x \<noteq> NUL) s = s" using assms(1) by (auto simp: takeWhile_eq_all_conv)
  show "arr_strcpy s = Inr (s @ replicate (NAME_MAX_SIZE - length s) NUL)"
    using assms(2) unfolding arr_strcpy_def Let_def tw by simp
  show "arr_str (s @ replicate (NAME_MAX_SIZE - length s) NUL) = Inr s"
    using assms by (intro arr_str_pad) auto
qed

lemma arr_strcpy_length: "arr_strcpy s = Inr a \<Longrightarrow> length a = NAME_MAX_SIZE"
  by (auto simp: arr_strcpy_def Let_def split: if_splits)

lemma arr_str_zero [simp]: "arr_str (replicate NAME_MAX_SIZE NUL) = Inr []"
  using arr_str_pad [of "[]" NAME_MAX_SIZE] by (simp add: NAME_MAX_SIZE_def)

section \<open>The array on the wire\<close>

text \<open>
  \<open>memcpy(&(retp[i].f), s, strlen(s))\<close>: the string of the array goes over the zeroed field. The
  block copied is never longer than the field, since it ends before the array does.
\<close>

definition field_image :: "bytes \<Rightarrow> bytes res" where
  "field_image a = rbind (arr_str a) (\<lambda>s. Inr (s @ replicate (NAME_MAX_SIZE - length s) NUL))"

definition res_image :: "resource \<Rightarrow> bytes res" where
  "res_image r =
     rbind (field_image (r_name r)) (\<lambda>nm. rbind (field_image (r_uri r)) (\<lambda>u.
     rbind (field_image (r_path r)) (\<lambda>p. rbind (field_image (r_hash r)) (\<lambda>h.
       Inr (nm @ u @ p @ h @ le_bytes 8 (r_size r))))))"

text \<open>
  \<open>vecToArr\<close>: the byte count is kept in 32 bits, and struct \<open>i\<close> is written at \<open>8200 * i\<close> of a
  buffer of that many bytes.
\<close>

definition arr_size :: "nat \<Rightarrow> u32" where
  "arr_size n = of_nat n * of_nat SIZEOF_RESOURCE"

definition vecToArr :: "resource list \<Rightarrow> bytes res" where
  "vecToArr rs =
     (let step = (\<lambda>(i, r) mem. rbind (res_image r) (\<lambda>img. store mem (SIZEOF_RESOURCE * i) img))
      in rfold step (enumerate 0 rs) (replicate (unat (arr_size (length rs))) NUL))"

text \<open>\<open>table[i]\<close>: the struct at \<open>8200 * i\<close> of the memory \<open>table\<close> points to.\<close>

definition load_resource :: "bytes \<Rightarrow> nat \<Rightarrow> resource res" where
  "load_resource mem i =
     rbind (slice mem (SIZEOF_RESOURCE * i) SIZEOF_RESOURCE) (\<lambda>b.
       Inr \<lparr>r_name = take 2048 b, r_uri = take 2048 (drop 2048 b), r_path = take 2048 (drop 4096 b),
            r_hash = take 2048 (drop 6144 b), r_size = of_le (take 8 (drop 8192 b))\<rparr>)"

definition load_table :: "bytes \<Rightarrow> nat \<Rightarrow> resource list res" where
  "load_table mem n =
     rfold (\<lambda>i acc. rbind (load_resource mem i) (\<lambda>r. Inr (acc @ [r]))) [0..<n] []"

section \<open>Round trip\<close>

text \<open>An entry as the local manager builds it: NUL-terminated strings, the rest of the arrays zero.\<close>

definition mk_resource :: "string \<Rightarrow> string \<Rightarrow> string \<Rightarrow> string \<Rightarrow> u64 \<Rightarrow> resource" where
  "mk_resource nm u p h sz =
     (let pad = (\<lambda>s. s @ replicate (NAME_MAX_SIZE - length s) NUL)
      in \<lparr>r_name = pad nm, r_uri = pad u, r_path = pad p, r_hash = pad h, r_size = sz\<rparr>)"

definition c_string :: "string \<Rightarrow> bool" where
  "c_string s \<longleftrightarrow> NUL \<notin> set s \<and> length s < NAME_MAX_SIZE"

definition proper :: "resource \<Rightarrow> bool" where
  "proper r \<longleftrightarrow> (\<exists>nm u p h sz. r = mk_resource nm u p h sz \<and>
     c_string nm \<and> c_string u \<and> c_string p \<and> c_string h)"

lemma proper_mk:
  "c_string nm \<Longrightarrow> c_string u \<Longrightarrow> c_string p \<Longrightarrow> c_string h \<Longrightarrow> proper (mk_resource nm u p h sz)"
  unfolding proper_def by blast

lemma mk_resource_str [simp]:
  assumes "c_string nm" and "c_string u" and "c_string p" and "c_string h"
  shows "arr_str (r_name (mk_resource nm u p h sz)) = Inr nm"
    and "arr_str (r_uri (mk_resource nm u p h sz)) = Inr u"
    and "arr_str (r_path (mk_resource nm u p h sz)) = Inr p"
    and "arr_str (r_hash (mk_resource nm u p h sz)) = Inr h"
    and "r_size (mk_resource nm u p h sz) = sz"
  using assms by (simp_all add: mk_resource_def Let_def c_string_def arr_strcpy_str)

definition res_bytes :: "resource \<Rightarrow> bytes" where
  "res_bytes r = r_name r @ r_uri r @ r_path r @ r_hash r @ le_bytes 8 (r_size r)"

lemma proper_wf: "proper r \<Longrightarrow> res_wf r"
  by (auto simp: proper_def res_wf_def mk_resource_def Let_def c_string_def)

lemma length_res_bytes: "res_wf r \<Longrightarrow> length (res_bytes r) = SIZEOF_RESOURCE"
  by (simp add: res_bytes_def res_wf_def NAME_MAX_SIZE_def SIZEOF_RESOURCE_def)

lemma res_image_proper: "proper r \<Longrightarrow> res_image r = Inr (res_bytes r)"
  by (auto simp: proper_def res_image_def field_image_def res_bytes_def)
     (simp add: mk_resource_def Let_def)

lemma load_resource_bytes:
  assumes "res_wf r" and "length pre = SIZEOF_RESOURCE * i"
  shows "load_resource (pre @ res_bytes r @ post) i = Inr r"
proof -
  have "slice (pre @ res_bytes r @ post) (SIZEOF_RESOURCE * i) SIZEOF_RESOURCE = Inr (res_bytes r)"
    using assms by (intro slice_append_middle) (simp_all add: length_res_bytes)
  then show ?thesis
    using assms(1) by (simp add: load_resource_def res_bytes_def res_wf_def NAME_MAX_SIZE_def of_le_le_bytes)
qed

lemma length_concat_res: "\<forall>r \<in> set rs. res_wf r \<Longrightarrow> length (concat (map res_bytes rs)) = SIZEOF_RESOURCE * length rs"
  by (induction rs) (auto simp: length_res_bytes)

lemma vecToArr_fill:
  assumes "\<forall>r \<in> set rs. proper r" and "length pre = SIZEOF_RESOURCE * k"
  shows "rfold (\<lambda>(i, r) mem. rbind (res_image r) (\<lambda>img. store mem (SIZEOF_RESOURCE * i) img))
           (enumerate k rs) (pre @ replicate (SIZEOF_RESOURCE * length rs) NUL) =
         Inr (pre @ concat (map res_bytes rs))"
  using assms
proof (induction rs arbitrary: k pre)
  case (Cons r rs)
  then have r: "proper r" "res_wf r" by (auto simp: proper_wf)
  have "store (pre @ replicate (SIZEOF_RESOURCE * length (r # rs)) NUL) (SIZEOF_RESOURCE * k) (res_bytes r) =
      Inr (pre @ res_bytes r @ replicate (SIZEOF_RESOURCE * length rs) NUL)"
    using store_append_middle [of "SIZEOF_RESOURCE * k" pre "res_bytes r" "replicate SIZEOF_RESOURCE NUL"
        "replicate (SIZEOF_RESOURCE * length rs) NUL"] Cons.prems(2) r
    by (simp add: length_res_bytes replicate_add)
  then show ?case
    using Cons.IH [of "pre @ res_bytes r" "Suc k"] Cons.prems r
    by (simp add: res_image_proper length_res_bytes)
qed simp

lemma arr_size_exact:
  assumes "n * SIZEOF_RESOURCE < 2 ^ 32"
  shows "unat (arr_size n) = n * SIZEOF_RESOURCE"
proof -
  have "arr_size n = of_nat (n * SIZEOF_RESOURCE)" by (simp add: arr_size_def)
  then show ?thesis using assms by (simp only: unat_of_nat_u32)
qed

lemma vecToArr_bytes:
  assumes "\<forall>r \<in> set rs. proper r" and "length rs * SIZEOF_RESOURCE < 2 ^ 32"
  shows "vecToArr rs = Inr (concat (map res_bytes rs))"
  using vecToArr_fill [OF assms(1), of "[]" 0] arr_size_exact [OF assms(2)]
  by (simp add: vecToArr_def Let_def mult.commute)

lemma load_table_step:
  "load_table mem (Suc n) = rbind (load_table mem n) (\<lambda>acc.
     rbind (load_resource mem n) (\<lambda>r. Inr (acc @ [r])))"
  by (simp add: load_table_def rfold_append)

lemma load_table_bytes:
  assumes "\<forall>r \<in> set rs. res_wf r"
  shows "load_table (concat (map res_bytes rs) @ post) (length rs) = Inr rs"
  using assms
proof (induction rs arbitrary: post rule: rev_induct)
  case (snoc r rs)
  have "load_resource (concat (map res_bytes rs) @ res_bytes r @ post) (length rs) = Inr r"
    using snoc.prems by (intro load_resource_bytes) (simp_all add: length_concat_res)
  then show ?case using snoc.IH [of "res_bytes r @ post"] snoc.prems
    by (simp add: load_table_step)
qed (simp add: load_table_def)

lemma sample_proper: "proper (mk_resource ''a'' ''/a'' ''/home/a'' ''00'' 7)"
  unfolding proper_def c_string_def NAME_MAX_SIZE_def
  by (rule exI [of _ "''a''"], rule exI [of _ "''/a''"], rule exI [of _ "''/home/a''"],
      rule exI [of _ "''00''"], rule exI [of _ 7]) simp

text \<open>
  C22: a table survives the exchange: the array \<open>vecToArr\<close> makes of a table whose byte count fits
  32 bits is read back, struct by struct, as the same table, and it has exactly the length the
  receiver divides by the size of a struct.
\<close>

theorem table_roundtrip:
  assumes "\<forall>r \<in> set rs. proper r" and "length rs * SIZEOF_RESOURCE < 2 ^ 32"
  shows "\<exists>mem. vecToArr rs = Inr mem \<and> length mem = unat (arr_size (length rs)) \<and>
     length mem div SIZEOF_RESOURCE = length rs \<and> load_table mem (length mem div SIZEOF_RESOURCE) = Inr rs"
proof -
  have wf: "\<forall>r \<in> set rs. res_wf r" using assms(1) proper_wf by blast
  let ?mem = "concat (map res_bytes rs)"
  have "length ?mem = SIZEOF_RESOURCE * length rs" using wf by (rule length_concat_res)
  moreover have "load_table ?mem (length rs) = Inr rs" using load_table_bytes [OF wf, of "[]"] by simp
  ultimately show ?thesis
    using vecToArr_bytes [OF assms] arr_size_exact [OF assms(2)]
    by (auto simp: SIZEOF_RESOURCE_def)
qed

theorem table_roundtrip_witness:
  "\<exists>mem. vecToArr [mk_resource ''a'' ''/a'' ''/home/a'' ''00'' 7] = Inr mem \<and>
     load_table mem (length mem div SIZEOF_RESOURCE) = Inr [mk_resource ''a'' ''/a'' ''/home/a'' ''00'' 7]"
  using table_roundtrip [of "[mk_resource ''a'' ''/a'' ''/home/a'' ''00'' 7]"] sample_proper
  by (auto simp: SIZEOF_RESOURCE_def)

lemma vecToArr_short:
  assumes "\<forall>r \<in> set rs. proper r" and "length mem < SIZEOF_RESOURCE * (k + length rs)" and "rs \<noteq> []"
  shows "rfold (\<lambda>(i, r) mem. rbind (res_image r) (\<lambda>img. store mem (SIZEOF_RESOURCE * i) img))
           (enumerate k rs) mem = Inl OutOfBounds"
  using assms
proof (induction rs arbitrary: k mem)
  case (Cons r rs)
  then have r: "proper r" "res_wf r" by (auto simp: proper_wf)
  show ?case
  proof (cases "SIZEOF_RESOURCE * k + SIZEOF_RESOURCE \<le> length mem")
    case False
    then show ?thesis using r by (simp add: res_image_proper store_def length_res_bytes)
  next
    case True
    then obtain mem' where s: "store mem (SIZEOF_RESOURCE * k) (res_bytes r) = Inr mem'"
      using r by (simp add: store_def length_res_bytes)
    have "rs \<noteq> []" using True Cons.prems(2) by (cases rs) (simp_all add: algebra_simps)
    then show ?thesis
      using Cons.IH [of mem' "Suc k"] Cons.prems s store_length [OF s] r
      by (simp add: res_image_proper)
  qed
qed simp

text \<open>
  C40: a table whose byte count does not fit 32 bits overruns the buffer: from 523777 entries on the
  count wraps, the buffer is shorter than the structs, and writing them leaves it.
\<close>

theorem vecToArr_overflow:
  assumes "\<forall>r \<in> set rs. proper r" and "2 ^ 32 \<le> length rs * SIZEOF_RESOURCE"
  shows "vecToArr rs = Inl OutOfBounds"
proof -
  have "arr_size (length rs) = of_nat (length rs * SIZEOF_RESOURCE)" by (simp add: arr_size_def)
  then have "unat (arr_size (length rs)) = length rs * SIZEOF_RESOURCE mod 2 ^ 32"
    by (simp only: unat_of_nat len_num1) simp
  also have "\<dots> < 2 ^ 32" by simp
  finally have "unat (arr_size (length rs)) < SIZEOF_RESOURCE * (0 + length rs)"
    using assms(2) by (simp add: mult.commute)
  moreover have "rs \<noteq> []" using assms(2) by auto
  ultimately show ?thesis
    using vecToArr_short [OF assms(1)] by (simp add: vecToArr_def Let_def)
qed

theorem vecToArr_overflow_witness:
  "vecToArr (replicate 523777 (mk_resource ''a'' ''/a'' ''/home/a'' ''00'' 7)) = Inl OutOfBounds"
  using vecToArr_overflow [of "replicate 523777 (mk_resource ''a'' ''/a'' ''/home/a'' ''00'' 7)"] sample_proper
  by (simp add: SIZEOF_RESOURCE_def)

end
