(* ===== verification/Io_Utils.thy ===== *)
theory Io_Utils
  imports Prelude
begin

text \<open>
  \<open>IoUtil\<close> of \<open>utils/io_utils.cpp\<close>: reading a piece of a file in chunks that monitors are told
  of, and writing a piece of a file.

  A file is its content, a file system maps paths to contents. What a call of \<open>read\<close> or \<open>write\<close>
  transfers is up to the kernel, so the routines take functions \<open>rd\<close> and \<open>wr\<close> that answer it: the
  number of the call, the position and the count asked for give the count transferred, or -1. What
  POSIX promises of them is \<open>read_law\<close> and \<open>write_law\<close>. The loops run as long as the code's, so
  they are partial functions: \<open>None\<close> is a loop that never ends.
\<close>

type_synonym file_system = "string \<Rightarrow> bytes option"
type_synonym transfer = "nat \<Rightarrow> nat \<Rightarrow> nat \<Rightarrow> int"

text \<open>A monitor gets the position and the bytes of a chunk; exceptions it throws are only logged.\<close>

type_synonym 's monitor = "u64 \<Rightarrow> bytes \<Rightarrow> 's \<Rightarrow> 's res"

text \<open>\<open>SIZE_1MByte * 2\<close>, expanded.\<close>

definition ONCE_MAX_READ_SIZE :: u64 where "ONCE_MAX_READ_SIZE = 1024 * 1024 * 2"

lemma ONCE_MAX_eq: "ONCE_MAX_READ_SIZE = 2097152"
  by (simp add: ONCE_MAX_READ_SIZE_def)

text \<open>\<open>lseek(fd, offset, SEEK_SET)\<close>: the offset is a signed 64-bit number, negative ones fail.\<close>

definition lseek_set :: "u64 \<Rightarrow> u64" where
  "lseek_set offset = (if unat offset < 2 ^ 63 then offset else - 1)"

section \<open>Reading\<close>

definition read_law :: "transfer \<Rightarrow> bytes \<Rightarrow> bool" where
  "read_law rd content \<longleftrightarrow>
     (\<forall>i p k. p < length content \<longrightarrow> 0 < k \<longrightarrow>
        0 < rd i p k \<and> nat (rd i p k) \<le> min k (length content - p))"

definition call_monitors :: "'s monitor list \<Rightarrow> u64 \<Rightarrow> bytes res \<Rightarrow> 's \<Rightarrow> 's res" where
  "call_monitors mons pos chunk s = rfold (\<lambda>mon s. rbind chunk (\<lambda>c. mon pos c s)) mons s"

partial_function (option) read_loop ::
    "transfer \<Rightarrow> 's monitor list \<Rightarrow> bytes \<Rightarrow> u64 \<Rightarrow> nat \<Rightarrow> u64 \<Rightarrow> bytes \<Rightarrow> u64 \<Rightarrow> u64 \<Rightarrow> 's \<Rightarrow>
     ((bytes \<times> u64) \<times> 's) res option" where
  "read_loop rd mons content end_pos i curpos data data_pos ret_len s =
     (if curpos < end_pos then
        (let expected_read = min ONCE_MAX_READ_SIZE (end_pos - curpos);
             got = rd i (unat curpos) (unat expected_read);
             actual_read = of_int got
         in case store data (unat data_pos) (take (nat got) (drop (unat curpos) content)) of
              Inl e \<Rightarrow> Some (Inl e)
            | Inr data' \<Rightarrow>
                (case call_monitors mons curpos (slice data' (unat data_pos) (unat actual_read)) s of
                   Inl e \<Rightarrow> Some (Inl e)
                 | Inr s' \<Rightarrow>
                     read_loop rd mons content end_pos (i + 1) (curpos + actual_read) data'
                       (data_pos + actual_read) (ret_len + actual_read) s'))
      else Some (Inr ((data, ret_len), s)))"

text \<open>
  The result is the buffer, or none for \<open>nullptr\<close>, and \<open>ret_len\<close>. Memory is taken to suffice for
  the buffer.
\<close>

definition readSize ::
    "file_system \<Rightarrow> transfer \<Rightarrow> 's monitor list \<Rightarrow> string \<Rightarrow> u64 \<Rightarrow> u64 \<Rightarrow> 's \<Rightarrow>
     ((bytes option \<times> u64) \<times> 's) res option" where
  "readSize fs rd mons path offset sz s =
     (case fs path of
        None \<Rightarrow> Some (Inr ((None, 0), s))
      | Some content \<Rightarrow>
          (let curpos = lseek_set offset in
           if curpos \<noteq> offset then Some (Inr ((None, 0), s))
           else
             (let end_pos = min (offset + sz) (of_nat (length content)) in
              case read_loop rd mons content end_pos 0 curpos (replicate (unat sz) NUL) 0 0 s of
                None \<Rightarrow> None
              | Some (Inl e) \<Rightarrow> Some (Inl e)
              | Some (Inr ((data, ret_len), s')) \<Rightarrow> Some (Inr ((Some data, ret_len), s')))))"

text \<open>
  \<open>readSize\<close> sees the files the program may open for reading; \<open>file_size\<close>, which \<open>readAll\<close> asks
  first, needs no such permission and throws for a path that is not there.
\<close>

definition opened :: "(string \<Rightarrow> bool) \<Rightarrow> file_system \<Rightarrow> file_system" where
  "opened can_read fs = (\<lambda>p. if can_read p then fs p else None)"

definition readAll :: "(string \<Rightarrow> bool) \<Rightarrow> file_system \<Rightarrow> transfer \<Rightarrow> 's monitor list \<Rightarrow> string \<Rightarrow> 's \<Rightarrow>
     ((bytes option \<times> u64) \<times> 's) res option" where
  "readAll can_read fs rd mons path s =
     (case fs path of
        None \<Rightarrow> Some (Inl Uncaught)
      | Some content \<Rightarrow> readSize (opened can_read fs) rd mons path 0 (of_nat (length content)) s)"

text \<open>What the monitors are told when the chunks \<open>cs\<close> arrive one after the other.\<close>

fun feed :: "'s monitor list \<Rightarrow> u64 \<Rightarrow> bytes list \<Rightarrow> 's \<Rightarrow> 's res" where
  "feed mons pos [] s = Inr s"
| "feed mons pos (c # cs) s =
     rbind (call_monitors mons pos (Inr c) s) (feed mons (pos + of_nat (length c)) cs)"

lemma read_loop_done: "\<not> curpos < end_pos \<Longrightarrow>
  read_loop rd mons content end_pos i curpos data data_pos ret_len s = Some (Inr ((data, ret_len), s))"
  by (subst read_loop.simps) simp

lemma read_loop_step:
  assumes "curpos < end_pos" and "rd i (unat curpos) (unat (min ONCE_MAX_READ_SIZE (end_pos - curpos))) = int n"
    and "c = take n (drop (unat curpos) content)" and "length c = n" and "n < 2 ^ 64"
    and "data = pre @ replicate (n + k) NUL" and "length pre = unat data_pos"
  shows "read_loop rd mons content end_pos i curpos data data_pos ret_len s =
    (case call_monitors mons curpos (Inr c) s of
       Inl e \<Rightarrow> Some (Inl e)
     | Inr s' \<Rightarrow> read_loop rd mons content end_pos (i + 1) (curpos + of_nat n) (pre @ c @ replicate k NUL)
         (data_pos + of_nat n) (ret_len + of_nat n) s')"
proof -
  have st: "store data (unat data_pos) c = Inr (pre @ c @ replicate k NUL)"
    using assms(4,6,7) store_append_middle [of "unat data_pos" pre c "replicate n NUL" "replicate k NUL"]
    by (simp add: replicate_add)
  have sl: "slice (pre @ c @ replicate k NUL) (unat data_pos) n = Inr c"
    using assms(4,7) by (intro slice_append_middle) simp_all
  have "unat (of_nat n :: u64) = n" using assms(5) by (simp only: unat_of_nat_u64)
  then show ?thesis
    using st sl unfolding assms(3) [symmetric]
    by (subst read_loop.simps)
      (simp only: assms(1) if_True Let_def assms(2) of_int_of_nat_eq nat_int sum.case flip: assms(3))
qed

lemma unat_u64_add:
  assumes "unat a + n < 2 ^ 64"
  shows "unat (a + of_nat n :: u64) = unat a + n"
proof -
  have "a + of_nat n = of_nat (unat a + n)" by simp
  then show ?thesis using assms by (simp only: unat_of_nat_u64)
qed

text \<open>The first piece a read that is not finished gets.\<close>

lemma read_piece:
  assumes "read_law rd content" and "unat curpos + m = unat end_pos" and "unat end_pos \<le> length content" and "m \<noteq> 0"
  obtains n where "curpos < end_pos" and "0 < n" and "n \<le> m" and "n \<le> 2097152"
    and "n \<le> unat (min ONCE_MAX_READ_SIZE (end_pos - curpos))"
    and "rd i (unat curpos) (unat (min ONCE_MAX_READ_SIZE (end_pos - curpos))) = int n"
proof -
  let ?k = "unat (min ONCE_MAX_READ_SIZE (end_pos - curpos))"
  have lt: "curpos < end_pos" using assms(2,4) by (simp add: word_less_nat_alt)
  then have rem: "unat (end_pos - curpos) = m"
    using assms(2) by (simp add: unat_sub word_le_nat_alt word_less_nat_alt)
  have k: "?k \<le> m" "?k \<le> 2097152" "0 < ?k"
    using rem assms(4) by (auto simp: min_def ONCE_MAX_eq word_le_nat_alt)
  define n where "n = nat (rd i (unat curpos) ?k)"
  have "unat curpos < length content" using assms(2-4) by simp
  then have "0 < rd i (unat curpos) ?k \<and> nat (rd i (unat curpos) ?k) \<le> min ?k (length content - unat curpos)"
    using assms(1) k(3) unfolding read_law_def by blast
  then have "0 < n" "n \<le> ?k" "rd i (unat curpos) ?k = int n" by (auto simp: n_def)
  with lt k that show ?thesis by (meson le_trans)
qed

text \<open>One round of the loop while there is something left: a piece of \<open>n\<close> bytes, and on behind it.\<close>

lemma read_loop_go:
  assumes "read_law rd content" and "unat curpos + m = unat end_pos" and "unat end_pos \<le> length content"
    and "data = pre @ replicate (m + k) NUL" and "length pre = unat data_pos"
    and "unat data_pos + m < 2 ^ 64" and "m \<noteq> 0"
  obtains n where "0 < n" and "n \<le> m" and "n \<le> 2097152"
    and "unat (curpos + of_nat n) = unat curpos + n" and "unat (data_pos + of_nat n) = unat data_pos + n"
    and "length (take n (drop (unat curpos) content)) = n"
    and "\<And>s. read_loop rd mons content end_pos i curpos data data_pos ret_len s =
      (case call_monitors mons curpos (Inr (take n (drop (unat curpos) content))) s of
         Inl e \<Rightarrow> Some (Inl e)
       | Inr s' \<Rightarrow> read_loop rd mons content end_pos (i + 1) (curpos + of_nat n)
           ((pre @ take n (drop (unat curpos) content)) @ replicate (m - n + k) NUL)
           (data_pos + of_nat n) (ret_len + of_nat n) s')"
proof -
  obtain n where lt: "curpos < end_pos" and n: "0 < n" and nm: "n \<le> m" and small: "n \<le> 2097152"
    and nk: "n \<le> unat (min ONCE_MAX_READ_SIZE (end_pos - curpos))"
    and rdn: "rd i (unat curpos) (unat (min ONCE_MAX_READ_SIZE (end_pos - curpos))) = int n"
    using read_piece [OF assms(1-3,7), of i] by blast
  let ?c = "take n (drop (unat curpos) content)"
  have lc: "length ?c = n" using nm assms(2,3) by simp
  have n64: "n < 2 ^ 64" using small by simp
  have step: "read_loop rd mons content end_pos i curpos data data_pos ret_len s =
    (case call_monitors mons curpos (Inr ?c) s of
       Inl e \<Rightarrow> Some (Inl e)
     | Inr s' \<Rightarrow> read_loop rd mons content end_pos (i + 1) (curpos + of_nat n)
         ((pre @ ?c) @ replicate (m - n + k) NUL) (data_pos + of_nat n) (ret_len + of_nat n) s')" for s
    using assms(4,5) nm unfolding append_assoc
    by (intro read_loop_step [where rd = rd, OF lt rdn refl lc n64]) (simp_all add: add.assoc [symmetric])
  have "unat end_pos < 2 ^ 64" using unsigned_less [of end_pos] by simp
  then have "unat (curpos + of_nat n) = unat curpos + n"
    using assms(2) nm by (intro unat_u64_add) simp
  moreover have "unat (data_pos + of_nat n) = unat data_pos + n"
    using assms(6) nm by (intro unat_u64_add) simp
  ultimately show thesis using that n nm small lc step by blast
qed

lemma read_loop_law:
  assumes "read_law rd content" and "unat curpos + m = unat end_pos" and "unat end_pos \<le> length content"
    and "data = pre @ replicate (m + k) NUL" and "length pre = unat data_pos"
    and "unat data_pos + m < 2 ^ 64"
  shows "\<exists>cs. concat cs = take m (drop (unat curpos) content) \<and>
     (\<forall>c \<in> set cs. c \<noteq> [] \<and> length c \<le> 2097152) \<and>
     read_loop rd mons content end_pos i curpos data data_pos ret_len s =
       Some (rbind (feed mons curpos cs s)
         (\<lambda>s'. Inr ((pre @ concat cs @ replicate k NUL, ret_len + of_nat m), s')))"
  using assms(2-6)
proof (induction m arbitrary: i curpos data pre data_pos ret_len s rule: less_induct)
  case (less m)
  show ?case
  proof (cases "m = 0")
    case True
    then have "\<not> curpos < end_pos" using less.prems(1) by (simp add: word_less_nat_alt)
    then show ?thesis using True less.prems(3) by (intro exI [of _ "[]"]) (simp add: read_loop_done)
  next
    case False
    from read_loop_go [OF assms(1) less.prems False, where mons = mons and i = i and ret_len = ret_len] obtain n
      where n: "0 < n" "n \<le> m" "n \<le> 2097152" and cn: "unat (curpos + of_nat n) = unat curpos + n"
        "unat (data_pos + of_nat n) = unat data_pos + n" and lc: "length (take n (drop (unat curpos) content)) = n"
        and step: "\<And>s. read_loop rd mons content end_pos i curpos data data_pos ret_len s =
          (case call_monitors mons curpos (Inr (take n (drop (unat curpos) content))) s of
             Inl e \<Rightarrow> Some (Inl e)
           | Inr s' \<Rightarrow> read_loop rd mons content end_pos (i + 1) (curpos + of_nat n)
               ((pre @ take n (drop (unat curpos) content)) @ replicate (m - n + k) NUL)
               (data_pos + of_nat n) (ret_len + of_nat n) s')" by blast
    let ?c = "take n (drop (unat curpos) content)"
    define s' where "s' = (case call_monitors mons curpos (Inr ?c) s of Inl e \<Rightarrow> s | Inr s' \<Rightarrow> s')"
    obtain cs where cs: "concat cs = take (m - n) (drop (unat curpos + n) content)"
      "\<forall>c \<in> set cs. c \<noteq> [] \<and> length c \<le> 2097152"
      "read_loop rd mons content end_pos (i + 1) (curpos + of_nat n)
          ((pre @ ?c) @ replicate (m - n + k) NUL) (data_pos + of_nat n) (ret_len + of_nat n) s' =
        Some (rbind (feed mons (curpos + of_nat n) cs s')
          (\<lambda>s'. Inr (((pre @ ?c) @ concat cs @ replicate k NUL, ret_len + of_nat n + of_nat (m - n)), s')))"
      using less.IH [of "m - n" "curpos + of_nat n" "(pre @ ?c) @ replicate (m - n + k) NUL" "pre @ ?c"
          "data_pos + of_nat n" "i + 1" "ret_len + of_nat n" s'] n less.prems lc
      unfolding cn by (simp only: length_append) auto
    have "concat (?c # cs) = take m (drop (unat curpos) content)"
      using n(2) take_add [of n "m - n" "drop (unat curpos) content"] by (simp add: cs(1) add.commute)
    moreover have "ret_len + of_nat n + of_nat (m - n) = ret_len + (of_nat m :: u64)"
      using n(2) by (simp add: add.assoc flip: of_nat_add)
    then have "read_loop rd mons content end_pos i curpos data data_pos ret_len s =
        Some (rbind (feed mons curpos (?c # cs) s)
          (\<lambda>s'. Inr ((pre @ concat (?c # cs) @ replicate k NUL, ret_len + of_nat m), s')))"
      using cs(3) lc unfolding step s'_def by (auto simp: add.assoc split: sum.splits)
    moreover have "\<forall>c \<in> set (?c # cs). c \<noteq> [] \<and> length c \<le> 2097152"
      using cs(2) lc n by auto
    ultimately show ?thesis by blast
  qed
qed

section \<open>Writing\<close>

text \<open>A kernel without an error writes something of what it is asked to, as POSIX has it for regular files.\<close>

definition write_law :: "transfer \<Rightarrow> bool" where
  "write_law wr \<longleftrightarrow> (\<forall>i p k. 0 \<le> wr i p k \<and> nat (wr i p k) \<le> k \<and> (0 < k \<longrightarrow> 0 < wr i p k))"

text \<open>The content after \<open>bs\<close> are written at a position; a gap before it reads as zeros.\<close>

definition splice :: "bytes \<Rightarrow> nat \<Rightarrow> bytes \<Rightarrow> bytes" where
  "splice content p bs =
     take p (content @ replicate (p - length content) NUL) @ bs @ drop (p + length bs) content"

definition file_content :: "file_system \<Rightarrow> string \<Rightarrow> bytes" where
  "file_content fs path = (case fs path of None \<Rightarrow> [] | Some c \<Rightarrow> c)"

text \<open>
  One call \<open>write(fd, data, expected)\<close>: always from the start of \<open>data\<close>, at the file position.
  The model keeps the file position apart from the variable \<open>curpos\<close>, which \<open>lseek\<close> and the sums
  can leave elsewhere.
\<close>

definition write_once ::
    "transfer \<Rightarrow> nat \<Rightarrow> bytes \<Rightarrow> u64 \<Rightarrow> bytes \<times> nat \<Rightarrow> (u64 \<times> bytes \<times> nat) res" where
  "write_once wr i data expected f =
     (case f of (content, fpos) \<Rightarrow>
        (let got = wr i fpos (unat expected)
         in rbind (slice data 0 (nat got)) (\<lambda>bs.
              Inr (of_int got, (if bs = [] then content else splice content fpos bs), fpos + nat got))))"

partial_function (option) write_loop ::
    "transfer \<Rightarrow> bytes \<Rightarrow> u64 \<Rightarrow> nat \<Rightarrow> u64 \<Rightarrow> u64 \<Rightarrow> bytes \<times> nat \<Rightarrow> (u64 \<times> bytes) res option" where
  "write_loop wr data end_pos i curpos ret_len f =
     (if curpos < end_pos then
        (case write_once wr i data (min ONCE_MAX_READ_SIZE (end_pos - curpos)) f of
           Inl e \<Rightarrow> Some (Inl e)
         | Inr (actual_write, f') \<Rightarrow>
             write_loop wr data end_pos (i + 1) (curpos + actual_write) (ret_len + actual_write) f')
      else Some (Inr (ret_len, fst f)))"

text \<open>
  \<open>can_open\<close> says whether the path can be opened or created. The result is \<open>ret_len\<close> with the
  file system afterwards.
\<close>

definition writeFile ::
    "(string \<Rightarrow> bool) \<Rightarrow> transfer \<Rightarrow> string \<Rightarrow> u64 \<Rightarrow> bytes \<Rightarrow> u64 \<Rightarrow> file_system \<Rightarrow>
     (u64 \<times> file_system) res option" where
  "writeFile can_open wr path offset data sz fs =
     (if \<not> can_open path then Some (Inr (0, fs))
      else
        (let content = (case fs path of None \<Rightarrow> [] | Some c \<Rightarrow> c);
             curpos = lseek_set offset;
             fpos = (if curpos = offset \<and> unat offset < 2 ^ 63 then unat offset else 0);
             end_pos = offset + sz
         in case write_once wr 0 data (min ONCE_MAX_READ_SIZE sz) (content, fpos) of
              Inl e \<Rightarrow> Some (Inl e)
            | Inr (actual_write, f) \<Rightarrow>
                (case write_loop wr data end_pos 1 (curpos + actual_write) actual_write f of
                   None \<Rightarrow> None
                 | Some (Inl e) \<Rightarrow> Some (Inl e)
                 | Some (Inr (ret_len, content')) \<Rightarrow>
                     Some (Inr (ret_len, fs(path := Some content'))))))"

text \<open>
  \<open>filesystem::create_directories\<close> makes the directory and every ancestor that is missing: the
  prefixes of the path that end before a slash.
\<close>

definition ancestors :: "string \<Rightarrow> string set" where
  "ancestors p = insert p ((\<lambda>n. take n p) ` set (filter (\<lambda>n. 0 < n \<and> p ! n = CHR ''/'') [0..<length p]))"

text \<open>\<open>mkdirs\<close>: whether the directories were created, and that they exist afterwards.\<close>

definition mkdirs :: "string \<Rightarrow> string set \<Rightarrow> bool \<times> string set" where
  "mkdirs path dirs = (if path \<in> dirs then (False, dirs) else (True, dirs \<union> ancestors path))"

section \<open>Properties\<close>

text \<open>A kernel that transfers everything it is asked for, as Linux does for regular files.\<close>

definition full_read :: "bytes \<Rightarrow> transfer" where
  "full_read content i p k = int (min k (length content - p))"

definition full_write :: transfer where
  "full_write i p k = int k"

lemma full_read_law: "read_law (full_read content) content"
  by (auto simp: read_law_def full_read_def)

lemma unat_read_end:
  assumes "unat offset + unat sz < 2 ^ 64" and "n < 2 ^ 64"
  shows "unat (min (offset + sz) (of_nat n) :: u64) = min (unat offset + unat sz) n"
proof -
  have "offset + sz = of_nat (unat offset + unat sz)" by simp
  with assms have "unat (offset + sz) = unat offset + unat sz" "unat (of_nat n :: u64) = n"
    by (simp_all only: unat_of_nat_u64)
  then show ?thesis by (auto simp: min_def word_le_nat_alt)
qed

lemma readSize_chunks:
  assumes "read_law rd content" and "fs path = Some content"
    and "unat offset + unat sz < 2 ^ 63" and "length content < 2 ^ 63"
    and "part = take (unat sz) (drop (unat offset) content)"
  shows "\<exists>cs. concat cs = part \<and> (\<forall>c \<in> set cs. c \<noteq> [] \<and> length c \<le> 2097152) \<and>
     readSize fs rd mons path offset sz s =
       Some (rbind (feed mons offset cs s) (\<lambda>s'.
         Inr ((Some (part @ replicate (unat sz - length part) NUL), of_nat (length part)), s')))"
proof -
  let ?e = "min (offset + sz) (of_nat (length content)) :: u64"
  have e: "unat ?e = min (unat offset + unat sz) (length content)"
    using assms(3,4) by (intro unat_read_end) simp_all
  have pos: "lseek_set offset = offset" using assms(3) by (simp add: lseek_set_def)
  have "\<exists>cs. concat cs = part \<and> (\<forall>c \<in> set cs. c \<noteq> [] \<and> length c \<le> 2097152) \<and>
     read_loop rd mons content ?e 0 offset (replicate (unat sz) NUL) 0 0 s =
       Some (rbind (feed mons offset cs s) (\<lambda>s'.
         Inr ((part @ replicate (unat sz - length part) NUL, of_nat (length part)), s')))"
  proof (cases "unat offset \<le> length content")
    case True
    let ?m = "length part"
    have m: "unat offset + ?m = unat ?e" using True by (simp add: e assms(5))
    have le: "?m \<le> unat sz" by (simp add: assms(5))
    have "take ?m (drop (unat offset) content) = part" by (simp add: assms(5) min_def)
    moreover have "unat ?e \<le> length content" "length [] = unat (0 :: u64)" "unat (0 :: u64) + ?m < 2 ^ 64"
      "replicate (unat sz) NUL = [] @ replicate (?m + (unat sz - ?m)) NUL"
      using le e assms(3) by simp_all
    ultimately show ?thesis
      using read_loop_law [where rd = rd, OF assms(1) m, of "replicate (unat sz) NUL" "[]" "unat sz - ?m" 0 mons 0 0 s]
      by (elim meta_impE) (simp_all, metis)
  next
    case False
    then have "\<not> offset < ?e" by (simp add: word_less_nat_alt e)
    then show ?thesis using False assms(5)
      by (intro exI [of _ "[]"]) (simp add: read_loop_done)
  qed
  then obtain cs where "concat cs = part" "\<forall>c \<in> set cs. c \<noteq> [] \<and> length c \<le> 2097152"
    and loop: "read_loop rd mons content ?e 0 offset (replicate (unat sz) NUL) 0 0 s =
       Some (rbind (feed mons offset cs s) (\<lambda>s'.
         Inr ((part @ replicate (unat sz - length part) NUL, of_nat (length part)), s')))"
    by blast
  moreover have "readSize fs rd mons path offset sz s =
       Some (rbind (feed mons offset cs s) (\<lambda>s'.
         Inr ((Some (part @ replicate (unat sz - length part) NUL), of_nat (length part)), s')))"
    using assms(2) pos loop
    by (cases "feed mons offset cs s") (simp_all add: readSize_def Let_def)
  ultimately show ?thesis by blast
qed

text \<open>
  C19: reading a piece of a file returns. Whatever counts the kernel transfers, as long as it makes
  progress, the loop ends; the monitors are told, in order and at the right positions, of chunks
  of 1 byte to 2 MiB that make up exactly the bytes of the file in the range, and the buffer holds
  these bytes and zeros behind them.
\<close>

theorem readSize_returns:
  assumes "read_law rd content" and "fs path = Some content"
    and "unat offset + unat sz < 2 ^ 63" and "length content < 2 ^ 63"
  shows "\<exists>cs. concat cs = take (unat sz) (drop (unat offset) content) \<and>
     (\<forall>c \<in> set cs. c \<noteq> [] \<and> length c \<le> 2097152) \<and>
     readSize fs rd mons path offset sz s =
       Some (rbind (feed mons offset cs s) (\<lambda>s'.
         Inr ((Some (concat cs @ replicate (unat sz - length (concat cs)) NUL),
               of_nat (length (concat cs))), s')))"
  using readSize_chunks [where fs = fs and path = path, OF assms refl] by metis

theorem readSize_returns_witness:
  "\<exists>cs. concat cs = ''bc'' \<and>
     readSize (\<lambda>_. Some ''abcd'') (full_read ''abcd'') [] ''/f'' 1 2 () =
       Some (rbind (feed [] 1 cs ()) (\<lambda>s'. Inr ((Some ''bc'', 2), s')))"
proof -
  have "unat (1 :: u64) + unat (2 :: u64) < 2 ^ 63" "length ''abcd'' < (2 :: nat) ^ 63" by simp_all
  from readSize_returns [where fs = "\<lambda>_. Some ''abcd''" and path = "''/f''" and mons = "[]" and s = "()",
      OF full_read_law refl this]
  obtain cs where cs: "concat cs = take (unat (2 :: u64)) (drop (unat (1 :: u64)) ''abcd'')"
    and "readSize (\<lambda>_. Some ''abcd'') (full_read ''abcd'') [] ''/f'' 1 2 () = Some (rbind (feed [] 1 cs ())
      (\<lambda>s'. Inr ((Some (concat cs @ replicate (unat (2 :: u64) - length (concat cs)) NUL),
         of_nat (length (concat cs))), s')))"
    by blast
  moreover have "concat cs = ''bc''" using cs by simp
  ultimately show ?thesis by auto
qed

text \<open>With full reads a range of at most 2 MiB is one chunk.\<close>

lemma readSize_one_chunk:
  assumes "fs path = Some content" and "unat offset + unat sz \<le> length content"
    and "0 < sz" and "sz \<le> ONCE_MAX_READ_SIZE" and "length content < 2 ^ 63"
    and "part = take (unat sz) (drop (unat offset) content)"
  shows "readSize fs (full_read content) mons path offset sz s =
    Some (rbind (call_monitors mons offset (Inr part) s) (\<lambda>s'. Inr ((Some part, sz), s')))"
proof -
  let ?e = "min (offset + sz) (of_nat (length content)) :: u64"
  have "offset + sz = of_nat (unat offset + unat sz)" by simp
  moreover have "unat offset + unat sz < 2 ^ 64" "length content < 2 ^ 64" using assms(2,5) by simp_all
  ultimately have sum: "unat (offset + sz) = unat offset + unat sz"
    and len: "unat (of_nat (length content) :: u64) = length content"
    by (simp_all only: unat_of_nat_u64)
  then have e: "?e = offset + sz" using assms(2) by (simp add: min_def word_le_nat_alt)
  have lt: "offset < offset + sz" using assms(3) sum by (simp add: word_less_nat_alt)
  have pos: "lseek_set offset = offset" using assms(2,5) by (simp add: lseek_set_def)
  have lp: "length part = unat sz" using assms(2,6) by simp
  have rd: "full_read content 0 (unat offset) (unat (min ONCE_MAX_READ_SIZE (offset + sz - offset))) =
      int (unat sz)"
    using assms(2,4) by (simp add: full_read_def min_absorb2 min_absorb1)
  have "unat sz < 2 ^ 64" using unsigned_less [of sz] by simp
  note step = read_loop_step [where rd = "full_read content", OF lt rd assms(6) lp this, of "replicate (unat sz) NUL" "[]" 0 0 mons 0 s]
  have "read_loop (full_read content) mons content (offset + sz) 0 offset (replicate (unat sz) NUL) 0 0 s =
      (case call_monitors mons offset (Inr part) s of Inl e \<Rightarrow> Some (Inl e)
       | Inr s' \<Rightarrow> Some (Inr ((part, sz), s')))"
    by (subst step) (simp_all add: read_loop_done split: sum.splits)
  then show ?thesis
    using assms(1) pos e by (cases "call_monitors mons offset (Inr part) s") (simp_all add: readSize_def Let_def)
qed

lemma length_splice: "length (splice content p bs) = max (length content) (p + length bs)"
  by (auto simp: splice_def max_def)

lemma take_drop_splice: "take (length bs) (drop p (splice content p bs)) = bs"
  by (simp add: splice_def)

text \<open>The file after a write: nothing but the written range changes.\<close>

lemma splice_shape:
  shows "take p (splice old p bs) = take p (old @ replicate (p - length old) NUL)"
    and "drop (p + length bs) (splice old p bs) = drop (p + length bs) old"
  by (simp_all add: splice_def)

lemma writeFile_full:
  assumes "can_open path" and "unat offset + unat sz < 2 ^ 63" and "sz \<le> ONCE_MAX_READ_SIZE"
    and "unat sz \<le> length data"
  shows "writeFile can_open full_write path offset data sz fs =
    Some (Inr (sz, fs(path := Some (let content = (case fs path of None \<Rightarrow> [] | Some c \<Rightarrow> c) in
      if sz = 0 then content else splice content (unat offset) (take (unat sz) data)))))"
proof -
  have pos: "lseek_set offset = offset" "unat offset < 2 ^ 63"
    using assms(2) by (simp_all add: lseek_set_def)
  have one: "write_once full_write 0 data sz (content, unat offset) =
      Inr (sz, (if sz = 0 then content else splice content (unat offset) (take (unat sz) data)), unat offset + unat sz)" for content
    using assms(4) by (auto simp: write_once_def full_write_def Let_def slice_def unat_eq_0)
  have fin: "write_loop full_write data (offset + sz) 1 (offset + sz) sz f = Some (Inr (sz, fst f))" for f
    by (subst write_loop.simps) simp
  have mn: "min ONCE_MAX_READ_SIZE sz = sz" using assms(3) by simp
  show ?thesis using assms(1) pos(2) fin
    by (simp add: writeFile_def Let_def mn pos(1) one split: option.splits)
qed

text \<open>One call of \<open>write\<close> under the law: a prefix of the data at the file position.\<close>

lemma write_once_law:
  assumes "write_law wr" and "unat expected \<le> length data" and "unat expected \<noteq> 0"
  obtains k where "0 < k" and "k \<le> unat expected"
    and "write_once wr i data expected (content, fpos) = Inr (of_nat k, splice content fpos (take k data), fpos + k)"
proof -
  define k where "k = nat (wr i fpos (unat expected))"
  have law: "0 < wr i fpos (unat expected)" "k \<le> unat expected"
    using assms(1,3) unfolding write_law_def k_def by auto
  then have k: "wr i fpos (unat expected) = int k" "0 < k" by (simp_all add: k_def)
  moreover have "take k data \<noteq> []" using k(2) law(2) assms(2) by auto
  ultimately show thesis using law(2) assms(2)
    by (intro that [of k]) (simp_all add: write_once_def Let_def slice_def)
qed

text \<open>Pieces written one behind the other are one piece.\<close>

lemma splice_splice:
  "splice (splice content p a) (p + length a) b = splice content p (a @ b)"
proof -
  have "min (length content) p + (p - length content) = p" by simp
  then show ?thesis by (simp add: splice_def ac_simps)
qed

lemma splice_Nil: "p \<le> length content \<Longrightarrow> splice content p [] = content"
  by (simp add: splice_def)

text \<open>What the calls of the loop have written: a prefix of the data for each of them.\<close>

definition pieces :: "bytes \<Rightarrow> nat list \<Rightarrow> bytes" where
  "pieces data ks = concat (map (\<lambda>k. take k data) ks)"

lemma pieces_simps [simp]: "pieces data [] = []" "pieces data (k # ks) = take k data @ pieces data ks"
  by (simp_all add: pieces_def)

lemma length_pieces: "\<forall>k \<in> set ks. k \<le> length data \<Longrightarrow> length (pieces data ks) = sum_list ks"
  by (induction ks) simp_all

definition chunk_sizes :: "nat list \<Rightarrow> nat \<Rightarrow> bool" where
  "chunk_sizes ks n \<longleftrightarrow> sum_list ks = n \<and> (\<forall>k \<in> set ks. 0 < k \<and> k \<le> 2097152)"

lemma chunk_sizes_Cons: "0 < k \<Longrightarrow> k \<le> 2097152 \<Longrightarrow> k \<le> n \<Longrightarrow> chunk_sizes ks (n - k) \<Longrightarrow> chunk_sizes (k # ks) n"
  by (simp add: chunk_sizes_def)

lemma chunk_sizes_le: "chunk_sizes ks n \<Longrightarrow> k \<in> set ks \<Longrightarrow> k \<le> n"
  by (auto simp: chunk_sizes_def member_le_sum_list)

lemma write_expected:
  assumes "unat cur + m = unat end_pos" and "m \<noteq> 0"
  shows "cur < end_pos" and "unat (min ONCE_MAX_READ_SIZE (end_pos - cur)) = min 2097152 m"
proof -
  show lt: "cur < end_pos" using assms by (simp add: word_less_nat_alt)
  then have "unat (end_pos - cur) = m" using assms(1) by (simp add: unat_sub word_le_nat_alt word_less_nat_alt)
  then show "unat (min ONCE_MAX_READ_SIZE (end_pos - cur)) = min 2097152 m"
    by (auto simp: min_def ONCE_MAX_eq word_le_nat_alt)
qed

text \<open>The loop ends under every kernel that makes progress.\<close>

lemma write_loop_law:
  assumes "write_law wr" and "unat cur + m = unat end_pos" and "m \<le> length data"
  shows "\<exists>ks. chunk_sizes ks m \<and> write_loop wr data end_pos i cur ret_len (content, fpos) =
    Some (Inr (ret_len + of_nat m, if m = 0 then content else splice content fpos (pieces data ks)))"
  using assms(2,3)
proof (induction m arbitrary: i cur ret_len content fpos rule: less_induct)
  case (less m)
  show ?case
  proof (cases "m = 0")
    case True
    then have "\<not> cur < end_pos" using less.prems(1) by (simp add: word_less_nat_alt)
    then show ?thesis using True
      by (intro exI [of _ "[]"]) (subst write_loop.simps, simp add: chunk_sizes_def)
  next
    case False
    note e = write_expected [OF less.prems(1) False]
    have "unat (min ONCE_MAX_READ_SIZE (end_pos - cur)) \<le> length data" "unat (min ONCE_MAX_READ_SIZE (end_pos - cur)) \<noteq> 0"
      using e(2) less.prems(2) False by simp_all
    from write_once_law [OF assms(1) this, of i content fpos] obtain k
      where k: "0 < k" "k \<le> min 2097152 m"
        and one: "write_once wr i data (min ONCE_MAX_READ_SIZE (end_pos - cur)) (content, fpos) =
          Inr (of_nat k, splice content fpos (take k data), fpos + k)"
      unfolding e(2) by blast
    have "unat end_pos < 2 ^ 64" using unsigned_less [of end_pos] by simp
    then have cur: "unat (cur + of_nat k) = unat cur + k"
      using less.prems(1) k(2) by (intro unat_u64_add) simp
    have "unat (cur + of_nat k) + (m - k) = unat end_pos" "m - k < m" "m - k \<le> length data"
      using k less.prems by (simp_all add: cur)
    from less.IH [OF this(2,1,3), of "i + 1" "ret_len + of_nat k" "splice content fpos (take k data)" "fpos + k"]
    obtain ks where ks: "chunk_sizes ks (m - k)"
      and rest: "write_loop wr data end_pos (i + 1) (cur + of_nat k) (ret_len + of_nat k)
          (splice content fpos (take k data), fpos + k) =
        Some (Inr (ret_len + of_nat k + of_nat (m - k), if m - k = 0 then splice content fpos (take k data)
          else splice (splice content fpos (take k data)) (fpos + k) (pieces data ks)))" by blast
    have len: "length (take k data) = k" using k(2) less.prems(2) by simp
    have "m - k = 0 \<Longrightarrow> ks = []" using ks by (cases ks) (auto simp: chunk_sizes_def)
    then have "(if m - k = 0 then splice content fpos (take k data)
        else splice (splice content fpos (take k data)) (fpos + k) (pieces data ks)) =
        splice content fpos (pieces data (k # ks))"
      using splice_splice [of content fpos "take k data" "pieces data ks"] len by auto
    moreover have "ret_len + of_nat k + of_nat (m - k) = ret_len + (of_nat m :: u64)"
      using k(2) by (simp add: add.assoc flip: of_nat_add)
    ultimately have "write_loop wr data end_pos i cur ret_len (content, fpos) =
        Some (Inr (ret_len + of_nat m, splice content fpos (pieces data (k # ks))))"
      using rest by (subst write_loop.simps) (simp add: e(1) one)
    moreover have "chunk_sizes (k # ks) m" using k ks by (intro chunk_sizes_Cons) simp_all
    ultimately show ?thesis using False by auto
  qed
qed

text \<open>The first call and the loop together.\<close>

lemma writeFile_pieces:
  assumes "write_law wr" and "can_open path" and "unat offset + unat sz < 2 ^ 63" and "unat sz \<le> length data" and "0 < sz"
  shows "\<exists>k ks. chunk_sizes (k # ks) (unat sz) \<and> int k = wr 0 (unat offset) (min 2097152 (unat sz)) \<and>
    writeFile can_open wr path offset data sz fs =
      Some (Inr (sz, fs(path := Some (splice (file_content fs path) (unat offset) (pieces data (k # ks))))))"
proof -
  let ?old = "file_content fs path" and ?e = "min ONCE_MAX_READ_SIZE sz"
  have pos: "lseek_set offset = offset" "unat offset < 2 ^ 63"
    using assms(3) by (simp_all add: lseek_set_def)
  have sz: "unat sz \<noteq> 0" using assms(5) by (simp add: word_less_nat_alt)
  have e: "unat ?e = min 2097152 (unat sz)" by (auto simp: min_def ONCE_MAX_eq word_le_nat_alt)
  have small: "unat ?e \<le> length data" "unat ?e \<noteq> 0" using assms(4) sz by (simp_all add: e)
  have fin: "unat (offset + sz) = unat offset + unat sz" using unat_u64_add [of offset "unat sz"] assms(3) by simp
  obtain k
    where k: "0 < k" "k \<le> min 2097152 (unat sz)"
      and one: "write_once wr 0 data ?e (?old, unat offset) =
        Inr (of_nat k, splice ?old (unat offset) (take k data), unat offset + k)"
    using write_once_law [OF assms(1) small, of 0 ?old "unat offset"] unfolding e by blast
  have u: "unat (of_nat k :: u64) = k" using k(2) by (intro unat_of_nat_u64) simp
  have got: "int k = wr 0 (unat offset) (min 2097152 (unat sz))"
  proof -
    have "0 \<le> wr 0 (unat offset) (min 2097152 (unat sz))" using assms(1) by (simp add: write_law_def)
    moreover have "nat (wr 0 (unat offset) (min 2097152 (unat sz))) = k"
      using one by (auto simp: write_once_def Let_def rbind_Inr_iff e)
    ultimately show ?thesis by simp
  qed
  have cur: "unat (offset + of_nat k) = unat offset + k" using k(2) assms(3) by (intro unat_u64_add) simp
  have "unat (offset + of_nat k) + (unat sz - k) = unat (offset + sz)" "unat sz - k \<le> length data"
    using k(2) assms(4) fin by (simp_all add: cur)
  from write_loop_law [OF assms(1) this, of 1 "of_nat k" "splice ?old (unat offset) (take k data)" "unat offset + k"]
  obtain ks where ks: "chunk_sizes ks (unat sz - k)"
    and rest: "write_loop wr data (offset + sz) 1 (offset + of_nat k) (of_nat k)
        (splice ?old (unat offset) (take k data), unat offset + k) =
      Some (Inr (of_nat k + of_nat (unat sz - k), if unat sz - k = 0 then splice ?old (unat offset) (take k data)
        else splice (splice ?old (unat offset) (take k data)) (unat offset + k) (pieces data ks)))" by blast
  have len: "length (take k data) = k" using k(2) assms(4) by simp
  have "unat sz - k = 0 \<Longrightarrow> ks = []" using ks by (cases ks) (auto simp: chunk_sizes_def)
  then have whole: "(if unat sz - k = 0 then splice ?old (unat offset) (take k data)
      else splice (splice ?old (unat offset) (take k data)) (unat offset + k) (pieces data ks)) =
      splice ?old (unat offset) (pieces data (k # ks))"
    using splice_splice [of ?old "unat offset" "take k data" "pieces data ks"] len by auto
  have "of_nat k + of_nat (unat sz - k) = sz" using k(2) by (simp flip: of_nat_add)
  then have "writeFile can_open wr path offset data sz fs =
      Some (Inr (sz, fs(path := Some (splice ?old (unat offset) (pieces data (k # ks))))))"
    using assms(2) pos rest one unfolding whole
    by (simp add: writeFile_def Let_def file_content_def)
  moreover have "chunk_sizes (k # ks) (unat sz)" using k ks by (intro chunk_sizes_Cons) simp_all
  ultimately show ?thesis using got by blast
qed


text \<open>A kernel that takes one byte at a time stores the first byte over and over.\<close>

definition one_byte :: transfer where
  "one_byte i p k = int (min 1 k)"

lemma sample_write_laws: "write_law full_write" "write_law one_byte"
  by (simp_all add: write_law_def full_write_def one_byte_def)


text \<open>
  A larger piece is stored wrongly: the second call writes the start of the data again, so of
  2 MiB and \<open>n\<close> more bytes the file gets the first 2 MiB followed by the first \<open>n\<close> bytes.
\<close>

theorem writeFile_repeats_start:
  assumes "can_open path" and "length data = 2097152 + n" and "0 < n" and "n \<le> 2097152"
    and "fs path = None"
  shows "writeFile can_open full_write path 0 data (of_nat (2097152 + n)) fs =
    Some (Inr (of_nat (2097152 + n), fs(path := Some (take 2097152 data @ take n data))))"
proof -
  define z :: u64 where "z = of_nat (2097152 + n)"
  have sz: "unat z = 2097152 + n" using assms(4) unfolding z_def by (intro unat_of_nat_u64) simp
  have n: "unat (of_nat n :: u64) = n" using assms(4) by (intro unat_of_nat_u64) simp
  have sum: "ONCE_MAX_READ_SIZE + of_nat n = z" by (simp add: ONCE_MAX_eq z_def)
  have mn: "min ONCE_MAX_READ_SIZE z = ONCE_MAX_READ_SIZE"
    using sz by (simp add: ONCE_MAX_eq min_def word_le_nat_alt)
  have lt: "ONCE_MAX_READ_SIZE < z" using sz assms(3) by (simp add: ONCE_MAX_eq word_less_nat_alt)
  have "z - ONCE_MAX_READ_SIZE = of_nat n" using sum by (simp flip: sum)
  then have rem: "min ONCE_MAX_READ_SIZE (z - ONCE_MAX_READ_SIZE) = of_nat n"
    using n assms(4) by (simp add: ONCE_MAX_eq min_def word_le_nat_alt)
  have ne: "take k data \<noteq> []" if "0 < k" for k using assms(2) that by auto
  have one: "write_once full_write 0 data ONCE_MAX_READ_SIZE ([], 0) =
      Inr (ONCE_MAX_READ_SIZE, take 2097152 data, 2097152)"
    using assms(2) ne [of 2097152]
    by (simp add: write_once_def full_write_def Let_def slice_def ONCE_MAX_eq splice_def)
  have two: "write_once full_write i data (of_nat n) (take 2097152 data, 2097152) =
      Inr (of_nat n, take 2097152 data @ take n data, 2097152 + n)" for i
    using assms(2) ne [OF assms(3)] n
    by (simp add: write_once_def full_write_def Let_def slice_def splice_def)
  have "write_loop full_write data z 1 ONCE_MAX_READ_SIZE ONCE_MAX_READ_SIZE (take 2097152 data, 2097152) =
      write_loop full_write data z (1 + 1) z z (take 2097152 data @ take n data, 2097152 + n)"
    by (subst write_loop.simps) (simp add: lt rem two sum)
  also have "\<dots> = Some (Inr (z, take 2097152 data @ take n data))"
    by (subst write_loop.simps) simp
  finally show ?thesis using assms(1,5) unfolding z_def [symmetric]
    by (simp add: writeFile_def Let_def lseek_set_def mn one)
qed

theorem writeFile_repeats_start_witness:
  "\<exists>data. length data = 2097152 + 1 \<and> writeFile (\<lambda>_. True) full_write ''/f'' 0 data (of_nat (2097152 + 1)) (\<lambda>_. None) =
    Some (Inr (of_nat (2097152 + 1), (\<lambda>_. None)(''/f'' := Some (take 2097152 data @ take 1 data))))"
proof -
  obtain data :: bytes where d: "length data = 2097152 + 1" using Ex_list_of_length by blast
  have "(0 :: nat) < 1" "(1 :: nat) \<le> 2097152" by simp_all
  from writeFile_repeats_start [where can_open = "\<lambda>_. True" and path = "''/f''" and fs = "\<lambda>_. None",
      OF TrueI d this refl] d
  show ?thesis by blast
qed

end
