(* ===== verification/Local_Manager.thy ===== *)
theory Local_Manager
  imports Std_Map Cxx_Text Lan_Packet Resource_Dto Io_Utils
begin

text \<open>
  \<open>RsLocalManager\<close> of \<open>modules/rs_local_manager.cpp\<close>: the index of the files below the resource
  home, its comparison with the table of a peer, and storing received bytes. The digest comes
  from OpenSSL, which is a parameter \<open>sha3\<close>; the code around it (\<open>utils/openssl_utils.cpp\<close>: the
  empty name, reading the file, the hexadecimal text) is modelled.

  The file tree at the moment of a scan is a \<open>fnode\<close>, its entries in the order the directory
  iterator yields them. A pointer of the index is \<open>None\<close> when null.
\<close>

section \<open>File trees and paths\<close>

datatype fnode = RegFile bytes | Directory "(string \<times> fnode) list" | OtherNode

text \<open>\<open>filesystem::absolute\<close>, the path of a directory entry, \<open>filename()\<close> and \<open>parent_path()\<close>.\<close>

definition absolute :: "string \<Rightarrow> string \<Rightarrow> string" where
  "absolute cwd p = (if take 1 p = ''/'' then p else cwd @ ''/'' @ p)"

definition path_join :: "string \<Rightarrow> string \<Rightarrow> string" where
  "path_join p nm = (if p = [] \<or> last p = CHR ''/'' then p @ nm else p @ ''/'' @ nm)"

definition filename :: "string \<Rightarrow> string" where
  "filename p = rev (takeWhile (\<lambda>c. c \<noteq> CHR ''/'') (rev p))"

definition parent_path :: "string \<Rightarrow> string" where
  "parent_path p = rev (tl (dropWhile (\<lambda>c. c \<noteq> CHR ''/'') (rev p)))"

section \<open>The digest\<close>

definition hex_digit :: "nat \<Rightarrow> char" where
  "hex_digit d = (if d < 10 then char_of (48 + d) else char_of (87 + d))"

definition hex_byte :: "char \<Rightarrow> string" where
  "hex_byte c = [hex_digit (of_char c div 16), hex_digit (of_char c mod 16)]"

definition hexdump :: "bytes \<Rightarrow> string" where
  "hexdump bs = concat (map hex_byte bs)"

text \<open>
  What hashing takes from outside: the digest itself, which files may be opened for reading, and what
  the calls of \<open>read\<close> on a file with a content transfer.
\<close>

record digester =
  dg_sha3 :: "bytes \<Rightarrow> bytes"
  dg_open :: "string \<Rightarrow> bool"
  dg_read :: "string \<Rightarrow> bytes \<Rightarrow> transfer"

text \<open>
  \<open>mdEncodeWithSHA3_512\<close>: the file is read with \<open>readAll\<close>, and the digest is of the bytes it
  counted; a file that cannot be opened counts none.
\<close>

definition mdEncodeWithSHA3_512 :: "digester \<Rightarrow> file_system \<Rightarrow> string \<Rightarrow> string res option" where
  "mdEncodeWithSHA3_512 dg fs f =
     (if f = [] then Some (Inr [])
      else
        (case readAll (dg_open dg) fs (dg_read dg f (file_content fs f)) [] f () of
           None \<Rightarrow> None
         | Some (Inl e) \<Rightarrow> Some (Inl e)
         | Some (Inr ((data, ret_len), _)) \<Rightarrow>
             (case data of
                None \<Rightarrow> Some (Inr (hexdump (dg_sha3 dg [])))
              | Some d \<Rightarrow> Some (rbind (slice d 0 (unat ret_len)) (\<lambda>bs. Inr (hexdump (dg_sha3 dg bs)))))))"

text \<open>
  SHA3-512 answers 64 bytes, as OpenSSL documents, and \<open>read\<close> makes progress, as POSIX has it for
  regular files.
\<close>

definition digest_law :: "digester \<Rightarrow> bool" where
  "digest_law dg \<longleftrightarrow> (\<forall>bs. length (dg_sha3 dg bs) = 64) \<and> (\<forall>p c. read_law (dg_read dg p c) c)"

text \<open>The digest in hexadecimal of a file; of one that cannot be opened, that of no bytes.\<close>

definition digest_of :: "digester \<Rightarrow> string \<Rightarrow> bytes \<Rightarrow> string" where
  "digest_of dg p c = hexdump (dg_sha3 dg (if dg_open dg p then c else []))"

lemma mdEncode_content:
  assumes "digest_law dg" and "fs f = Some content" and "f \<noteq> []" and "length content < 2 ^ 63"
  shows "mdEncodeWithSHA3_512 dg fs f = Some (Inr (digest_of dg f content))"
proof (cases "dg_open dg f")
  case True
  let ?n = "of_nat (length content) :: u64" and ?fs = "opened (dg_open dg) fs" and ?rd = "dg_read dg f content"
  have n: "unat ?n = length content" using assms(4) by (intro unat_of_nat_u64) simp
  have fd: "feed [] pos cs () = Inr ()" for pos cs
    by (induction cs arbitrary: pos) (simp_all add: call_monitors_def)
  have "unat (0 :: u64) + unat ?n < 2 ^ 63" using n assms(4) by simp
  moreover have "?fs f = Some content" "read_law ?rd content"
    using assms(1,2) True by (simp_all add: opened_def digest_law_def)
  ultimately have "readSize ?fs ?rd [] f 0 ?n () = Some (Inr ((Some content, ?n), ()))"
    using readSize_chunks [where fs = ?fs and path = f and mons = "[]" and s = "()" and offset = 0 and sz = ?n and rd = ?rd,
        OF _ _ _ assms(4) refl] by (auto simp: fd n)
  then show ?thesis
    using assms(2,3) n True by (simp add: mdEncodeWithSHA3_512_def readAll_def slice_def file_content_def digest_of_def)
next
  case False
  then show ?thesis
    using assms(2,3) by (simp add: mdEncodeWithSHA3_512_def readAll_def readSize_def opened_def digest_of_def)
qed

section \<open>The index\<close>

type_synonym rs_table = "(string, resource option) smap"

record local_manager =
  lm_home :: string
  lm_table :: rs_table

definition RsLocalManager_new :: "string \<Rightarrow> local_manager" where
  "RsLocalManager_new path = \<lparr>lm_home = path, lm_table = []\<rparr>"

definition freeTable :: "local_manager \<Rightarrow> local_manager" where
  "freeTable lm = lm\<lparr>lm_table := []\<rparr>"

text \<open>\<open>table[uri]\<close>, which enters a null pointer for a URI that is not there.\<close>

definition queryByUri :: "string \<Rightarrow> rs_table \<Rightarrow> resource option \<times> rs_table" where
  "queryByUri uri tbl = str_index None uri tbl"

text \<open>
  \<open>path.substr(path.find(rsHome) + rsHome.size())\<close>: when the home is not part of the path, \<open>find\<close>
  answers \<open>npos\<close> and the sum wraps to one less than the length of the home.
\<close>

definition uri_of :: "string \<Rightarrow> string \<Rightarrow> string res" where
  "uri_of home path =
     (case find_sub home path of
        Some i \<Rightarrow> Inr (drop (i + length home) path)
      | None \<Rightarrow> (if length home - 1 \<le> length path then Inr (drop (length home - 1) path) else Inl Uncaught))"

definition gen_resource ::
    "digester \<Rightarrow> string \<Rightarrow> string \<Rightarrow> string \<Rightarrow> bytes \<Rightarrow> rs_table \<Rightarrow> (resource list \<times> rs_table) res" where
  "gen_resource dg cwd home p content tbl =
     (let path = absolute cwd p in
      rbind (uri_of home path) (\<lambda>uri.
        (case queryByUri uri tbl of (tmprs, tbl') \<Rightarrow>
           if tmprs \<noteq> None then Inr ([], tbl')
           else
             rbind (returned (mdEncodeWithSHA3_512 dg [p \<mapsto> content] p)) (\<lambda>hashRet.
               if hashRet = [] then Inr ([], tbl')
               else rbind (arr_strcpy (filename p)) (\<lambda>nm. rbind (arr_strcpy path) (\<lambda>pt.
                    rbind (arr_strcpy hashRet) (\<lambda>h. rbind (arr_strcpy uri) (\<lambda>u.
                      Inr ([\<lparr>r_name = nm, r_uri = u, r_path = pt, r_hash = h,
                             r_size = of_nat (length content)\<rparr>], tbl')))))))))"

fun recurPath ::
    "digester \<Rightarrow> string \<Rightarrow> string \<Rightarrow> string \<Rightarrow> fnode \<Rightarrow> rs_table \<Rightarrow> (resource list \<times> rs_table) res"
and recurEntries ::
    "digester \<Rightarrow> string \<Rightarrow> string \<Rightarrow> string \<Rightarrow> (string \<times> fnode) list \<Rightarrow> resource list \<Rightarrow> rs_table \<Rightarrow>
     (resource list \<times> rs_table) res"
where
  "recurPath dg cwd home p (RegFile content) tbl = gen_resource dg cwd home p content tbl"
| "recurPath dg cwd home p (Directory es) tbl = recurEntries dg cwd home p es [] tbl"
| "recurPath dg cwd home p OtherNode tbl = Inr ([], tbl)"
| "recurEntries dg cwd home p [] paths tbl = Inr (paths, tbl)"
| "recurEntries dg cwd home p ((nm, node) # es) paths tbl =
     rbind (recurPath dg cwd home (path_join p nm) node tbl) (\<lambda>(ret, tbl').
       recurEntries dg cwd home p es (ret @ paths) tbl')"

definition genResources ::
    "digester \<Rightarrow> string \<Rightarrow> (string \<Rightarrow> fnode) \<Rightarrow> string \<Rightarrow> local_manager \<Rightarrow>
     (resource list \<times> local_manager) res" where
  "genResources dg cwd tree pathStr lm =
     rbind (recurPath dg cwd (lm_home lm) pathStr (tree pathStr) (lm_table lm)) (\<lambda>(rs, tbl).
       Inr (rs, lm\<lparr>lm_table := tbl\<rparr>))"

text \<open>\<open>table[new_rs->uri] = new_rs\<close>, freeing what was there.\<close>

definition enter_resource :: "resource \<Rightarrow> rs_table \<Rightarrow> rs_table res" where
  "enter_resource r tbl = rbind (arr_str (r_uri r)) (\<lambda>uri. Inr (str_put uri (Some r) tbl))"

definition refreshTable ::
    "digester \<Rightarrow> string \<Rightarrow> (string \<Rightarrow> fnode) \<Rightarrow> local_manager \<Rightarrow> local_manager res" where
  "refreshTable dg cwd tree lm =
     rbind (genResources dg cwd tree (lm_home lm) (lm\<lparr>lm_table := []\<rparr>)) (\<lambda>(newer, lm').
     rbind (rfold enter_resource newer (lm_table lm')) (\<lambda>tbl. Inr (lm'\<lparr>lm_table := tbl\<rparr>)))"

definition getTable ::
    "digester \<Rightarrow> string \<Rightarrow> (string \<Rightarrow> fnode) \<Rightarrow> local_manager \<Rightarrow>
     (resource option list \<times> local_manager) res" where
  "getTable dg cwd tree lm =
     rbind (refreshTable dg cwd tree lm) (\<lambda>lm'. Inr (map snd (lm_table lm'), lm'))"

definition setRsHomePath :: "string \<Rightarrow> local_manager \<Rightarrow> local_manager" where
  "setRsHomePath path lm = lm\<lparr>lm_home := path\<rparr>"

definition validRes ::
    "digester \<Rightarrow> string \<Rightarrow> (string \<Rightarrow> fnode) \<Rightarrow> string \<Rightarrow> string \<Rightarrow> local_manager \<Rightarrow>
     (bool \<times> local_manager) res" where
  "validRes dg cwd tree uri hash lm =
     rbind (refreshTable dg cwd tree lm) (\<lambda>lm'.
       (case queryByUri uri (lm_table lm') of (rs, tbl) \<Rightarrow>
          (case rs of
             None \<Rightarrow> Inr (False, lm'\<lparr>lm_table := tbl\<rparr>)
           | Some r \<Rightarrow> rbind (arr_str (r_hash r)) (\<lambda>h. Inr (hash = h, lm'\<lparr>lm_table := tbl\<rparr>)))))"

section \<open>Comparing with the table of a peer\<close>

text \<open>The entries of the peer by file name, a later one replacing an earlier one.\<close>

definition peer_filter :: "resource list \<Rightarrow> (string, resource) smap res" where
  "peer_filter peer_table =
     rfold (\<lambda>r m. rbind (arr_str (r_uri r)) (\<lambda>u.
       if u = [] then Inr m else rbind (arr_str (r_name r)) (\<lambda>nm. Inr (str_put nm r m)))) peer_table []"

text \<open>
  One local entry against the filtered table. \<open>filtered[name]\<close> enters a zeroed struct for a name
  that is not there, and the first branch takes it out again.
\<close>

definition cmp_local :: "resource option \<Rightarrow> (string, resource) smap \<Rightarrow> (string, resource) smap res" where
  "cmp_local local_rs m =
     (case local_rs of
        None \<Rightarrow> Inl NullDeref
      | Some l \<Rightarrow>
          rbind (arr_str (r_name l)) (\<lambda>name.
            (case str_index Resource_zero name m of (rs, m') \<Rightarrow>
               rbind (arr_str (r_name rs)) (\<lambda>peer_name.
                 if peer_name = [] \<or> r_size rs < r_size l then Inr (str_erase name m')
                 else if r_size rs = r_size l then
                   rbind (arr_str (r_hash rs)) (\<lambda>h.
                   rbind (compareChar (r_hash rs) (r_hash l) (length h)) (\<lambda>same.
                     Inr (if same then str_erase name m' else m')))
                 else Inr m'))))"

definition cmpThenRetNeedToSyncTable ::
    "digester \<Rightarrow> string \<Rightarrow> (string \<Rightarrow> fnode) \<Rightarrow> resource list \<Rightarrow> local_manager \<Rightarrow>
     (resource list \<times> local_manager) res" where
  "cmpThenRetNeedToSyncTable dg cwd tree peer_table lm =
     rbind (peer_filter peer_table) (\<lambda>filtered.
       if filtered = [] then Inr ([], lm)
       else
         rbind (getTable dg cwd tree lm) (\<lambda>(local_table, lm').
         rbind (rfold cmp_local local_table filtered) (\<lambda>wanted. Inr (map snd wanted, lm'))))"

section \<open>Storing\<close>

definition resourcePosition :: "string \<Rightarrow> local_manager \<Rightarrow> string" where
  "resourcePosition uri lm = lm_home lm @ uri"

text \<open>
  \<open>dirs\<close> are the directories there are, \<open>can_mkdir\<close> whether a path can be created with all its
  missing ancestors (otherwise \<open>create_directories\<close> throws), \<open>can_open\<close> whether a file can be opened or created. The result of
  \<open>writeFile\<close> is unsigned, so \<open>ret < 0\<close> never holds.
\<close>

definition saveLocal ::
    "string \<Rightarrow> (string \<Rightarrow> bool) \<Rightarrow> (string set \<Rightarrow> string \<Rightarrow> bool) \<Rightarrow> transfer \<Rightarrow> string \<Rightarrow> bytes \<Rightarrow> u64 \<Rightarrow> u64 \<Rightarrow>
     local_manager \<Rightarrow> file_system \<times> string set \<Rightarrow> (bool \<times> file_system \<times> string set) res option" where
  "saveLocal cwd can_mkdir can_open wr uri data offset data_len lm w =
     (case w of (fs, dirs) \<Rightarrow>
        (let pathstr = resourcePosition uri lm;
             ppath = parent_path (absolute cwd pathstr);
             missing = ppath \<notin> dirs
         in if missing \<and> \<not> can_mkdir (parent_path pathstr) then Some (Inl Uncaught)
            else
              (let dirs' = (if missing then dirs \<union> ancestors ppath else dirs) in
               case writeFile (can_open dirs') wr pathstr offset data data_len fs of
                 None \<Rightarrow> None
               | Some (Inl e) \<Rightarrow> Some (Inl e)
               | Some (Inr (ret, fs')) \<Rightarrow> Some (Inr (\<not> (ret < 0), fs', dirs')))))"

section \<open>The index lists the files\<close>

lemma hex_digit_NUL: "d < 16 \<Longrightarrow> hex_digit d \<noteq> NUL"
proof -
  assume "d < 16"
  then have "(of_char (hex_digit d) :: nat) = (if d < 10 then 48 + d else 87 + d)"
    by (simp add: hex_digit_def of_char_of)
  then have "(of_char (hex_digit d) :: nat) \<noteq> 0" by (simp split: if_splits)
  then show ?thesis by auto
qed

lemma length_hexdump: "length (hexdump bs) = 2 * length bs"
  by (induction bs) (simp_all add: hexdump_def hex_byte_def)

lemma NUL_hexdump: "NUL \<notin> set (hexdump bs)"
proof (induction bs)
  case (Cons c bs)
  have "(of_char c :: nat) < 256" by (rule of_char_less_256)
  then have "(of_char c :: nat) div 16 < 16" and "(of_char c :: nat) mod 16 < 16"
    by (simp_all add: less_mult_imp_div_less)
  from this [THEN hex_digit_NUL] Cons show ?case by (simp add: hexdump_def hex_byte_def)
qed (simp add: hexdump_def)

lemma hexdump_digest:
  assumes "digest_law dg"
  shows "c_string (digest_of dg p c) \<and> digest_of dg p c \<noteq> []"
proof -
  have "length (digest_of dg p c) = 128" using assms by (simp add: digest_of_def length_hexdump digest_law_def)
  then show ?thesis by (auto simp: c_string_def NUL_hexdump NAME_MAX_SIZE_def digest_of_def)
qed

text \<open>The files below a path, in the order the scan returns them, and the entry of a file.\<close>

fun tree_files :: "string \<Rightarrow> fnode \<Rightarrow> (string \<times> bytes) list"
and entry_files :: "string \<Rightarrow> (string \<times> fnode) list \<Rightarrow> (string \<times> bytes) list" where
  "tree_files p (RegFile content) = [(p, content)]"
| "tree_files p (Directory es) = entry_files p es"
| "tree_files p OtherNode = []"
| "entry_files p [] = []"
| "entry_files p ((nm, node) # es) = entry_files p es @ tree_files (path_join p nm) node"

definition file_entry :: "digester \<Rightarrow> string \<Rightarrow> string \<times> bytes \<Rightarrow> resource" where
  "file_entry dg home f =
     (case f of (path, content) \<Rightarrow>
        mk_resource (filename path) (drop (length home) path) path (digest_of dg path content)
          (of_nat (length content)))"

lemma path_join_prefix: "\<exists>s. path_join p nm = p @ s"
  by (auto simp: path_join_def)

lemma tree_files_prefix:
  "f \<in> set (tree_files p node) \<Longrightarrow> \<exists>s. fst f = p @ s"
  "f \<in> set (entry_files p es) \<Longrightarrow> \<exists>s. fst f = p @ s"
proof (induction p node and p es rule: tree_files_entry_files.induct)
  case (5 p nm node es)
  then show ?case using path_join_prefix [of p nm] by force
qed auto

lemma c_string_filename: "c_string p \<Longrightarrow> c_string (filename p)"
proof -
  assume p: "c_string p"
  have "length (takeWhile P xs) \<le> length xs" for P and xs :: string by (rule length_takeWhile_le)
  then have "length (filename p) \<le> length p" by (metis filename_def length_rev)
  moreover have "set (filename p) \<subseteq> set p" by (auto simp: filename_def dest: set_takeWhileD)
  ultimately show ?thesis using p by (auto simp: c_string_def)
qed

lemma c_string_drop: "c_string p \<Longrightarrow> c_string (drop n p)"
  by (auto simp: c_string_def dest: in_set_dropD)

lemma file_entry_str:
  assumes "digest_law dg" and "c_string path"
  shows "arr_str (r_name (file_entry dg home (path, c))) = Inr (filename path)"
    and "arr_str (r_uri (file_entry dg home (path, c))) = Inr (drop (length home) path)"
    and "arr_str (r_path (file_entry dg home (path, c))) = Inr path"
    and "arr_str (r_hash (file_entry dg home (path, c))) = Inr (digest_of dg path c)"
    and "r_size (file_entry dg home (path, c)) = of_nat (length c)"
    and "proper (file_entry dg home (path, c))"
  using assms hexdump_digest [OF assms(1)]
  by (simp_all add: file_entry_def c_string_filename c_string_drop proper_mk)

lemma arr_strcpy_c: "c_string s \<Longrightarrow> arr_strcpy s = Inr (s @ replicate (NAME_MAX_SIZE - length s) NUL)"
  by (simp add: c_string_def arr_strcpy_str)

definition null_table :: "rs_table \<Rightarrow> bool" where
  "null_table tbl \<longleftrightarrow> sm_sorted str_less tbl \<and> (\<forall>u v. str_find u tbl = Some v \<longrightarrow> v = None)"

text \<open>A path that fits the structs, and a size that a file can have.\<close>

definition file_fits :: "string \<times> bytes \<Rightarrow> bool" where
  "file_fits f \<longleftrightarrow> c_string (fst f) \<and> length (snd f) < 2 ^ 63"

lemma gen_resource_file:
  assumes "digest_law dg" and "take 1 home = ''/''" and "p = home @ s" and "file_fits (p, c)" and "null_table tbl"
  shows "\<exists>tbl'. gen_resource dg cwd home p c tbl = Inr ([file_entry dg home (p, c)], tbl') \<and>
     null_table tbl' \<and> sm_keys tbl' = insert s (sm_keys tbl)"
proof -
  have p: "absolute cwd p = p" "p \<noteq> []" using assms(2,3) by (cases home; simp add: absolute_def)+
  have uri: "uri_of home p = Inr s" by (simp add: uri_of_def assms(3) find_sub_prefix)
  obtain v tbl' where q: "queryByUri s tbl = (v, tbl')" by (cases "queryByUri s tbl")
  have v: "v = None" and nt: "null_table tbl'" and keys: "sm_keys tbl' = insert s (sm_keys tbl)"
    using q assms(5) str_map.keys_find [of tbl s]
    by (auto simp: queryByUri_def sm_index_def null_table_def str_map.keys_put split: option.splits if_splits)
  have cp: "c_string p" using assms(4) by (simp add: file_fits_def)
  have "s = drop (length home) p" by (simp add: assms(3))
  then have "c_string s" using cp c_string_drop by metis
  moreover have "mdEncodeWithSHA3_512 dg [p \<mapsto> c] p = Some (Inr (digest_of dg p c))"
    using assms(4) p(2) by (intro mdEncode_content [OF assms(1)]) (simp_all add: file_fits_def)
  ultimately have "gen_resource dg cwd home p c tbl = Inr ([file_entry dg home (p, c)], tbl')"
    using assms(3) cp p uri q v hexdump_digest [OF assms(1)]
    by (simp add: gen_resource_def Let_def arr_strcpy_c c_string_filename file_entry_def mk_resource_def)
  with nt keys show ?thesis by blast
qed

lemma scan_files:
  assumes "digest_law dg" and "take 1 home = ''/''"
  shows "\<exists>t. p = home @ t \<Longrightarrow> \<forall>f \<in> set (tree_files p node). file_fits f \<Longrightarrow> null_table tbl \<Longrightarrow>
      \<exists>tbl'. recurPath dg cwd home p node tbl = Inr (map (file_entry dg home) (tree_files p node), tbl') \<and>
        null_table tbl' \<and> sm_keys tbl' = sm_keys tbl \<union> drop (length home) ` fst ` set (tree_files p node)"
    and "\<exists>t. p = home @ t \<Longrightarrow> \<forall>f \<in> set (entry_files p es). file_fits f \<Longrightarrow> null_table tbl \<Longrightarrow>
      \<exists>tbl'. recurEntries dg cwd home p es paths tbl =
          Inr (map (file_entry dg home) (entry_files p es) @ paths, tbl') \<and>
        null_table tbl' \<and> sm_keys tbl' = sm_keys tbl \<union> drop (length home) ` fst ` set (entry_files p es)"
proof (induction p node and p es arbitrary: tbl and tbl paths rule: tree_files_entry_files.induct)
  case (1 p content)
  then obtain s where "p = home @ s" by blast
  then show ?case using gen_resource_file [where p = p and s = s and tbl = tbl and cwd = cwd and c = content, OF assms] 1 by force
next
  case (2 p es)
  then show ?case using 2(1) [of tbl "[]"] by simp
next
  case (5 p nm node es)
  then obtain t where "p = home @ t" by blast
  then have pre: "\<exists>t. path_join p nm = home @ t" using path_join_prefix [of p nm] by auto
  have "\<forall>f \<in> set (tree_files (path_join p nm) node). file_fits f" using 5(4) by simp
  from 5(2) [OF pre this 5(5)] obtain tbl1 where
    r: "recurPath dg cwd home (path_join p nm) node tbl =
        Inr (map (file_entry dg home) (tree_files (path_join p nm) node), tbl1)"
    and n1: "null_table tbl1"
    and k1: "sm_keys tbl1 = sm_keys tbl \<union> drop (length home) ` fst ` set (tree_files (path_join p nm) node)"
    by blast
  have "\<forall>f \<in> set (entry_files p es). file_fits f" using 5(4) by simp
  from 5(1) [OF 5(3) this n1, of "map (file_entry dg home) (tree_files (path_join p nm) node) @ paths"]
  obtain tbl2 where "recurEntries dg cwd home p es
        (map (file_entry dg home) (tree_files (path_join p nm) node) @ paths) tbl1 =
      Inr (map (file_entry dg home) (entry_files p es) @
           map (file_entry dg home) (tree_files (path_join p nm) node) @ paths, tbl2)"
    and "null_table tbl2"
    and "sm_keys tbl2 = sm_keys tbl1 \<union> drop (length home) ` fst ` set (entry_files p es)"
    by blast
  then show ?case using r k1 by (simp add: image_Un Un_ac)
qed auto

lemma enter_all:
  assumes "digest_law dg" and "\<forall>f \<in> set fs. c_string (fst f)" and "sm_sorted str_less tbl"
  shows "\<exists>tbl'. rfold enter_resource (map (file_entry dg home) fs) tbl = Inr tbl' \<and>
     sm_sorted str_less tbl' \<and>
     (\<forall>u. str_find u tbl' =
        (case map_of (rev (map (\<lambda>f. (drop (length home) (fst f), file_entry dg home f)) fs)) u of
           Some r \<Rightarrow> Some (Some r) | None \<Rightarrow> str_find u tbl))"
  using assms(2,3)
proof (induction fs arbitrary: tbl)
  case (Cons f fs)
  let ?r = "file_entry dg home f" and ?u = "drop (length home) (fst f)"
  have e: "enter_resource ?r tbl = Inr (str_put ?u (Some ?r) tbl)"
    using file_entry_str(2) [OF assms(1), of "fst f" home "snd f"] Cons.prems(1)
    by (simp add: enter_resource_def)
  obtain tbl' where "rfold enter_resource (map (file_entry dg home) fs) (str_put ?u (Some ?r) tbl) = Inr tbl'"
    and "sm_sorted str_less tbl'"
    and "\<forall>u. str_find u tbl' =
        (case map_of (rev (map (\<lambda>f. (drop (length home) (fst f), file_entry dg home f)) fs)) u of
           Some r \<Rightarrow> Some (Some r) | None \<Rightarrow> str_find u (str_put ?u (Some ?r) tbl))"
    using Cons.IH [of "str_put ?u (Some ?r) tbl"] Cons.prems by auto
  then show ?case using e
    by (intro exI [of _ tbl']) (simp add: map_add_def split: option.splits)
qed simp

lemma map_of_uris:
  assumes "distinct (map fst fs)" and "\<forall>f \<in> set fs. \<exists>t. fst f = home @ t"
  shows "map_of (rev (map (\<lambda>f. (drop (length home) (fst f), file_entry dg home f)) fs)) u =
     map_option (\<lambda>c. file_entry dg home (home @ u, c)) (map_of fs (home @ u))"
proof -
  have inj: "inj_on (drop (length home)) (fst ` set fs)"
    using assms(2) by (auto simp: inj_on_def) (metis append_eq_conv_conj fst_conv)
  have keys: "map fst (map (\<lambda>f. (drop (length home) (fst f), file_entry dg home f)) fs) =
      map (drop (length home)) (map fst fs)" by simp
  have "distinct (map (drop (length home)) (map fst fs))"
    using assms(1) inj by (simp only: distinct_map set_map)
  then have "distinct (map fst (map (\<lambda>f. (drop (length home) (fst f), file_entry dg home f)) fs))"
    by (simp only: keys)
  then have "map_of (rev (map (\<lambda>f. (drop (length home) (fst f), file_entry dg home f)) fs)) u =
      map_of (map (\<lambda>f. (drop (length home) (fst f), file_entry dg home f)) fs) u"
    by (simp only: map_of_rev)
  also have "\<dots> = map_option (\<lambda>c. file_entry dg home (home @ u, c)) (map_of fs (home @ u))"
    using assms(2)
  proof (induction fs)
    case (Cons f fs)
    then obtain t where "fst f = home @ t" by auto
    then show ?case using Cons by (cases f) auto
  qed simp
  finally show ?thesis .
qed

text \<open>What is asked of the files below the home: absolute, and paths that fit the structs.\<close>

definition home_files :: "local_manager \<Rightarrow> (string \<Rightarrow> fnode) \<Rightarrow> (string \<times> bytes) list" where
  "home_files lm tree = tree_files (lm_home lm) (tree (lm_home lm))"

definition scannable :: "local_manager \<Rightarrow> (string \<Rightarrow> fnode) \<Rightarrow> bool" where
  "scannable lm tree \<longleftrightarrow> take 1 (lm_home lm) = ''/'' \<and> distinct (map fst (home_files lm tree)) \<and>
     (\<forall>f \<in> set (home_files lm tree). file_fits f)"

lemma refreshTable_lookup:
  assumes "digest_law dg" and "scannable lm tree"
  shows "\<exists>tbl. refreshTable dg cwd tree lm = Inr (lm\<lparr>lm_table := tbl\<rparr>) \<and> sm_sorted str_less tbl \<and>
     (\<forall>u. str_find u tbl = map_option (\<lambda>c. Some (file_entry dg (lm_home lm) (lm_home lm @ u, c)))
        (map_of (home_files lm tree) (lm_home lm @ u)))"
proof -
  let ?home = "lm_home lm" and ?fs = "home_files lm tree"
  have nt: "null_table []" by (simp add: null_table_def)
  have fits: "\<forall>f \<in> set ?fs. file_fits f" using assms(2) by (simp add: scannable_def)
  have ok: "\<forall>f \<in> set ?fs. c_string (fst f)" "distinct (map fst ?fs)" "take 1 ?home = ''/''"
    using assms(2) by (auto simp: scannable_def file_fits_def)
  obtain tbl where scan: "recurPath dg cwd ?home ?home (tree ?home) [] =
      Inr (map (file_entry dg ?home) ?fs, tbl)"
    and tbl: "null_table tbl" "sm_keys tbl = drop (length ?home) ` fst ` set ?fs"
    using scan_files(1) [OF assms(1) ok(3), of ?home "tree ?home" "[]" cwd] fits nt
    by (auto simp: home_files_def)
  have pre: "\<forall>f \<in> set ?fs. \<exists>t. fst f = ?home @ t"
    using tree_files_prefix(1) by (simp add: home_files_def)
  obtain tbl' where fold: "rfold enter_resource (map (file_entry dg ?home) ?fs) tbl = Inr tbl'"
    and sorted: "sm_sorted str_less tbl'"
    and find: "\<forall>u. str_find u tbl' =
        (case map_option (\<lambda>c. file_entry dg ?home (?home @ u, c)) (map_of ?fs (?home @ u)) of
           Some r \<Rightarrow> Some (Some r) | None \<Rightarrow> str_find u tbl)"
    using enter_all [OF assms(1) ok(1), of tbl ?home] tbl(1)
    unfolding map_of_uris [OF ok(2) pre] null_table_def by blast
  have "str_find u tbl' = map_option (\<lambda>c. Some (file_entry dg ?home (?home @ u, c))) (map_of ?fs (?home @ u))" for u
  proof (cases "map_of ?fs (?home @ u)")
    case None
    then have "?home @ u \<notin> fst ` set ?fs" by (simp add: map_of_eq_None_iff)
    then have "u \<notin> sm_keys tbl" using pre unfolding tbl(2) by force
    then show ?thesis using None find str_map.keys_find [of tbl u] tbl(1)
      by (simp add: null_table_def)
  qed (simp add: find)
  then show ?thesis using scan fold sorted by (auto simp: refreshTable_def genResources_def)
qed

text \<open>
  C17: the index is the directory. After a refresh it has, under each URI, exactly the file that lies
  there below the (absolute) home: its name, absolute path, digest and size, and nothing else; no
  step of the scan faults when the paths are shorter than the 2048-byte fields and \<open>read\<close> makes
  progress, however little it transfers at a time. A file that cannot be opened is listed with the
  digest of no bytes.
\<close>

theorem refreshTable_lists_files:
  assumes "digest_law dg" and "scannable lm tree"
  shows "\<exists>lm'. refreshTable dg cwd tree lm = Inr lm' \<and> lm_home lm' = lm_home lm \<and>
     (\<forall>u. case map_of (home_files lm tree) (lm_home lm @ u) of
        None \<Rightarrow> str_find u (lm_table lm') = None
      | Some c \<Rightarrow> (\<exists>r. str_find u (lm_table lm') = Some (Some r) \<and>
          arr_str (r_uri r) = Inr u \<and> arr_str (r_path r) = Inr (lm_home lm @ u) \<and>
          arr_str (r_name r) = Inr (filename (lm_home lm @ u)) \<and>
          arr_str (r_hash r) = Inr (hexdump (dg_sha3 dg (if dg_open dg (lm_home lm @ u) then c else []))) \<and>
          r_size r = of_nat (length c)))"
proof -
  from refreshTable_lookup [OF assms, of cwd] obtain tbl where
    r: "refreshTable dg cwd tree lm = Inr (lm\<lparr>lm_table := tbl\<rparr>)"
    and find: "\<forall>u. str_find u tbl = map_option (\<lambda>c. Some (file_entry dg (lm_home lm) (lm_home lm @ u, c)))
        (map_of (home_files lm tree) (lm_home lm @ u))" by blast
  have "c_string (lm_home lm @ u)" if "map_of (home_files lm tree) (lm_home lm @ u) = Some c" for u c
    using map_of_SomeD [OF that] assms(2) by (auto simp: scannable_def file_fits_def)
  then show ?thesis using r find file_entry_str [OF assms(1)]
    by (auto simp: digest_of_def split: option.splits)
qed

definition sample_digest :: "bytes \<Rightarrow> bytes" where
  "sample_digest bs = replicate 63 (char_of (length bs)) @ [if bs = [] then NUL else hd bs]"

definition sample_tree :: "string \<Rightarrow> fnode" where
  "sample_tree p = (if p = ''/h'' then Directory [(''a'', RegFile ''xy''), (''d'', Directory [(''b'', RegFile [])])]
                    else OtherNode)"

definition sample_digester :: digester where
  "sample_digester = \<lparr>dg_sha3 = sample_digest, dg_open = (\<lambda>_. True), dg_read = (\<lambda>_. full_read)\<rparr>"

lemma sample_digester_simps [simp]: "dg_sha3 sample_digester = sample_digest" "dg_open sample_digester = (\<lambda>_. True)"
  by (simp_all add: sample_digester_def)

lemma sample_digest_of [simp]: "digest_of sample_digester p c = hexdump (sample_digest c)"
  by (simp add: digest_of_def)

lemma sample_digest_law: "digest_law sample_digester"
  using full_read_law by (simp add: digest_law_def sample_digester_def sample_digest_def)

lemma sample_files:
  "home_files (RsLocalManager_new ''/h'') sample_tree = [(''/h/d/b'', []), (''/h/a'', ''xy'')]"
  by (simp add: home_files_def RsLocalManager_new_def sample_tree_def path_join_def)

lemma sample_home: "lm_home (RsLocalManager_new ''/h'') = ''/h''"
  by (simp add: RsLocalManager_new_def)

lemma sample_scannable: "scannable (RsLocalManager_new ''/h'') sample_tree"
  unfolding scannable_def sample_files by (simp add: file_fits_def RsLocalManager_new_def c_string_def NAME_MAX_SIZE_def)

theorem refreshTable_lists_files_witness:
  "\<exists>lm' r. refreshTable sample_digester ''/'' sample_tree (RsLocalManager_new ''/h'') = Inr lm' \<and>
     str_find ''/a'' (lm_table lm') = Some (Some r) \<and> r_size r = 2 \<and> str_find ''/x'' (lm_table lm') = None"
proof -
  from refreshTable_lists_files [OF sample_digest_law sample_scannable, of "''/''"] obtain lm' where
    r: "refreshTable sample_digester ''/'' sample_tree (RsLocalManager_new ''/h'') = Inr lm'"
    and all: "\<forall>u. case map_of [(''/h/d/b'', []), (''/h/a'', ''xy'')] (''/h'' @ u) of
        None \<Rightarrow> str_find u (lm_table lm') = None
      | Some c \<Rightarrow> (\<exists>r. str_find u (lm_table lm') = Some (Some r) \<and>
          arr_str (r_uri r) = Inr u \<and> arr_str (r_path r) = Inr (''/h'' @ u) \<and>
          arr_str (r_name r) = Inr (filename (''/h'' @ u)) \<and>
          arr_str (r_hash r) = Inr (hexdump (sample_digest c)) \<and> r_size r = of_nat (length c))"
    unfolding sample_files sample_home sample_digester_simps if_True by blast
  from all [rule_format, of "''/a''"] all [rule_format, of "''/x''"] r show ?thesis
    by (auto simp: numeral_2_eq_2)
qed

lemma queryByUri_find: "queryByUri uri tbl = (v, tbl') \<Longrightarrow> v = (case str_find uri tbl of Some x \<Rightarrow> x | None \<Rightarrow> None)"
  by (auto simp: queryByUri_def sm_index_def split: option.splits)

lemma validRes_result:
  assumes "digest_law dg" and "scannable lm tree"
  shows "\<exists>lm'. lm_home lm' = lm_home lm \<and> validRes dg cwd tree uri hash lm = Inr
     (\<exists>c. map_of (home_files lm tree) (lm_home lm @ uri) = Some c \<and> hash = digest_of dg (lm_home lm @ uri) c, lm')"
proof -
  from refreshTable_lookup [OF assms, of cwd] obtain tbl where
    r: "refreshTable dg cwd tree lm = Inr (lm\<lparr>lm_table := tbl\<rparr>)"
    and find: "\<forall>u. str_find u tbl = map_option (\<lambda>c. Some (file_entry dg (lm_home lm) (lm_home lm @ u, c)))
        (map_of (home_files lm tree) (lm_home lm @ u))" by blast
  obtain v tbl' where q: "queryByUri uri tbl = (v, tbl')" by (cases "queryByUri uri tbl")
  show ?thesis
  proof (cases "map_of (home_files lm tree) (lm_home lm @ uri)")
    case None
    then have "v = None" using queryByUri_find [OF q] find by simp
    then show ?thesis using r q None by (simp add: validRes_def)
  next
    case (Some c)
    then have v: "v = Some (file_entry dg (lm_home lm) (lm_home lm @ uri, c))"
      using queryByUri_find [OF q] find by simp
    have "c_string (lm_home lm @ uri)"
      using map_of_SomeD [OF Some] assms(2) by (auto simp: scannable_def file_fits_def)
    then show ?thesis using r q v Some file_entry_str(4) [OF assms(1)] by (simp add: validRes_def)
  qed
qed

text \<open>
  C24: the validation of a finished download answers exactly whether a file lies at the URI below
  the home whose digest is the announced one, whatever the index said before: the home is scanned
  again, and every file in it is read to its end, in whatever pieces \<open>read\<close> hands out, and hashed. A file
  that is there and cannot be opened counts as empty. The home is absolute, no file name appears twice
  and every path fits the 2048-byte fields (\<open>scannable\<close>).
\<close>

theorem validRes_correct:
  assumes "digest_law dg" and "scannable lm tree"
  shows "\<exists>lm'. validRes dg cwd tree uri hash lm = Inr
     (\<exists>c. map_of (home_files lm tree) (lm_home lm @ uri) = Some c \<and>
        hash = hexdump (dg_sha3 dg (if dg_open dg (lm_home lm @ uri) then c else [])), lm')"
  using validRes_result [OF assms] unfolding digest_of_def by blast

theorem validRes_correct_witness:
  "\<exists>lm'. validRes sample_digester ''/'' sample_tree ''/a'' (hexdump (sample_digest ''xy''))
     (RsLocalManager_new ''/h'') = Inr (True, lm')"
proof -
  from validRes_correct [OF sample_digest_law sample_scannable, of "''/''" "''/a''" "hexdump (sample_digest ''xy'')"]
  obtain lm' where "validRes sample_digester ''/'' sample_tree ''/a'' (hexdump (sample_digest ''xy''))
     (RsLocalManager_new ''/h'') = Inr (\<exists>c. map_of [(''/h/d/b'', []), (''/h/a'', ''xy'')] (''/h'' @ ''/a'') = Some c \<and>
       hexdump (sample_digest ''xy'') = hexdump (sample_digest c), lm')"
    unfolding sample_files sample_home sample_digester_simps if_True by blast
  then show ?thesis by simp
qed

section \<open>The comparison\<close>

text \<open>
  A file of the peer is wanted against a local file of the same name when it is larger, or equally
  large with another first character of the digest: \<open>compareChar\<close> looks at nothing else.
\<close>

definition wanted_over :: "resource \<Rightarrow> resource \<Rightarrow> bool" where
  "wanted_over p l \<longleftrightarrow> r_size l < r_size p \<or>
     (r_size p = r_size l \<and> arr_str (r_hash p) \<noteq> Inr [] \<and> hd (r_hash p) \<noteq> hd (r_hash l))"

definition res_ok :: "resource \<Rightarrow> bool" where
  "res_ok r \<longleftrightarrow> res_wf r \<and> (\<exists>nm u h. arr_str (r_name r) = Inr nm \<and> arr_str (r_uri r) = Inr u \<and>
     arr_str (r_hash r) = Inr h)"

definition str_name :: "resource \<Rightarrow> string" where
  "str_name r = (case arr_str (r_name r) of Inr nm \<Rightarrow> nm | Inl e \<Rightarrow> [])"

lemma res_ok_name: "res_ok r \<Longrightarrow> arr_str (r_name r) = Inr (str_name r)"
  by (auto simp: res_ok_def str_name_def)

lemma compareChar_first:
  assumes "l \<noteq> []" and "r \<noteq> []"
  shows "compareChar l r n = Inr (n = 0 \<or> hd l = hd r)"
  using assms by (induction n) (auto simp: vec_at_def hd_conv_nth)

lemma res_ok_zero: "arr_str (r_name Resource_zero) = Inr []" "r_size Resource_zero = 0"
  by (simp_all add: Resource_zero_def)

definition wf_map :: "(string, resource) smap \<Rightarrow> bool" where
  "wf_map m \<longleftrightarrow> sm_sorted str_less m \<and>
     (\<forall>nm r. str_find nm m = Some r \<longrightarrow> res_ok r \<and> str_name r = nm \<and> nm \<noteq> [])"

lemma cmp_local_step:
  assumes "wf_map m" and "res_ok l"
  shows "\<exists>m'. cmp_local (Some l) m = Inr m' \<and> wf_map m' \<and>
     (\<forall>nm. str_find nm m' = (case str_find nm m of None \<Rightarrow> None
        | Some p \<Rightarrow> if nm = str_name l \<and> \<not> wanted_over p l then None else Some p))"
proof -
  have sorted: "sm_sorted str_less m" using assms(1) by (simp add: wf_map_def)
  let ?n = "str_name l"
  show ?thesis
  proof (cases "str_find ?n m")
    case None
    have "cmp_local (Some l) m = Inr (str_erase ?n (str_put ?n Resource_zero m))"
      using None by (simp add: cmp_local_def res_ok_name [OF assms(2)] sm_index_def res_ok_zero)
    moreover have "str_find nm (str_erase ?n (str_put ?n Resource_zero m)) = str_find nm m" for nm
      using sorted None by simp
    ultimately show ?thesis using assms(1) None sorted
      by (auto simp: wf_map_def split: option.splits)
  next
    case (Some p)
    have p: "res_ok p" "str_name p = ?n" "?n \<noteq> []" using assms(1) Some by (auto simp: wf_map_def)
    obtain h where h: "arr_str (r_hash p) = Inr h" using p(1) by (auto simp: res_ok_def)
    have ne: "r_hash p \<noteq> []" "r_hash l \<noteq> []"
      using p(1) assms(2) by (auto simp: res_ok_def res_wf_def NAME_MAX_SIZE_def)
    have idx: "str_index Resource_zero ?n m = (p, m)" using Some by (simp add: sm_index_def)
    have "cmp_local (Some l) m = Inr (if wanted_over p l then m else str_erase ?n m)"
      using p idx h compareChar_first [OF ne]
      by (auto simp: cmp_local_def res_ok_name [OF assms(2)] res_ok_name [OF p(1)] wanted_over_def)
    then show ?thesis using assms(1) Some sorted
      by (auto simp: wf_map_def split: option.splits)
  qed
qed

lemma cmp_local_all:
  assumes "wf_map m" and "\<forall>l \<in> set ls. res_ok l"
  shows "\<exists>m'. rfold cmp_local (map Some ls) m = Inr m' \<and> wf_map m' \<and>
     (\<forall>nm. str_find nm m' = (case str_find nm m of None \<Rightarrow> None
        | Some p \<Rightarrow> if \<exists>l \<in> set ls. nm = str_name l \<and> \<not> wanted_over p l then None else Some p))"
  using assms
proof (induction ls arbitrary: m)
  case Nil
  then show ?case by (auto split: option.splits)
next
  case (Cons l ls)
  from cmp_local_step [OF Cons.prems(1), of l] Cons.prems(2) obtain m1 where
    one: "cmp_local (Some l) m = Inr m1" "wf_map m1"
      "\<forall>nm. str_find nm m1 = (case str_find nm m of None \<Rightarrow> None
        | Some p \<Rightarrow> if nm = str_name l \<and> \<not> wanted_over p l then None else Some p)" by auto
  from Cons.IH [OF one(2)] Cons.prems(2) obtain m2 where
    two: "rfold cmp_local (map Some ls) m1 = Inr m2" "wf_map m2"
      "\<forall>nm. str_find nm m2 = (case str_find nm m1 of None \<Rightarrow> None
        | Some p \<Rightarrow> if \<exists>l \<in> set ls. nm = str_name l \<and> \<not> wanted_over p l then None else Some p)" by auto
  show ?case using one two by (auto split: option.splits)
qed

definition has_uri :: "resource \<Rightarrow> bool" where
  "has_uri r \<longleftrightarrow> arr_str (r_uri r) \<noteq> Inr []"

text \<open>The entry of the peer's table that counts for a name: the last one with a URI.\<close>

definition last_named :: "resource list \<Rightarrow> string \<Rightarrow> resource option" where
  "last_named rs nm = map_of (rev (map (\<lambda>r. (str_name r, r)) (filter has_uri rs))) nm"

lemma peer_filter_lookup:
  assumes "\<forall>r \<in> set rs. res_ok r \<and> str_name r \<noteq> []"
  shows "\<exists>m. peer_filter rs = Inr m \<and> wf_map m \<and> (\<forall>nm. str_find nm m = last_named rs nm)"
  using assms
proof (induction rs rule: rev_induct)
  case Nil
  then show ?case by (simp add: peer_filter_def last_named_def wf_map_def)
next
  case (snoc r rs)
  then obtain m where m: "peer_filter rs = Inr m" "wf_map m" "\<forall>nm. str_find nm m = last_named rs nm"
    by auto
  obtain u where u: "arr_str (r_uri r) = Inr u" using snoc.prems by (auto simp: res_ok_def)
  have nm: "arr_str (r_name r) = Inr (str_name r)" using snoc.prems res_ok_name by auto
  have "peer_filter (rs @ [r]) = Inr (if u = [] then m else str_put (str_name r) r m)"
    using m(1) u nm by (simp add: peer_filter_def rfold_append)
  moreover have "str_find n (if u = [] then m else str_put (str_name r) r m) = last_named (rs @ [r]) n" for n
    using m(3) u by (simp add: last_named_def has_uri_def)
  moreover have "wf_map (if u = [] then m else str_put (str_name r) r m)"
    using m(2) snoc.prems by (auto simp: wf_map_def)
  ultimately show ?case by blast
qed

lemma file_entry_ok:
  assumes "digest_law dg" and "c_string path"
  shows "res_ok (file_entry dg home (path, c))" and "str_name (file_entry dg home (path, c)) = filename path"
  using file_entry_str [OF assms] proper_wf by (auto simp: res_ok_def str_name_def)

text \<open>The values of a table that lists files: their entries.\<close>

lemma table_values:
  fixes lm tree dg
  defines "e \<equiv> file_entry dg (lm_home lm)" and "fs \<equiv> home_files lm tree"
  assumes scan: "scannable lm tree" and sorted: "sm_sorted str_less tbl"
    and find: "\<forall>u. str_find u tbl = map_option (\<lambda>c. Some (e (lm_home lm @ u, c))) (map_of fs (lm_home lm @ u))"
  shows "snd ` set tbl = Some ` e ` set fs" and "length tbl \<le> length fs"
proof -
  show "snd ` set tbl = Some ` e ` set fs"
  proof (intro equalityI subsetI)
    fix v assume "v \<in> snd ` set tbl"
    then obtain u where "str_find u tbl = Some v" using str_map.values_find [OF sorted] by blast
    then show "v \<in> Some ` e ` set fs" using find by (auto dest: map_of_SomeD)
  next
    fix v assume "v \<in> Some ` e ` set fs"
    then obtain f where f: "f \<in> set fs" "v = Some (e f)" by blast
    then obtain u where "fst f = lm_home lm @ u"
      using tree_files_prefix(1) unfolding fs_def home_files_def by blast
    moreover have "map_of fs (fst f) = Some (snd f)"
      using f(1) scan by (simp add: fs_def scannable_def file_fits_def)
    ultimately have "str_find u tbl = Some v" using find f(2) by (metis option.map(2) prod.collapse)
    then show "v \<in> snd ` set tbl" using str_map.values_find [OF sorted] by blast
  qed
  have "(\<lambda>u. lm_home lm @ u) ` fst ` set tbl \<subseteq> fst ` set fs"
  proof (rule image_subsetI)
    fix u assume "u \<in> fst ` set tbl"
    then have "map_of tbl u \<noteq> None" by (simp add: map_of_eq_None_iff)
    then have "str_find u tbl \<noteq> None" using str_map.find_map_of [OF sorted] by simp
    then show "lm_home lm @ u \<in> fst ` set fs" using find by (auto dest: map_of_SomeD intro: rev_image_eqI)
  qed
  then have "card ((\<lambda>u. lm_home lm @ u) ` fst ` set tbl) \<le> card (fst ` set fs)" by (intro card_mono) simp
  also have "\<dots> \<le> length fs" using card_length [of "map fst fs"] by simp
  also have "card ((\<lambda>u. lm_home lm @ u) ` fst ` set tbl) = card (set (map fst tbl))" by (simp add: card_image inj_on_def)
  also have "\<dots> = length tbl"
    using distinct_card [OF str_map.sorted_distinct_keys [OF sorted]] by simp
  finally show "length tbl \<le> length fs" .
qed

lemma getTable_files:
  assumes "digest_law dg" and "scannable lm tree"
  shows "\<exists>ls lm'. getTable dg cwd tree lm = Inr (map Some ls, lm') \<and>
     set ls = file_entry dg (lm_home lm) ` set (home_files lm tree) \<and>
     length ls \<le> length (home_files lm tree) \<and> lm_home lm' = lm_home lm \<and>
     (\<forall>u. str_find u (lm_table lm') = map_option (\<lambda>c. Some (file_entry dg (lm_home lm) (lm_home lm @ u, c)))
        (map_of (home_files lm tree) (lm_home lm @ u)))"
proof -
  obtain tbl where r: "refreshTable dg cwd tree lm = Inr (lm\<lparr>lm_table := tbl\<rparr>)"
    and sorted: "sm_sorted str_less tbl"
    and find: "\<forall>u. str_find u tbl = map_option (\<lambda>c. Some (file_entry dg (lm_home lm) (lm_home lm @ u, c)))
      (map_of (home_files lm tree) (lm_home lm @ u))"
    using refreshTable_lookup [OF assms, of cwd] by blast
  note vals = table_values [OF assms(2) sorted find]
  have "map snd tbl = map Some (map the (map snd tbl))"
    using vals(1) by (auto simp: image_iff intro!: nth_equalityI) (metis imageE image_eqI nth_mem option.sel snd_conv vals(1))
  moreover have "set (map the (map snd tbl)) = file_entry dg (lm_home lm) ` set (home_files lm tree)"
    by (simp only: set_map vals(1) image_image option.sel)
  ultimately show ?thesis using r find vals(2)
    by (intro exI [of _ "map the (map snd tbl)"] exI [of _ "lm\<lparr>lm_table := tbl\<rparr>"]) (simp add: getTable_def)
qed

lemma cmp_wants:
  assumes "digest_law dg" and "scannable lm tree" and "\<forall>r \<in> set rs. res_ok r \<and> str_name r \<noteq> []"
  shows "\<exists>want lm'. cmpThenRetNeedToSyncTable dg cwd tree rs lm = Inr (want, lm') \<and>
     distinct want \<and> lm_home lm' = lm_home lm \<and>
     (\<forall>r. r \<in> set want \<longleftrightarrow> (\<exists>nm. last_named rs nm = Some r \<and>
        (\<forall>f \<in> set (home_files lm tree). filename (fst f) = nm \<longrightarrow>
           wanted_over r (file_entry dg (lm_home lm) f))))"
proof -
  obtain m where m: "peer_filter rs = Inr m" "wf_map m" "\<forall>nm. str_find nm m = last_named rs nm"
    using peer_filter_lookup [OF assms(3)] by blast
  show ?thesis
  proof (cases "m = []")
    case True
    then show ?thesis using m by (simp add: cmpThenRetNeedToSyncTable_def)
  next
    case False
    obtain ls lm' where ls: "getTable dg cwd tree lm = Inr (map Some ls, lm')"
      "set ls = file_entry dg (lm_home lm) ` set (home_files lm tree)" and home: "lm_home lm' = lm_home lm"
      using getTable_files [OF assms(1,2)] by blast
    have cs: "\<forall>f \<in> set (home_files lm tree). c_string (fst f)" using assms(2) by (simp add: scannable_def file_fits_def)
    have nm: "\<forall>f \<in> set (home_files lm tree). res_ok (file_entry dg (lm_home lm) f) \<and>
        str_name (file_entry dg (lm_home lm) f) = filename (fst f)"
      using cs file_entry_ok [OF assms(1)] by (metis prod.collapse)
    then have "\<forall>l \<in> set ls. res_ok l" by (auto simp: ls(2))
    from cmp_local_all [OF m(2) this] obtain m' where m': "rfold cmp_local (map Some ls) m = Inr m'"
      "wf_map m'" "\<forall>nm. str_find nm m' = (case str_find nm m of None \<Rightarrow> None
        | Some p \<Rightarrow> if \<exists>l \<in> set ls. nm = str_name l \<and> \<not> wanted_over p l then None else Some p)" by blast
    have "cmpThenRetNeedToSyncTable dg cwd tree rs lm = Inr (map snd m', lm')"
      using m(1) ls(1) m'(1) False by (simp add: cmpThenRetNeedToSyncTable_def)
    moreover have "distinct (map snd m')"
    proof -
      have sorted: "sm_sorted str_less m'" using m'(2) by (simp add: wf_map_def)
      have "str_name (snd e) = fst e" if "e \<in> set m'" for e
        using m'(2) that str_map.find_map_of [OF sorted] map_of_is_SomeI [OF str_map.sorted_distinct_keys [OF sorted]]
        by (cases e) (auto simp: wf_map_def)
      then have "map str_name (map snd m') = map fst m'" by simp
      then show ?thesis using str_map.sorted_distinct_keys [OF sorted] by (metis distinct_map)
    qed
    moreover have "r \<in> set (map snd m') \<longleftrightarrow> (\<exists>nm. str_find nm m' = Some r)" for r
      using str_map.values_find [of m'] m'(2) by (simp add: wf_map_def)
    moreover have "str_find n m' = Some r \<longleftrightarrow> last_named rs n = Some r \<and>
        (\<forall>f \<in> set (home_files lm tree). filename (fst f) = n \<longrightarrow> wanted_over r (file_entry dg (lm_home lm) f))" for n r
      using m'(3) m(3) nm by (auto simp: ls(2) split: option.splits if_splits)
    ultimately show ?thesis using home by blast
  qed
qed

text \<open>
  C32: what is fetched from a peer. Of the peer's table, exactly those entries are wanted that are
  the last of their name with a URI and beat every local file of that name: larger, or equally
  large with a digest that differs in the first character.
\<close>

theorem cmp_wants_exactly:
  assumes "digest_law dg" and "scannable lm tree" and "\<forall>r \<in> set rs. res_ok r \<and> str_name r \<noteq> []"
  shows "\<exists>want lm'. cmpThenRetNeedToSyncTable dg cwd tree rs lm = Inr (want, lm') \<and>
     (\<forall>r. r \<in> set want \<longleftrightarrow> (\<exists>nm. last_named rs nm = Some r \<and>
        (\<forall>f \<in> set (home_files lm tree). filename (fst f) = nm \<longrightarrow>
           wanted_over r (file_entry dg (lm_home lm) f))))"
  using cmp_wants [OF assms] by blast

theorem cmp_wants_exactly_witness:
  "\<exists>want lm'. cmpThenRetNeedToSyncTable sample_digester ''/'' sample_tree
     [mk_resource ''a'' ''/a'' ''/x/a'' ''00'' 7] (RsLocalManager_new ''/h'') = Inr (want, lm') \<and>
     mk_resource ''a'' ''/a'' ''/x/a'' ''00'' 7 \<in> set want"
proof -
  let ?r = "mk_resource ''a'' ''/a'' ''/x/a'' ''00'' 7"
  have c: "c_string ''a''" "c_string ''/a''" "c_string ''/x/a''" "c_string ''00''" "c_string ''/h/a''"
    "c_string ''/h/d/b''"
    by (simp_all add: c_string_def NAME_MAX_SIZE_def)
  have wf: "res_wf ?r" using c by (intro proper_wf proper_mk)
  have r: "res_ok ?r" "str_name ?r = ''a''" "has_uri ?r" "r_size ?r = 7"
    using c wf by (simp_all add: res_ok_def str_name_def has_uri_def)
  have "last_named [?r] ''a'' = Some ?r" using r by (simp add: last_named_def)
  moreover have "wanted_over ?r (file_entry sample_digester ''/h'' (''/h/a'', ''xy''))"
    using file_entry_str(5) [OF sample_digest_law c(5)] by (simp add: wanted_over_def r)
  moreover have "filename ''/h/d/b'' = ''b''" by (simp add: filename_def)
  ultimately show ?thesis
    using cmp_wants_exactly [OF sample_digest_law sample_scannable, of "[?r]" "''/''"] r(1,2)
    unfolding sample_files sample_home by auto
qed

section \<open>Storing received bytes\<close>

text \<open>
  A failed store is reported as a success: the unsigned result of the write is never below 0,
  so whenever the call returns it says true, also when the file could not be opened and nothing
  was written.
\<close>

theorem saveLocal_never_reports_failure:
  assumes "saveLocal cwd can_mkdir can_open wr uri data offset len lm (fs, dirs) = Some (Inr (ok, fs', dirs'))"
  shows "ok \<and> (\<not> can_open dirs' (lm_home lm @ uri) \<longrightarrow> fs' = fs)"
proof -
  let ?p = "resourcePosition uri lm"
  let ?pp = "parent_path (absolute cwd ?p)"
  let ?d = "if ?pp \<notin> dirs then dirs \<union> ancestors ?pp else dirs"
  from assms obtain ret where w: "writeFile (can_open ?d) wr ?p offset data len fs = Some (Inr (ret, fs'))"
    and d: "dirs' = ?d" and ok: "ok = (\<not> ret < 0)"
    unfolding saveLocal_def Let_def by (auto split: if_splits option.splits sum.splits)
  have "ok" using ok by simp
  moreover have "fs' = fs" if "\<not> can_open dirs' (lm_home lm @ uri)"
    using w that unfolding d by (simp add: writeFile_def resourcePosition_def)
  ultimately show ?thesis by blast
qed

theorem saveLocal_never_reports_failure_witness:
  "saveLocal ''/'' (\<lambda>_. True) (\<lambda>_ _. False) full_write ''/a'' ''xy'' 0 2 (RsLocalManager_new ''/h'')
     (\<lambda>_. None, {''/h''}) = Some (Inr (True, \<lambda>_. None, {''/h''}))"
proof -
  have s: "saveLocal ''/'' (\<lambda>_. True) (\<lambda>_ _. False) full_write ''/a'' ''xy'' 0 2 (RsLocalManager_new ''/h'')
     (\<lambda>_. None, {''/h''}) = Some (Inr (\<not> ((0 :: u64) < 0), \<lambda>_. None, {''/h''}))"
    by (simp add: saveLocal_def Let_def resourcePosition_def RsLocalManager_new_def absolute_def
        parent_path_def writeFile_def)
  show ?thesis using saveLocal_never_reports_failure [OF s] s by simp
qed

text \<open>The directories after a store: the parent of the file is among them.\<close>

definition dirs_for :: "string \<Rightarrow> string set \<Rightarrow> string set" where
  "dirs_for p dirs = (if p \<in> dirs then dirs else dirs \<union> ancestors p)"

lemma dirs_for_mono: "dirs \<subseteq> dirs_for p dirs" "p \<in> dirs_for p dirs"
  by (auto simp: dirs_for_def ancestors_def)

lemma saveLocal_full:
  fixes cwd lm uri dirs
  defines "p \<equiv> parent_path (absolute cwd (lm_home lm @ uri))"
  assumes "p \<in> dirs \<or> can_mkdir (parent_path (lm_home lm @ uri))" and "can_open (dirs_for p dirs) (lm_home lm @ uri)"
    and "unat offset + unat len < 2 ^ 63" and "len \<le> ONCE_MAX_READ_SIZE" and "unat len \<le> length data"
  shows "saveLocal cwd can_mkdir can_open full_write uri data offset len lm (fs, dirs) =
    Some (Inr (True, fs(lm_home lm @ uri := Some (let content = (case fs (lm_home lm @ uri) of None \<Rightarrow> [] | Some c \<Rightarrow> c) in
      if len = 0 then content else splice content (unat offset) (take (unat len) data))), dirs_for p dirs))"
  using assms(2) writeFile_full [where can_open = "can_open (dirs_for p dirs)" and fs = fs, OF assms(3-6)]
  unfolding p_def by (auto simp: saveLocal_def Let_def resourcePosition_def dirs_for_def)

end
