(* ===== verification/Task_Manager.thy ===== *)
theory Task_Manager
  imports Prelude "HOL-Library.Sublist"
begin

text \<open>
  \<open>AbsTask\<close> and \<open>TaskManager\<close> of \<open>modules/task/\<close>: the queue of tasks, the worker thread that
  \<open>start\<close> is, and the operations other threads call. Each operation holds the mutex, so an
  execution is a sequence of whole operations and worker steps; \<open>tm_step\<close> is that transition
  system. A task is its identifier and whatever its \<open>run\<close> does, which the state only records.
\<close>

section \<open>The queue\<close>

record 'p abs_task =
  task_id :: string
  task_body :: 'p

text \<open>\<open>AbsTask::getId\<close>.\<close>

definition getId :: "'p abs_task \<Rightarrow> string" where
  "getId t = task_id t"

text \<open>
  Where the worker thread is: at the test of \<open>stopFlg\<close>, in \<open>cond.wait\<close>, running a task, or gone
  (it has deleted the manager). \<open>tm_log\<close> is what it has run, which the code does not keep.
\<close>

datatype 'p worker = AtTest | InWait | Running "'p abs_task" | Exited

record 'p task_manager =
  stopFlg :: bool
  tasks :: "'p abs_task list"
  tm_worker :: "'p worker"
  tm_log :: "'p abs_task list"

definition TaskManager_new :: "'p task_manager" where
  "TaskManager_new = \<lparr>stopFlg = False, tasks = [], tm_worker = AtTest, tm_log = []\<rparr>"

definition addTask :: "'p abs_task \<Rightarrow> 'p task_manager \<Rightarrow> bool \<times> 'p task_manager" where
  "addTask t m =
     (if list_ex (\<lambda>tsk. getId tsk = getId t) (tasks m) then (False, m)
      else (True, m\<lparr>tasks := tasks m @ [t]\<rparr>))"

text \<open>
  \<open>rmTask\<close>: the loop compares the argument with itself, and goes on from the position behind the
  one it erased.
\<close>

function rm_walk :: "nat \<Rightarrow> 'p abs_task list \<Rightarrow> 'p abs_task list res" where
  "rm_walk i ts =
     (if i = length ts then Inr ts
      else if length ts < i then Inl BadIterator
      else rm_walk (i + 1) (take i ts @ drop (i + 1) ts))"
  by pat_completeness auto
termination by (relation "measure (\<lambda>(i, ts). length ts)") auto

declare rm_walk.simps [simp del]

definition rmTask :: "'p abs_task \<Rightarrow> 'p task_manager \<Rightarrow> 'p task_manager res" where
  "rmTask t m = rbind (rm_walk 0 (tasks m)) (\<lambda>ts. Inr (m\<lparr>tasks := ts\<rparr>))"

definition stop :: "'p task_manager \<Rightarrow> 'p task_manager" where
  "stop m = m\<lparr>stopFlg := True\<rparr>"

section \<open>The worker\<close>

datatype 'p tm_label = Add "'p abs_task" | Stop | Test | Take | Finish

inductive tm_step :: "'p tm_label \<Rightarrow> 'p task_manager \<Rightarrow> 'p task_manager \<Rightarrow> bool" where
  add: "tm_worker m \<noteq> Exited \<Longrightarrow> tm_step (Add t) m (snd (addTask t m))"
| stop: "tm_worker m \<noteq> Exited \<Longrightarrow> tm_step Stop m (stop m)"
| go: "tm_worker m = AtTest \<Longrightarrow> \<not> stopFlg m \<Longrightarrow> tm_step Test m (m\<lparr>tm_worker := InWait\<rparr>)"
| leave: "tm_worker m = AtTest \<Longrightarrow> stopFlg m \<Longrightarrow> tm_step Test m (m\<lparr>tm_worker := Exited\<rparr>)"
| take: "tm_worker m = InWait \<Longrightarrow> tasks m = t # ts \<Longrightarrow>
    tm_step Take m (m\<lparr>tasks := ts, tm_worker := Running t\<rparr>)"
| finish: "tm_worker m = Running t \<Longrightarrow>
    tm_step Finish m (m\<lparr>tm_worker := AtTest, tm_log := tm_log m @ [t]\<rparr>)"

inductive_cases tm_AddE: "tm_step (Add t) m m'"
inductive_cases tm_stepE: "tm_step x m m'"

inductive tm_run :: "'p tm_label list \<Rightarrow> 'p task_manager \<Rightarrow> 'p task_manager \<Rightarrow> bool" where
  nil: "tm_run [] m m"
| snoc: "tm_run xs m m' \<Longrightarrow> tm_step x m' m'' \<Longrightarrow> tm_run (xs @ [x]) m m''"

text \<open>The tasks \<open>addTask\<close> accepted along a run, in order.\<close>

definition current :: "'p task_manager \<Rightarrow> 'p abs_task list" where
  "current m = (case tm_worker m of Running t \<Rightarrow> [t] | _ \<Rightarrow> [])"

definition accepted :: "'p task_manager \<Rightarrow> 'p abs_task list" where
  "accepted m = tm_log m @ current m @ tasks m"

definition queue_inv :: "'p task_manager \<Rightarrow> bool" where
  "queue_inv m \<longleftrightarrow> distinct (map task_id (tasks m))"

lemma queue_inv_new [simp]: "queue_inv TaskManager_new"
  by (simp add: queue_inv_def TaskManager_new_def)

lemma list_ex_id: "list_ex (\<lambda>tsk. getId tsk = getId t) ts \<longleftrightarrow> task_id t \<in> task_id ` set ts"
  by (induction ts) (auto simp: getId_def)

lemma step_inv: "tm_step x m m' \<Longrightarrow> queue_inv m \<Longrightarrow> queue_inv m'"
  by (induction rule: tm_step.induct) (auto simp: queue_inv_def addTask_def stop_def list_ex_id)

lemma step_accepted:
  "tm_step x m m' \<Longrightarrow> accepted m' = accepted m @ (case x of Add t \<Rightarrow> if fst (addTask t m) then [t] else [] | _ \<Rightarrow> [])"
  by (induction rule: tm_step.induct) (auto simp: accepted_def current_def addTask_def stop_def)

fun accepts :: "'p tm_label list \<Rightarrow> 'p abs_task list" where
  "accepts [] = []"
| "accepts (Add t # xs) = t # accepts xs"
| "accepts (_ # xs) = accepts xs"

lemma run_inv: "tm_run xs m m' \<Longrightarrow> queue_inv m \<Longrightarrow> queue_inv m'"
  by (induction rule: tm_run.induct) (auto dest: step_inv)

lemma accepts_append [simp]: "accepts (xs @ ys) = accepts xs @ accepts ys"
  by (induction xs rule: accepts.induct) auto

lemma run_accepted:
  "tm_run xs m m' \<Longrightarrow> \<exists>ys. accepted m' = accepted m @ ys \<and> subseq ys (accepts xs)"
proof (induction rule: tm_run.induct)
  case (snoc xs m m' x m'')
  then obtain ys where ys: "accepted m' = accepted m @ ys" "subseq ys (accepts xs)" by auto
  let ?new = "case x of Add t \<Rightarrow> if fst (addTask t m') then [t] else [] | _ \<Rightarrow> []"
  have "subseq ?new (accepts [x])" by (cases x) auto
  then have "subseq (ys @ ?new) (accepts (xs @ [x]))" using ys(2) by (simp add: list_emb_append_mono)
  then show ?case using ys(1) step_accepted [OF snoc(2)] by auto
qed simp

lemma run_covers:
  "tm_run xs m m' \<Longrightarrow> t \<in> set (accepts xs) \<Longrightarrow> task_id t \<in> task_id ` set (accepted m')"
proof (induction rule: tm_run.induct)
  case (snoc xs m m' x m'')
  have a: "accepted m'' = accepted m' @ (case x of Add t \<Rightarrow> if fst (addTask t m') then [t] else [] | _ \<Rightarrow> [])"
    using snoc(2) by (rule step_accepted)
  show ?case
  proof (cases "t \<in> set (accepts xs)")
    case True
    then show ?thesis using snoc.IH a by auto
  next
    case False
    then have x: "x = Add t" using snoc.prems by (cases x) auto
    then show ?thesis using a by (auto simp: addTask_def list_ex_id accepted_def)
  qed
qed simp

section \<open>Properties\<close>

text \<open>
  C20: the queue runs what it accepts, in order, each task once: in every state a run reaches, the
  tasks finished, running and queued are, in this order, a subsequence of those added; for every
  added task there is one with its identifier among them; and no identifier is queued twice.
\<close>

theorem tasks_in_order:
  assumes "tm_run xs TaskManager_new m"
  shows "subseq (tm_log m @ current m @ tasks m) (accepts xs) \<and>
     task_id ` set (accepts xs) \<subseteq> task_id ` set (tm_log m @ current m @ tasks m) \<and>
     distinct (map task_id (tasks m))"
proof -
  have "accepted TaskManager_new = []" by (simp add: accepted_def current_def TaskManager_new_def)
  then have "subseq (accepted m) (accepts xs)" using run_accepted [OF assms] by (metis append_Nil)
  moreover have "queue_inv m" using run_inv [OF assms] by simp
  ultimately show ?thesis using run_covers [OF assms] by (auto simp: accepted_def queue_inv_def)
qed

definition sample_task :: "unit abs_task" where
  "sample_task = \<lparr>task_id = ''/a'', task_body = ()\<rparr>"

lemma sample_tm_run:
  "tm_run [Add sample_task] TaskManager_new (TaskManager_new\<lparr>tasks := [sample_task]\<rparr>)"
proof -
  have "tm_step (Add sample_task) TaskManager_new (snd (addTask sample_task TaskManager_new))"
    by (rule tm_step.add) (simp add: TaskManager_new_def)
  then have "tm_run ([] @ [Add sample_task]) TaskManager_new (snd (addTask sample_task TaskManager_new))"
    using tm_run.nil tm_run.snoc by blast
  then show ?thesis by (simp add: addTask_def TaskManager_new_def)
qed

theorem tasks_in_order_witness:
  "subseq [sample_task] (accepts [Add sample_task])"
  using tasks_in_order [OF sample_tm_run] by (simp add: TaskManager_new_def current_def)

text \<open>A worker that is not told to stop and finds tasks runs all of them.\<close>

lemma run_Cons: "tm_step x m m' \<Longrightarrow> tm_run xs m' m'' \<Longrightarrow> tm_run (x # xs) m m''"
proof (induction xs arbitrary: m'' rule: rev_induct)
  case Nil
  then have "m'' = m'" by (auto elim: tm_run.cases)
  with Nil show ?case using tm_run.snoc [OF tm_run.nil, of x m m'] by simp
next
  case (snoc y xs)
  from snoc.prems(2) obtain m1 where "tm_run xs m' m1" "tm_step y m1 m''"
    by (auto elim: tm_run.cases)
  then show ?case using snoc.IH [OF snoc.prems(1)] tm_run.snoc [of "x # xs" m m1 y m''] by simp
qed

lemma run_one_task:
  assumes "tm_worker m = AtTest" and "\<not> stopFlg m" and "tasks m = t # ts"
    and "tm_run xs (m\<lparr>tasks := ts, tm_log := tm_log m @ [t]\<rparr>) m'"
  shows "tm_run (Test # Take # Finish # xs) m m'"
proof -
  let ?m1 = "m\<lparr>tm_worker := InWait\<rparr>"
  let ?m2 = "?m1\<lparr>tasks := ts, tm_worker := Running t\<rparr>"
  have "tm_step Test m ?m1" using assms by (intro tm_step.go)
  moreover have "tm_step Take ?m1 ?m2" using assms by (intro tm_step.take) simp_all
  moreover have "tm_step Finish ?m2 (?m2\<lparr>tm_worker := AtTest, tm_log := tm_log ?m2 @ [t]\<rparr>)"
    by (intro tm_step.finish) simp
  moreover have "?m2\<lparr>tm_worker := AtTest, tm_log := tm_log ?m2 @ [t]\<rparr> = m\<lparr>tasks := ts, tm_log := tm_log m @ [t]\<rparr>"
    using assms(1) by simp
  ultimately show ?thesis using assms(4) by (metis run_Cons)
qed

text \<open>
  A worker that is not stopped drains its queue: test, wait and run, once per task, are
  possible steps that run every queued task in order and leave the queue empty.
\<close>

theorem worker_drains_queue:
  assumes "tm_worker m = AtTest" and "\<not> stopFlg m"
  shows "tm_run (concat (replicate (length (tasks m)) [Test, Take, Finish])) m
     (m\<lparr>tasks := [], tm_log := tm_log m @ tasks m\<rparr>)"
  using assms
proof (induction "tasks m" arbitrary: m)
  case Nil
  have "m\<lparr>tasks := [], tm_log := tm_log m @ tasks m\<rparr> = m" using Nil.hyps by (cases m) simp
  then show ?case using tm_run.nil [of m] Nil.hyps by (metis concat.simps(1) list.size(3) replicate_0)
next
  case (Cons t ts)
  let ?m = "m\<lparr>tasks := ts, tm_log := tm_log m @ [t]\<rparr>"
  have "tm_run (concat (replicate (length ts) [Test, Take, Finish])) ?m (m\<lparr>tasks := [], tm_log := tm_log m @ t # ts\<rparr>)"
    using Cons.hyps(1) [of ?m] Cons.prems by simp
  then show ?case using run_one_task [OF Cons.prems] by (simp flip: Cons.hyps(2))
qed

theorem worker_drains_queue_witness:
  "tm_run [Test, Take, Finish] (TaskManager_new\<lparr>tasks := [sample_task]\<rparr>) (TaskManager_new\<lparr>tm_log := [sample_task]\<rparr>)"
  using worker_drains_queue [of "TaskManager_new\<lparr>tasks := [sample_task]\<rparr>"]
  by (simp add: TaskManager_new_def)

text \<open>
  \<open>stop\<close> does not end a worker that waits for work: its wait condition looks at the queue
  only, so after \<open>stop\<close> the worker has no step at all until another task is added.
\<close>

theorem stop_strands_worker:
  "\<exists>m. tm_run [Test, Stop] (TaskManager_new :: 'p task_manager) m \<and> stopFlg m \<and> tm_worker m = InWait \<and>
     \<not> (\<exists>m'. tm_step Test m m') \<and> \<not> (\<exists>m'. tm_step Take m m') \<and> \<not> (\<exists>m'. tm_step Finish m m')"
proof -
  let ?m1 = "TaskManager_new\<lparr>tm_worker := InWait\<rparr> :: 'p task_manager"
  have "tm_step Test TaskManager_new ?m1" by (intro tm_step.go) (simp_all add: TaskManager_new_def)
  moreover have "tm_step Stop ?m1 (stop ?m1)" by (intro tm_step.stop) simp
  ultimately have "tm_run [Test, Stop] TaskManager_new (stop ?m1)"
    using run_Cons tm_run.nil by blast
  moreover have "\<not> tm_step x (stop ?m1) m'" if "x \<in> {Test, Take, Finish}" for x m'
    using that by (auto simp: stop_def TaskManager_new_def elim!: tm_stepE)
  ultimately show ?thesis by (intro exI [of _ "stop ?m1"]) (auto simp: stop_def)
qed

fun every_other :: "'a list \<Rightarrow> 'a list" where
  "every_other (x # y # zs) = y # every_other zs"
| "every_other _ = []"

lemma rm_walk_last: "rm_walk (length kept) (kept @ [x]) = Inl BadIterator"
proof -
  have "rm_walk (length kept) (kept @ [x]) = rm_walk (length kept + 1) kept"
    by (subst rm_walk.simps) simp
  also have "\<dots> = Inl BadIterator" by (subst rm_walk.simps) simp
  finally show ?thesis .
qed

lemma rm_walk_eq:
  "rm_walk (length kept) (kept @ todo) =
     (if even (length todo) then Inr (kept @ every_other todo) else Inl BadIterator)"
proof (induction todo arbitrary: kept rule: every_other.induct)
  case (1 x y zs)
  have "rm_walk (length kept) (kept @ x # y # zs) = rm_walk (length (kept @ [y])) ((kept @ [y]) @ zs)"
    by (subst rm_walk.simps) simp
  then show ?case using 1 [of "kept @ [y]"] by simp
next
  case "2_1"
  then show ?case by (subst rm_walk.simps) simp
next
  case "2_2"
  then show ?case by (simp add: rm_walk_last)
qed

text \<open>
  \<open>rmTask\<close> does not remove its task: of an even number of queued tasks it drops every other
  one, whatever their identifiers, and with an odd number it runs off the end of the queue.
\<close>

theorem rmTask_ignores_task:
  shows "rmTask t m =
     (if even (length (tasks m)) then Inr (m\<lparr>tasks := every_other (tasks m)\<rparr>) else Inl BadIterator)"
  using rm_walk_eq [of "[]" "tasks m"] by (simp add: rmTask_def)

end
