(* ===== verification/Sync_Node.thy ===== *)
theory Sync_Node
  imports Net_Trigger Content_Range Sync_Manager Local_Manager Task_Manager
begin

text \<open>
  The state of a running node and what handles its packets: \<open>modules/rs_manager.cpp\<close>,
  \<open>components/sync_io_read_monitor.cpp\<close>, \<open>logics/services/sync_service.cpp\<close>,
  \<open>logics/controllers/sync_controller.cpp\<close>, \<open>modules/task/req_rs_task.cpp\<close> and \<open>LocalPort\<close> of
  \<open>proto/lan_share_protocol.cpp\<close>.

  What the program takes from the machine it runs on is the record \<open>host\<close>; everything it keeps is
  the record \<open>node\<close>. A handler is one step: the event loop and the worker thread take turns.
\<close>

section \<open>The machine\<close>

record local_port =
  lp_name :: string
  lp_addr :: sockaddr_in
  lp_broad_addr :: sockaddr_in
  lp_subnet_mask :: sockaddr_in

text \<open>What the \<open>ioctl\<close> calls tell of an interface.\<close>

record iface =
  if_name :: string
  if_broadaddr :: sockaddr_in
  if_addr :: sockaddr_in
  if_netmask :: sockaddr_in

text \<open>
  \<open>LocalPort::query\<close>. The name is copied without its terminating NUL into an array that holds
  whatever lay on the stack (\<open>stack\<close>); an interface without a broadcast address is left out. The
  table of the kernel has room for ten interfaces.
\<close>

definition LocalPort_of :: "bytes \<Rightarrow> iface \<Rightarrow> local_port list res" where
  "LocalPort_of stack f =
     rbind (cstr_at (if_name f @ drop (length (if_name f)) stack) 0) (\<lambda>nm.
       Inr (if s_addr (if_broadaddr f) = 0 then []
            else [\<lparr>lp_name = nm, lp_addr = if_addr f, lp_broad_addr = if_broadaddr f,
                   lp_subnet_mask = if_netmask f\<rparr>]))"

definition LocalPort_query :: "bytes \<Rightarrow> iface list \<Rightarrow> local_port list res" where
  "LocalPort_query stack ifs =
     rfold (\<lambda>f ports. rbind (LocalPort_of stack f) (\<lambda>p. Inr (ports @ p))) (take 10 ifs) []"

fun existIp :: "local_port list \<Rightarrow> u32 \<Rightarrow> bool" where
  "existIp [] addr = False"
| "existIp (p # ps) addr = (if s_addr (lp_addr p) = addr then True else existIp ps addr)"

record host =
  h_sha3 :: "bytes \<Rightarrow> bytes"
  h_cwd :: string
  h_tree :: "file_system \<Rightarrow> string \<Rightarrow> fnode"
  h_access :: "string \<Rightarrow> bool"
  h_read :: "file_system \<Rightarrow> string \<Rightarrow> transfer"
  h_write :: transfer
  h_mkdir :: "string \<Rightarrow> bool"
  h_open :: "string set \<Rightarrow> string \<Rightarrow> bool"
  h_time :: u64
  h_draw :: "nat \<Rightarrow> nat"
  h_connect :: "net_addr \<Rightarrow> bool"
  h_udp :: "net_addr \<Rightarrow> bool"
  h_ntoa :: "u32 \<Rightarrow> string"
  h_aton :: "string \<Rightarrow> u32 option"
  h_ports :: "local_port list"

text \<open>
  What hashing a file takes from the machine; \<open>h_access\<close> says which files can be opened for reading. On a
  machine that keeps \<open>host_law\<close> digests have 64 bytes and \<open>read\<close> makes progress.
\<close>

definition host_digester :: "host \<Rightarrow> file_system \<Rightarrow> digester" where
  "host_digester h fs =
     \<lparr>dg_sha3 = h_sha3 h, dg_open = h_access h, dg_read = (\<lambda>p c. h_read h (fs(p \<mapsto> c)) p)\<rparr>"

definition host_law :: "host \<Rightarrow> bool" where
  "host_law h \<longleftrightarrow> (\<forall>bs. length (h_sha3 h bs) = 64) \<and> (\<forall>fs p c. fs p = Some c \<longrightarrow> read_law (h_read h fs p) c)"

lemma host_digest_law: "host_law h \<Longrightarrow> digest_law (host_digester h fs)"
  by (simp add: host_law_def host_digester_def digest_law_def)

lemma digest_of_host: "digest_of (host_digester h fs) p c = hexdump (h_sha3 h (if h_access h p then c else []))"
  by (simp add: digest_of_def host_digester_def)

section \<open>The node\<close>

text \<open>\<open>rsm\<close> of \<open>rs_manager.cpp\<close>: \<open>cleanup\<close> deletes the object and leaves the pointer.\<close>

datatype rsm_ptr = NoManager | Manager sync_manager | DeletedManager

record node =
  nd_trig :: triggers
  nd_rlm :: local_manager
  nd_rsm :: rsm_ptr
  nd_fs :: file_system
  nd_dirs :: "string set"
  nd_tasks :: "string task_manager"
  nd_config :: config_manager

definition nd_fw :: "node \<Rightarrow> net_fw" where
  "nd_fw nd = tr_fw (nd_trig nd)"

definition set_fw :: "net_fw \<Rightarrow> node \<Rightarrow> node" where
  "set_fw fw nd = nd\<lparr>nd_trig := (nd_trig nd)\<lparr>tr_fw := fw\<rparr>\<rparr>"

definition ResourceManager_init :: "string \<Rightarrow> node \<Rightarrow> node" where
  "ResourceManager_init home nd =
     (if length home = 0 then nd
      else nd\<lparr>nd_rlm := RsLocalManager_new home, nd_rsm := Manager sync_manager_init\<rparr>)"

definition ResourceManager_cleanup :: "node \<Rightarrow> node" where
  "ResourceManager_cleanup nd =
     nd\<lparr>nd_rlm := setRsHomePath [] (nd_rlm nd), nd_rsm := (if nd_rsm nd = NoManager then NoManager else DeletedManager)\<rparr>"

definition getRsLocalManager :: "node \<Rightarrow> local_manager res" where
  "getRsLocalManager nd = (if lm_home (nd_rlm nd) = [] then Inl ProcessExit else Inr (nd_rlm nd))"

definition getRsSyncManager :: "node \<Rightarrow> sync_manager res" where
  "getRsSyncManager nd =
     (case nd_rsm nd of NoManager \<Rightarrow> Inl ProcessExit | Manager m \<Rightarrow> Inr m | DeletedManager \<Rightarrow> Inl UseAfterFree)"

text \<open>A \<open>write\<close> whose exception no caller catches.\<close>

definition write_or_throw :: "nat \<Rightarrow> bytes \<Rightarrow> node \<Rightarrow> node res" where
  "write_or_throw i bs nd =
     rbind (ctx_write i bs (nd_fw nd)) (\<lambda>(sent, fw). if sent then Inr (set_fw fw nd) else Inl Uncaught)"

section \<open>SyncService\<close>

definition handleHello :: "nat \<Rightarrow> node \<Rightarrow> node res" where
  "handleHello i nd =
     rbind (config_query CONFIG_KEY_PROTO_SYNC_SERVER_TCP_PORT (nd_config nd)) (\<lambda>(port, cfg).
     rbind (LanSyncPkt_write (addXheader XHEADER_TCPPORT port
              (LanSyncPkt_new LAN_SYNC_VER_0_1 LAN_SYNC_TYPE_HELLO_ACK))) (\<lambda>bs.
       write_or_throw i bs (nd\<lparr>nd_config := cfg\<rparr>)))"

definition handleHelloAck :: "host \<Rightarrow> lan_sync_pkt \<Rightarrow> nat \<Rightarrow> node \<Rightarrow> node res" where
  "handleHelloAck h pkt i nd =
     (let peer_tcp_port_str = fst (queryXheader XHEADER_TCPPORT pkt) in
      if length peer_tcp_port_str = 0 then Inr nd
      else
        rbind (atoi peer_tcp_port_str) (\<lambda>n.
        rbind (ctx_getPeer i (nd_fw nd)) (\<lambda>peer.
          (let peer_tcp_port = word_of_int n :: u16; addr = setPort (uint peer_tcp_port) peer
           in rbind (mod_conn_send (h_ntoa h) (h_connect h addr) Service MODULE_NAME_PERIOD_REQ_TB_IDX
                       MODULE_CONN_URI_PERIOD_REQ_TB_IDX_ADD (AddrPtr addr) (nd_trig nd)) (\<lambda>ts.
                Inr (nd\<lparr>nd_trig := ts\<rparr>))))))"

text \<open>The entries \<open>vecToArr\<close> dereferences.\<close>

definition deref_all :: "resource option list \<Rightarrow> resource list res" where
  "deref_all rs = rfold (\<lambda>r acc. case r of None \<Rightarrow> Inl NullDeref | Some x \<Rightarrow> Inr (acc @ [x])) rs []"

definition handleReqTableIndex :: "host \<Rightarrow> nat \<Rightarrow> node \<Rightarrow> node res" where
  "handleReqTableIndex h i nd =
     rbind (getRsLocalManager nd) (\<lambda>rlm.
     rbind (getTable (host_digester h (nd_fs nd)) (h_cwd h) (h_tree h (nd_fs nd)) rlm) (\<lambda>(ptrs, rlm').
     rbind (deref_all ptrs) (\<lambda>table.
     rbind (vecToArr table) (\<lambda>reply_table.
     rbind (LanSyncPkt_write (setData reply_table
              (LanSyncPkt_new LAN_SYNC_VER_0_1 LAN_SYNC_TYPE_REPLY_TABLE_INDEX))) (\<lambda>bs.
       write_or_throw i bs (nd\<lparr>nd_rlm := rlm'\<rparr>))))))"

text \<open>
  \<open>SyncIOReadMonitor::monitor\<close>. When \<open>write\<close> throws, the context has deleted itself; \<open>readSize\<close>
  catches the exception and goes on with the next chunk.
\<close>

definition SyncIOReadMonitor_monitor ::
    "nat \<Rightarrow> resource \<Rightarrow> range_req \<Rightarrow> u64 \<Rightarrow> bytes \<Rightarrow> net_fw \<Rightarrow> net_fw res" where
  "SyncIOReadMonitor_monitor i rs rng from_pos chunk fw =
     rbind (arr_str (r_hash rs)) (\<lambda>hash.
     rbind (arr_str (r_uri rs)) (\<lambda>uri.
     rbind (read_init (rg_start_pos rng)) (\<lambda>range_start.
       (let data_len = of_nat (length chunk);
            cr = ContentRange_new from_pos data_len (r_size rs)
                   (range_start + rg_size rng = from_pos + data_len)
        in
        rbind (ContentRange_to_string cr) (\<lambda>crs.
        rbind (LanSyncPkt_write (setData chunk (addXheader XHEADER_CONTENT_RANGE crs
                 (addXheader XHEADER_URI uri (addXheader XHEADER_HASH hash
                   (LanSyncPkt_new LAN_SYNC_VER_0_1 LAN_SYNC_TYPE_REPLY_RESOURCE)))))) (\<lambda>bs.
        rbind (ctx_write i bs fw) (\<lambda>(sent, fw'). Inr fw')))))))"

definition handleReqResource :: "host \<Rightarrow> lan_sync_pkt \<Rightarrow> nat \<Rightarrow> node \<Rightarrow> node res option" where
  "handleReqResource h pkt i nd =
     (case rbind (Range_of (fst (queryXheader XHEADER_RANGE pkt))) (\<lambda>rng.
           rbind (Range_to_string rng) (\<lambda>range_txt.
           rbind (getRsLocalManager nd) (\<lambda>rlm.
           rbind (read_init (rg_start_pos rng)) (\<lambda>start_pos.
             (case queryByUri (c_str (fst (queryXheader XHEADER_URI pkt))) (lm_table rlm) of (rs, tbl) \<Rightarrow>
                Inr (rng, start_pos, rs, nd\<lparr>nd_rlm := rlm\<lparr>lm_table := tbl\<rparr>\<rparr>)))))) of
        Inl e \<Rightarrow> Some (Inl e)
      | Inr (rng, start_pos, rs, nd') \<Rightarrow>
          (case rs of
             None \<Rightarrow> Some (Inr nd')
           | Some r \<Rightarrow>
               (case arr_str (r_path r) of
                  Inl e \<Rightarrow> Some (Inl e)
                | Inr path \<Rightarrow>
                    (case readSize (opened (h_access h) (nd_fs nd')) (h_read h (nd_fs nd') path)
                            [SyncIOReadMonitor_monitor i r rng] path start_pos (rg_size rng)
                            (nd_fw nd') of
                       None \<Rightarrow> None
                     | Some (Inl e) \<Rightarrow> Some (Inl e)
                     | Some (Inr (_, fw)) \<Rightarrow> Some (Inr (set_fw fw nd'))))))"

definition refreshSyncingRsByTbIdx ::
    "host \<Rightarrow> file_system \<Rightarrow> net_addr \<Rightarrow> resource list \<Rightarrow> local_manager \<times> sync_manager \<Rightarrow>
     (local_manager \<times> sync_manager) res" where
  "refreshSyncingRsByTbIdx h fs peer table s =
     (case s of (rlm, rsm) \<Rightarrow>
        rbind (cmpThenRetNeedToSyncTable (host_digester h fs) (h_cwd h) (h_tree h fs) table rlm) (\<lambda>(need, rlm').
        rbind (rfold (\<lambda>r m. rbind (arr_str (r_uri r)) (\<lambda>uri. rbind (arr_str (r_hash r)) (\<lambda>hash.
                 rbind (regSyncRs peer uri hash (r_size r) m) (\<lambda>(_, m'). Inr m')))) need rsm) (\<lambda>rsm'.
          Inr (rlm', rsm'))))"

text \<open>\<open>add_req_task\<close> walks the live map; \<open>getSyncingSize\<close> of a key that is there adds nothing.\<close>

definition add_req_task :: "node \<Rightarrow> node res" where
  "add_req_task nd =
     rbind (getRsSyncManager nd) (\<lambda>rsm.
       Inr (foldl (\<lambda>nd (uri, rs).
              (case getSyncingSize uri rsm of (n, rsm') \<Rightarrow>
                 if n < of_nat DOWNLOAD_LIMIT
                 then nd\<lparr>nd_tasks := snd (addTask \<lparr>task_id = uri, task_body = uri\<rparr> (nd_tasks nd))\<rparr>
                 else nd)) nd (getAllUriRs rsm)))"

definition handleReplyTableIndex :: "host \<Rightarrow> lan_sync_pkt \<Rightarrow> nat \<Rightarrow> node \<Rightarrow> node res" where
  "handleReplyTableIndex h pkt i nd =
     (let res_size = unat (getDataLen pkt) div SIZEOF_RESOURCE in
      rbind (load_table (data_of pkt) res_size) (\<lambda>table.
      rbind (getRsSyncManager nd) (\<lambda>rsm.
      rbind (ctx_getPeer i (nd_fw nd)) (\<lambda>peer.
      rbind (refreshSyncingRsByTbIdx h (nd_fs nd) peer table (nd_rlm nd, rsm)) (\<lambda>(rlm', rsm').
        add_req_task (nd\<lparr>nd_rlm := rlm', nd_rsm := Manager rsm'\<rparr>))))))"

text \<open>
  \<open>handleReplyResource\<close>: the bytes are taken from the receive buffer \<open>mem\<close> behind the header of
  the packet, as many as the content range says.
\<close>

definition handleReplyResource :: "host \<Rightarrow> bytes \<Rightarrow> lan_sync_pkt \<Rightarrow> nat \<Rightarrow> node \<Rightarrow> node res option" where
  "handleReplyResource h mem pkt i nd =
     (let uri = fst (queryXheader XHEADER_URI pkt) in
      if uri = [] then Some (Inr nd)
      else
        (case rbind (ContentRange_of (fst (queryXheader XHEADER_CONTENT_RANGE pkt))) (\<lambda>cr.
              rbind (ContentRange_to_string cr) (\<lambda>cr_txt.
              rbind (getRsSyncManager nd) (\<lambda>rsm.
              rbind (getRsLocalManager nd) (\<lambda>rlm. Inr (cr, rsm, rlm))))) of
           Inl e \<Rightarrow> Some (Inl e)
         | Inr (cr, rsm, rlm) \<Rightarrow>
             (let b = Block (cr_start_pos cr) (cr_start_pos cr + cr_size cr) in
              case saveLocal (h_cwd h) (h_mkdir h) (h_open h) (h_write h) uri
                     (drop (unat (header_len pkt)) mem) (cr_start_pos cr) (cr_size cr) rlm (nd_fs nd, nd_dirs nd) of
                None \<Rightarrow> None
              | Some (Inl e) \<Rightarrow> Some (Inl e)
              | Some (Inr (write_ret, fs, dirs)) \<Rightarrow>
                  (let nd1 = nd\<lparr>nd_fs := fs, nd_dirs := dirs\<rparr> in
                   Some (rbind (ctx_getPeer i (nd_fw nd1)) (\<lambda>peer.
                     if \<not> write_ret then
                       rbind (unregReqSyncRsByBlock peer b uri rsm) (\<lambda>rsm'.
                         add_req_task (nd1\<lparr>nd_rsm := Manager rsm'\<rparr>))
                     else
                       rbind (syncingRangeDoneAndValid (validRes (host_digester h fs) (h_cwd h) (h_tree h fs))
                                peer uri b True (rlm, rsm)) (\<lambda>(rlm', rsm').
                         add_req_task (nd1\<lparr>nd_rlm := rlm', nd_rsm := Manager rsm'\<rparr>))))))))"

definition SyncService_exit :: "node \<Rightarrow> node" where
  "SyncService_exit nd = set_fw (fw_cleanup (nd_fw nd)) (nd\<lparr>nd_tasks := stop (nd_tasks nd)\<rparr>)"

section \<open>SyncController\<close>

text \<open>
  A packet the constructor rejected has no type and no data pointer: the log statement reads the
  one, the destructor frees the other. In the \<open>RELEASE\<close> build packets from an address of the
  machine itself are dropped.
\<close>

definition received :: "host \<Rightarrow> bytes \<Rightarrow> nat \<Rightarrow> node \<Rightarrow> lan_sync_pkt option res option" where
  "received h mem i nd =
     map_option (\<lambda>r. rbind r (\<lambda>p.
       case p of
         Rejected \<Rightarrow> Inl Uninitialised
       | Parsed pkt \<Rightarrow>
           rbind (ctx_getPeer i (nd_fw nd)) (\<lambda>peer.
             Inr (if existIp (h_ports h) (s_addr (getBeAddr peer)) then None else Some pkt))))
       (LanSyncPkt_parse mem)"

definition recv_udp :: "host \<Rightarrow> nat \<Rightarrow> bytes \<Rightarrow> u64 \<Rightarrow> node \<Rightarrow> node res option" where
  "recv_udp h i mem data_len nd =
     (case received h mem i nd of
        None \<Rightarrow> None
      | Some (Inl e) \<Rightarrow> Some (Inl e)
      | Some (Inr None) \<Rightarrow> Some (Inr nd)
      | Some (Inr (Some pkt)) \<Rightarrow>
          (if pkt_type pkt = LAN_SYNC_TYPE_HELLO then Some (handleHello i nd)
           else if pkt_type pkt = LAN_SYNC_TYPE_HELLO_ACK then Some (handleHelloAck h pkt i nd)
           else Some (Inr nd)))"

definition recv_tcp :: "host \<Rightarrow> nat \<Rightarrow> bytes \<Rightarrow> u64 \<Rightarrow> node \<Rightarrow> node res option" where
  "recv_tcp h i mem data_len nd =
     (case received h mem i nd of
        None \<Rightarrow> None
      | Some (Inl e) \<Rightarrow> Some (Inl e)
      | Some (Inr None) \<Rightarrow> Some (Inr nd)
      | Some (Inr (Some pkt)) \<Rightarrow>
          (if pkt_type pkt = LAN_SYNC_TYPE_GET_TABLE_INDEX then Some (handleReqTableIndex h i nd)
           else if pkt_type pkt = LAN_SYNC_TYPE_GET_RESOURCE then handleReqResource h pkt i nd
           else if pkt_type pkt = LAN_SYNC_TYPE_REPLY_TABLE_INDEX then Some (handleReplyTableIndex h pkt i nd)
           else if pkt_type pkt = LAN_SYNC_TYPE_REPLY_RESOURCE then handleReplyResource h mem pkt i nd
           else if pkt_type pkt = LAN_SYNC_TYPE_EXIT then Some (Inr (SyncService_exit nd))
           else Some (Inr nd)))"

section \<open>ReqRsTask\<close>

text \<open>
  \<open>sendRsReq\<close> to a context, which \<open>idx[peer]\<close> may have made up as a null pointer. A context whose
  \<open>write\<close> threw has deleted itself, and is deleted again.
\<close>

definition sendRsReq :: "string \<Rightarrow> nat option \<Rightarrow> block \<Rightarrow> node \<Rightarrow> node res" where
  "sendRsReq uri ctx b nd =
     rbind (Range_to_string (Range_new (b_start b) (b_end b - b_start b))) (\<lambda>range_hdr.
     rbind (LanSyncPkt_write (addXheader XHEADER_RANGE range_hdr (addXheader XHEADER_URI uri
              (LanSyncPkt_new LAN_SYNC_VER_0_1 LAN_SYNC_TYPE_GET_RESOURCE)))) (\<lambda>bs.
       (case ctx of
          None \<Rightarrow> Inl NullDeref
        | Some i \<Rightarrow>
            rbind (ctx_getPeer i (nd_fw nd)) (\<lambda>peer.
            rbind (ctx_write i bs (nd_fw nd)) (\<lambda>(sent, fw).
              if sent then Inr (set_fw fw nd)
              else
                rbind (getRsSyncManager nd) (\<lambda>rsm.
                rbind (unregAllReqSyncRsByPeer peer uri rsm) (\<lambda>rsm'.
                rbind (ctx_delete i fw) (\<lambda>fw'.
                  Inr (set_fw fw' (nd\<lparr>nd_rsm := Manager rsm'\<rparr>))))))))))"

definition ReqRsTask_run :: "host \<Rightarrow> string \<Rightarrow> node \<Rightarrow> node res" where
  "ReqRsTask_run h uri nd =
     rbind (getAllTcpSession (nd_fw nd)) (\<lambda>idx.
     rbind (getRsSyncManager nd) (\<lambda>rsm.
       (let rs = uri_entry uri rsm;
            (owner_size, rsm1) = getOwnerSize uri (set_entry uri rs rsm);
            (block_size, rsm2) = getBlockSize uri rsm1;
            (syncing_size, rsm3) = getSyncingSize uri rsm2
        in if owner_size = 0 \<or> block_size = 0 \<or> of_nat DOWNLOAD_LIMIT \<le> syncing_size
           then Inr (nd\<lparr>nd_rsm := Manager rsm3\<rparr>)
           else
             rbind (vec_at (elems (rs_owner rs)) (h_draw h (unat owner_size))) (\<lambda>peer.
               (case regReqSyncRsAuto peer uri (h_time h) rsm3 of (b, rsm4) \<Rightarrow>
                  (let nd' = nd\<lparr>nd_rsm := Manager rsm4\<rparr> in
                   if b_end b \<noteq> 0 then sendRsReq uri (fst (sm_index addr_less None peer (map (map_prod id Some) idx))) b nd'
                   else Inr nd'))))))"

end
