(* ===== verification/Net_Dispatch.thy ===== *)
theory Net_Dispatch
  imports Sync_Node
begin

text \<open>
  How bytes that libevent has read reach a handler: the endpoints of \<open>net/network_layer.cpp\<close>,
  the containers of \<open>net/net_logic_container.cpp\<close> that tie a connection to a logic, the two
  logics of \<open>net/abst_net_logic.cpp\<close>, and the per-packet context of
  \<open>components/sync_network_conn_ctx.cpp\<close>. The callbacks of \<open>Net_Framework\<close> are composed here
  with the handlers of \<open>Sync_Node\<close>.
\<close>

section \<open>Endpoints\<close>

text \<open>
  A socket number of 0 and a null event mean that there is none. What the destructors give back
  to the system is the log \<open>os\<close>.
\<close>

record net_ability =
  na_addr :: net_addr
  na_sock :: int
  na_event :: "nat option"

record os_log =
  os_closed :: "int list"
  os_freed :: "nat list"

definition NetAbility_new :: "net_addr \<Rightarrow> net_ability" where
  "NetAbility_new a = \<lparr>na_addr = a, na_sock = 0, na_event = None\<rparr>"

definition na_setSock :: "int \<Rightarrow> net_ability \<Rightarrow> net_ability" where
  "na_setSock s ne = ne\<lparr>na_sock := s\<rparr>"

definition na_getAddr :: "net_ability \<Rightarrow> net_addr" where
  "na_getAddr ne = na_addr ne"

definition na_setEvent :: "nat \<Rightarrow> net_ability \<Rightarrow> net_ability" where
  "na_setEvent e ne = ne\<lparr>na_event := Some e\<rparr>"

definition NetAbility_destroy :: "net_ability \<Rightarrow> os_log \<Rightarrow> os_log" where
  "NetAbility_destroy ne os =
     (if 0 < na_sock ne then os\<lparr>os_closed := os_closed os @ [na_sock ne]\<rparr> else os)"

text \<open>The destructor of the derived class runs first: the event goes before the socket.\<close>

definition NetAbilityImpl_destroy :: "net_ability \<Rightarrow> os_log \<Rightarrow> os_log" where
  "NetAbilityImpl_destroy ne os =
     NetAbility_destroy ne
       (case na_event ne of None \<Rightarrow> os | Some e \<Rightarrow> os\<lparr>os_freed := os_freed os @ [e]\<rparr>)"

section \<open>Logics and containers\<close>

datatype logic = Logic_Udp | Logic_Tcp

definition LogicTcp_recv :: "host \<Rightarrow> nat \<Rightarrow> bytes \<Rightarrow> u64 \<Rightarrow> node \<Rightarrow> node res option" where
  "LogicTcp_recv h i mem n nd = recv_tcp h i mem n nd"

definition LogicUdp_recv :: "host \<Rightarrow> nat \<Rightarrow> bytes \<Rightarrow> u64 \<Rightarrow> node \<Rightarrow> node res option" where
  "LogicUdp_recv h i mem n nd = recv_udp h i mem n nd"

fun logic_recv :: "host \<Rightarrow> logic \<Rightarrow> nat \<Rightarrow> bytes \<Rightarrow> u64 \<Rightarrow> node \<Rightarrow> node res option" where
  "logic_recv h Logic_Udp = LogicUdp_recv h"
| "logic_recv h Logic_Tcp = LogicTcp_recv h"

text \<open>
  A client container has a pointer to its connection that no constructor sets (\<open>None\<close>);
  \<open>setCtx\<close> may also set it to null (\<open>Some None\<close>).
\<close>

record cli_container =
  cc_ability :: net_ability
  cc_net_ctx :: "nat option option"
  cc_logic :: logic

record srv_container =
  sc_ability :: net_ability
  sc_logic :: logic

definition NetCliLogicContainer_new :: "net_addr \<Rightarrow> logic \<Rightarrow> cli_container" where
  "NetCliLogicContainer_new a l = \<lparr>cc_ability = NetAbility_new a, cc_net_ctx = None, cc_logic = l\<rparr>"

definition NetSrvLogicContainer_new :: "net_addr \<Rightarrow> logic \<Rightarrow> srv_container" where
  "NetSrvLogicContainer_new a l = \<lparr>sc_ability = NetAbility_new a, sc_logic = l\<rparr>"

definition cc_setCtx :: "nat option \<Rightarrow> cli_container \<Rightarrow> cli_container" where
  "cc_setCtx i c = c\<lparr>cc_net_ctx := Some i\<rparr>"

definition cc_getConnCtx :: "cli_container \<Rightarrow> nat res" where
  "cc_getConnCtx c =
     rbind (read_init (cc_net_ctx c)) (\<lambda>i. case i of None \<Rightarrow> Inl NullDeref | Some i \<Rightarrow> Inr i)"

definition NetCliLogicContainer_destroy ::
    "cli_container \<Rightarrow> net_fw \<times> os_log \<Rightarrow> (net_fw \<times> os_log) res" where
  "NetCliLogicContainer_destroy c s =
     (case s of (fw, os) \<Rightarrow>
        rbind (read_init (cc_net_ctx c)) (\<lambda>i.
        rbind (case i of None \<Rightarrow> Inr fw | Some i \<Rightarrow> ctx_delete i fw) (\<lambda>fw'.
          Inr (fw', NetAbilityImpl_destroy (cc_ability c) os))))"

definition NetCliLogicContainer_recv ::
    "host \<Rightarrow> cli_container \<Rightarrow> nat \<Rightarrow> bytes \<Rightarrow> u64 \<Rightarrow> node \<Rightarrow> node res option" where
  "NetCliLogicContainer_recv h c = logic_recv h (cc_logic c)"

definition NetSrvLogicContainer_recv ::
    "host \<Rightarrow> srv_container \<Rightarrow> nat \<Rightarrow> bytes \<Rightarrow> u64 \<Rightarrow> node \<Rightarrow> node res option" where
  "NetSrvLogicContainer_recv h c = logic_recv h (sc_logic c)"

definition NetCliLogicContainer_isExtra :: "cli_container \<Rightarrow> bytes \<Rightarrow> u64 \<Rightarrow> u64 res" where
  "NetCliLogicContainer_isExtra c mem n = isExtraAllDataNow mem n"

definition NetSrvLogicContainer_isExtra :: "srv_container \<Rightarrow> bytes \<Rightarrow> u64 \<Rightarrow> u64 res" where
  "NetSrvLogicContainer_isExtra c mem n = isExtraAllDataNow mem n"

text \<open>
  A connection that could not be made is given back by \<open>delete\<close>, which reads the pointer no one
  has set; once the pointer is set, a container and its connection go together.
\<close>

lemma destroy_unset:
  "NetCliLogicContainer_destroy (NetCliLogicContainer_new a l) s = Inl Uninitialised"
  by (simp add: NetCliLogicContainer_destroy_def NetCliLogicContainer_new_def split: prod.splits)

lemma destroy_connected:
  assumes "NetCliLogicContainer_destroy (cc_setCtx (Some i) c) (fw, os) = Inr (fw', os')"
  shows "ctx_heap fw' i = None"
  using assms ctx_delete_gone
  by (auto simp: NetCliLogicContainer_destroy_def cc_setCtx_def rbind_Inr_iff)

section \<open>The context of a packet\<close>

record sync_ctx =
  sn_nctx :: nat
  sn_pkt :: lan_sync_pkt

definition sync_queryXheader :: "string \<Rightarrow> sync_ctx \<Rightarrow> string \<times> sync_ctx" where
  "sync_queryXheader key c = (case queryXheader key (sn_pkt c) of (v, p) \<Rightarrow> (v, c\<lparr>sn_pkt := p\<rparr>))"

definition sync_getPktInfo :: "sync_ctx \<Rightarrow> lan_sync_pkt" where
  "sync_getPktInfo c = sn_pkt c"

definition sync_write :: "sync_ctx \<Rightarrow> bytes \<Rightarrow> net_fw \<Rightarrow> (bool \<times> net_fw) res" where
  "sync_write c bs fw = ctx_write (sn_nctx c) bs fw"

definition sync_getPeer :: "sync_ctx \<Rightarrow> net_fw \<Rightarrow> net_addr res" where
  "sync_getPeer c fw = ctx_getPeer (sn_nctx c) fw"

definition sync_setNetAddr :: "sync_ctx \<Rightarrow> net_addr \<Rightarrow> net_fw \<Rightarrow> net_fw res" where
  "sync_setNetAddr c a fw = ctx_setNetAddr (sn_nctx c) a fw"

definition sync_isActive :: "sync_ctx \<Rightarrow> net_fw \<Rightarrow> bool res" where
  "sync_isActive c fw = ctx_isActive (sn_nctx c) fw"

definition sync_setActive :: "sync_ctx \<Rightarrow> bool \<Rightarrow> net_fw \<Rightarrow> net_fw res" where
  "sync_setActive c st fw = ctx_setActive (sn_nctx c) st fw"

section \<open>From the callbacks to the handlers\<close>

text \<open>
  The endpoint of a context, known by its logic: \<open>main\<close> and the connection set-ups give every
  UDP context a container of the UDP logic, and every TCP context one of the TCP logic.
\<close>

definition getNetworkEndpoint :: "nat \<Rightarrow> net_fw \<Rightarrow> logic res" where
  "getNetworkEndpoint i fw = rbind (ctx_at i fw) (\<lambda>c. Inr (if ctx_udp c then Logic_Udp else Logic_Tcp))"

definition endpoint_recv :: "host \<Rightarrow> nat \<Rightarrow> bytes \<Rightarrow> u64 \<Rightarrow> node \<Rightarrow> node res" where
  "endpoint_recv h i mem n nd =
     rbind (getNetworkEndpoint i (nd_fw nd)) (\<lambda>l. returned (logic_recv h l i mem n nd))"

definition tcp_input :: "host \<Rightarrow> nat \<Rightarrow> bytes \<Rightarrow> node \<Rightarrow> (bytes \<times> node) res" where
  "tcp_input h i inbuf nd = read_cb isExtraAllDataNow (endpoint_recv h i) inbuf nd"

definition udp_input :: "host \<Rightarrow> nat \<Rightarrow> sockaddr_in \<Rightarrow> bytes option \<Rightarrow> node \<Rightarrow> node res" where
  "udp_input h i src datagram nd =
     udp_read_cb (\<lambda>mem n nd.
         rbind (fromBe (h_aton h) (h_ntoa h) src) (\<lambda>a.
         rbind (ctx_setNetAddr i a (nd_fw nd)) (\<lambda>fw.
           endpoint_recv h i mem n (set_fw fw nd)))) datagram nd"

section \<open>The event loop\<close>

record event_loop =
  el_base :: bool
  el_break :: bool

definition fw_init :: "event_loop \<Rightarrow> event_loop" where
  "fw_init el = el\<lparr>el_base := True\<rparr>"

definition init_check :: "event_loop \<Rightarrow> unit res" where
  "init_check el = (if \<not> el_base el then Inl ProcessExit else Inr ())"

text \<open>\<open>run\<close> hands over to libevent (\<open>dispatch\<close>, which ends when the loop is broken off).\<close>

definition fw_run :: "(event_loop \<Rightarrow> 's \<Rightarrow> 's res) \<Rightarrow> event_loop \<Rightarrow> 's \<Rightarrow> 's res" where
  "fw_run dispatch el s = rbind (init_check el) (\<lambda>_. dispatch el s)"

definition fw_shutdown :: "event_loop \<times> net_fw \<Rightarrow> event_loop \<times> net_fw" where
  "fw_shutdown s = (case s of (el, fw) \<Rightarrow> (el\<lparr>el_break := True\<rparr>, fw_cleanup fw))"

definition fw_free :: "net_fw \<Rightarrow> net_fw" where
  "fw_free fw = fw_cleanup fw"

definition write_cb :: "'s \<Rightarrow> 's" where
  "write_cb s = s"

lemma fw_free_sessions: "getAllTcpSession (fw_free fw) = Inr []"
  by (cases "tcp_ctx fw") (simp_all add: fw_free_def fw_cleanup_def getAllTcpSession_def)

end
