(* ===== verification/Sync_Fetch.thy ===== *)
theory Sync_Fetch
  imports Sync_Manager
begin

text \<open>
  What the synchronisation manager promises. Abstractly, every block of a resource is free, being
  fetched by one peer, or gone (fetched, or not part of the resource), and each operation moves
  blocks between these states; \<open>status_step\<close> is that machine. The operations on an entry are
  shown to compute it, the manager to implement it, and the run-time properties follow.
\<close>

section \<open>The abstract machine\<close>

datatype status = Free | Fetching net_addr | Gone

type_synonym board = "string \<Rightarrow> block \<Rightarrow> status"

definition fresh_status :: "u64 \<Rightarrow> block \<Rightarrow> status" where
  "fresh_status sz b = (if b \<in> set (initial_blocks sz) then Free else Gone)"

inductive status_step :: "mgr_op \<Rightarrow> board \<Rightarrow> board \<Rightarrow> bool" where
  keep: "status_step (Register peer uri hash sz) s s"
| fresh: "status_step (Register peer uri hash sz) s (s(uri := fresh_status sz))"
| refuse: "status_step (Request peer uri now) s s"
| assign: "s uri b = Free \<Longrightarrow>
    status_step (Request peer uri now) s (s(uri := (s uri)(b := Fetching peer)))"
| release: "status_step (UnregBlock peer b uri) s
    (if s uri b = Fetching peer then s(uri := (s uri)(b := Free)) else s)"
| leave: "status_step (UnregPeer peer uri) s
    (s(uri := (\<lambda>b. if s uri b = Fetching peer then Free else s uri b)))"
| arrive: "status_step (RangeDone peer uri b valid) s
    (if s uri b = Fetching peer then s(uri := (s uri)(b := Gone)) else s)"
| owners: "status_step (OwnerSize uri) s s"
| blocks: "status_step (BlockSize uri) s s"
| ranges: "status_step (SyncingSize uri) s s"

inductive_cases RequestE: "status_step (Request peer uri now) s s'"
inductive_cases RegisterE: "status_step (Register peer uri hash sz) s s'"

section \<open>An entry computes the machine\<close>

definition exclusive :: "sync_rs \<Rightarrow> bool" where
  "exclusive rs \<longleftrightarrow> distinct (rs_block rs @ map sr_block (elems (rs_syncing rs)))"

definition status :: "sync_rs \<Rightarrow> block \<Rightarrow> status" where
  "status rs b =
     (if b \<in> set (rs_block rs) then Free
      else case List.find (\<lambda>rng. sr_block rng = b) (elems (rs_syncing rs)) of
             Some rng \<Rightarrow> Fetching (sr_peer rng) | None \<Rightarrow> Gone)"

lemma distinct_iff_count: "distinct xs \<longleftrightarrow> (\<forall>x. count (mset xs) x \<le> 1)"
proof -
  have "count (mset xs) a = (if a \<in> set xs then 1 else 0) \<longleftrightarrow> count (mset xs) a \<le> 1" for a
    using count_eq_zero_iff [of "mset xs" a] by (cases "a \<in> set xs") (simp_all add: le_Suc_eq)
  then show ?thesis by (simp only: distinct_count_atmost_1)
qed

lemma exclusive_parts: "exclusive rs \<longleftrightarrow> (\<forall>b. count (parts rs) b \<le> 1)"
proof -
  have "parts rs = mset (rs_block rs @ map sr_block (elems (rs_syncing rs)))"
    by (simp add: parts_def)
  then show ?thesis by (simp only: exclusive_def distinct_iff_count)
qed

lemma find_unique:
  "distinct (map f xs) \<Longrightarrow> x \<in> set xs \<Longrightarrow> List.find (\<lambda>y. f y = f x) xs = Some x"
  by (induction xs) force+

lemma status_Fetching:
  assumes "exclusive rs"
  shows "status rs b = Fetching peer \<longleftrightarrow> (\<exists>rng \<in> set (elems (rs_syncing rs)). is_range peer b rng)"
proof
  assume "status rs b = Fetching peer"
  then show "\<exists>rng \<in> set (elems (rs_syncing rs)). is_range peer b rng"
    by (force simp: status_def find_Some_iff split: if_splits option.splits)
next
  assume "\<exists>rng \<in> set (elems (rs_syncing rs)). is_range peer b rng"
  then obtain rng where r: "rng \<in> set (elems (rs_syncing rs))" "sr_peer rng = peer" "sr_block rng = b"
    by auto
  from assms r find_unique [of sr_block "elems (rs_syncing rs)" rng] show "status rs b = Fetching peer"
    by (force simp: status_def exclusive_def)
qed

lemma status_Free: "status rs b = Free \<longleftrightarrow> b \<in> set (rs_block rs)"
  by (simp add: status_def split: option.splits)

lemma status_ext:
  assumes "exclusive rs" and "\<And>b. s b = Free \<longleftrightarrow> b \<in> set (rs_block rs)"
    and "\<And>b peer. s b = Fetching peer \<longleftrightarrow>
           (\<exists>rng \<in> set (elems (rs_syncing rs)). is_range peer b rng)"
  shows "status rs = s"
proof
  fix b
  show "status rs b = s b"
    using assms(2) [of b] assms(3) [of b] status_Free [of rs b] status_Fetching [OF assms(1), of b]
    by (cases "s b"; cases "status rs b") (simp_all, metis+)
qed

lemma exclusive_mset: "exclusive rs \<Longrightarrow> parts rs' \<subseteq># parts rs \<Longrightarrow> exclusive rs'"
  unfolding exclusive_parts by (meson le_trans mset_subset_eq_count)

lemma exclusive_new [simp]: "exclusive (SyncRs_new uri sz hash owner)"
  by (simp add: exclusive_def SyncRs_new_def initial_blocks_distinct)

lemma exclusive_default [simp]: "exclusive SyncRs_default"
  by (simp add: exclusive_def SyncRs_default_def)

lemma exclusive_assign [simp]: "exclusive (rs_assign dst src) = exclusive src"
  by (simp add: exclusive_def rs_assign_def)

lemma status_assign [simp]: "status (rs_assign dst src) = status src"
  by (simp add: fun_eq_iff status_def rs_assign_def)

lemma status_new [simp]: "status (SyncRs_new uri sz hash owner) = fresh_status sz"
  by (simp add: fun_eq_iff status_def SyncRs_new_def fresh_status_def)

lemma status_default [simp]: "status SyncRs_default b = Gone"
  by (simp add: status_def SyncRs_default_def)

lemma status_request:
  assumes "exclusive rs" and "rs_request peer now rs = (b, rs')"
  shows "exclusive rs' \<and>
    (rs' = rs \<or> status rs b = Free \<and> status rs' = (status rs)(b := Fetching peer))"
proof -
  have x: "exclusive rs'"
    using exclusive_mset [OF assms(1), of rs'] parts_request [of peer now rs] assms(2) by simp
  show ?thesis
  proof (cases "rs_block rs \<noteq> [] \<and> peer \<in> set (elems (rs_owner rs))")
    case True
    let ?bs = "butlast (rs_block rs)"
    from True assms(2) have b: "b = last (rs_block rs)"
      and rs': "rs' = rs\<lparr>rs_block := ?bs,
                  rs_syncing := push_back (rs_syncing rs) (SyncingRange_new peer b now)\<rparr>"
      by (auto simp: rs_request_def Let_def)
    have split: "rs_block rs = ?bs @ [b]" using True b by simp
    then have set: "set (rs_block rs) = insert b (set ?bs)" by (metis Un_insert_right append_Nil2
        list.simps(15) set_append set_empty)
    have "distinct (?bs @ [b] @ map sr_block (elems (rs_syncing rs)))"
      using assms(1) split by (metis exclusive_def append_assoc)
    then have fresh: "b \<notin> set ?bs" "\<forall>rng \<in> set (elems (rs_syncing rs)). sr_block rng \<noteq> b" by auto
    have "status rs' = (status rs)(b := Fetching peer)"
      using fresh status_Free [of rs] status_Fetching [OF assms(1)]
      by (intro status_ext [OF x]) (auto simp: rs' set)
    then show ?thesis using x set by (simp add: status_Free)
  next
    case False
    then show ?thesis using assms(2) x by (auto simp: rs_request_def)
  qed
qed

lemma status_unreg_block:
  assumes "exclusive rs" and "rs_unreg_block peer b rs = Inr rs'"
  shows "exclusive rs' \<and>
    status rs' = (if status rs b = Fetching peer then (status rs)(b := Free) else status rs)"
proof -
  have x: "exclusive rs'" using exclusive_mset [OF assms(1), of rs'] parts_unreg_block [OF assms(2)] by simp
  obtain found where f: "erase_last (is_range peer b) (rs_syncing rs) = Inr found"
    using assms(2) by (auto simp: rs_unreg_block_def rbind_Inr_iff)
  show ?thesis
  proof (cases found)
    case None
    then have "rs' = rs" using assms(2) f by (simp add: rs_unreg_block_def)
    moreover have "status rs b \<noteq> Fetching peer"
      using erase_last_None f None status_Fetching [OF assms(1)] by blast
    ultimately show ?thesis using x by simp
  next
    case (Some e)
    obtain rng rest where e: "e = (rng, rest)" by (cases e)
    obtain u v where rng: "sr_peer rng = peer" "sr_block rng = b"
      and uv: "elems (rs_syncing rs) = u @ rng # v" "rest = Vec (u @ v)"
      using erase_last_Some f Some e by fastforce
    have rs': "rs' = rs\<lparr>rs_block := rs_block rs @ [b], rs_syncing := rest\<rparr>"
      using assms(2) f Some e rng by (simp add: rs_unreg_block_def)
    have "distinct (map sr_block (u @ rng # v))" using assms(1) uv by (simp add: exclusive_def)
    then have uniq: "\<forall>r \<in> set (u @ v). sr_block r \<noteq> b"
      using rng by (force simp: image_iff)
    have "status rs b = Fetching peer" using status_Fetching [OF assms(1)] uv rng by auto
    moreover have "status rs' = (status rs)(b := Free)"
      using uniq rng status_Free [of rs] status_Fetching [OF assms(1)]
      by (intro status_ext [OF x]) (auto simp: rs' uv)
    ultimately show ?thesis using x by simp
  qed
qed

lemma status_done:
  assumes "exclusive rs" and "rs_done peer b rs = Inr (rs', fin)"
  shows "exclusive rs' \<and>
    status rs' = (if status rs b = Fetching peer then (status rs)(b := Gone) else status rs)"
  using assms(2)
proof (cases rule: rs_done_cases)
  case unknown
  then show ?thesis
    using assms(1) erase_last_None [OF unknown(3)] status_Fetching [OF assms(1)] by auto
next
  case (known rng rest)
  obtain u v where rng: "sr_peer rng = peer" "sr_block rng = b"
    and uv: "elems (rs_syncing rs) = u @ rng # v" "rest = Vec (u @ v)"
    using erase_last_Some [OF known(1)] by auto
  have x: "exclusive rs'" using assms(1) uv by (auto simp: exclusive_def known(3))
  have "distinct (rs_block rs @ map sr_block (u @ rng # v))"
    using assms(1) uv by (simp add: exclusive_def)
  then have uniq: "\<forall>r \<in> set (u @ v). sr_block r \<noteq> b" "b \<notin> set (rs_block rs)"
    using rng by (force simp: image_iff)+
  have "status rs b = Fetching peer" using status_Fetching [OF assms(1)] uv rng by auto
  moreover have "status rs' = (status rs)(b := Gone)"
    using uniq rng status_Free [of rs] status_Fetching [OF assms(1)]
    by (intro status_ext [OF x]) (auto simp: known(3) uv)
  ultimately show ?thesis using x by simp
qed

lemma rs_unreg_peer_eq:
  assumes "rs_unreg_peer peer rs = Inr rs'"
  shows "rs' = rs\<lparr>rs_block := rs_block rs @ map sr_block (filter (\<lambda>r. sr_peer r = peer) (rev (elems (rs_syncing rs)))),
                  rs_syncing := Vec (filter (\<lambda>r. sr_peer r \<noteq> peer) (elems (rs_syncing rs))),
                  rs_owner := Vec (filter (\<lambda>o'. o' \<noteq> peer) (elems (rs_owner rs)))\<rparr>"
  using assms by (cases "rs_syncing rs"; cases "rs_owner rs") (auto simp: rs_unreg_peer_def)

lemma status_unreg_peer:
  assumes "exclusive rs" and "rs_unreg_peer peer rs = Inr rs'"
  shows "exclusive rs' \<and>
    status rs' = (\<lambda>b. if status rs b = Fetching peer then Free else status rs b)"
proof -
  have x: "exclusive rs'" using exclusive_mset [OF assms(1), of rs'] parts_unreg_peer [OF assms(2)] by simp
  have "status rs' = (\<lambda>b. if status rs b = Fetching peer then Free else status rs b)"
  proof (rule status_ext [OF x])
    show "(if status rs b = Fetching peer then Free else status rs b) = Free \<longleftrightarrow> b \<in> set (rs_block rs')" for b
      using status_Free [of rs b] status_Fetching [OF assms(1), of b peer]
      by (auto simp: rs_unreg_peer_eq [OF assms(2)])
    show "(if status rs b = Fetching peer then Free else status rs b) = Fetching p \<longleftrightarrow>
        (\<exists>rng \<in> set (elems (rs_syncing rs')). is_range p b rng)" for b p
      using status_Fetching [OF assms(1), of b p] status_Fetching [OF assms(1), of b peer]
      by (auto simp: rs_unreg_peer_eq [OF assms(2)])
  qed
  with x show ?thesis by simp
qed

section \<open>The manager implements the machine\<close>

definition mgr_status :: "sync_manager \<Rightarrow> board" where
  "mgr_status m uri = status (uri_entry uri m)"

definition mgr_exclusive :: "sync_manager \<Rightarrow> bool" where
  "mgr_exclusive m \<longleftrightarrow> mgr_sorted m \<and> (\<forall>uri. exclusive (uri_entry uri m))"

lemma mgr_exclusive_init [simp]: "mgr_exclusive sync_manager_init"
  by (simp add: mgr_exclusive_def uri_entry_eq sync_manager_init_def mgr_sorted_def)

lemma mgr_status_set: "mgr_status (set_entry uri rs m) = (mgr_status m)(uri := status rs)"
  by (simp add: fun_eq_iff mgr_status_def)

lemma mgr_exclusive_set: "mgr_exclusive m \<Longrightarrow> exclusive rs \<Longrightarrow> mgr_exclusive (set_entry uri rs m)"
  by (simp add: mgr_exclusive_def)

lemma mgr_exclusive_entry: "mgr_exclusive m \<Longrightarrow> exclusive (uri_entry uri m)"
  by (simp add: mgr_exclusive_def)

lemma board_same [simp]: "(mgr_status m)(uri := status (uri_entry uri m)) = mgr_status m"
  by (simp add: fun_eq_iff mgr_status_def)

lemma mgr_exclusive_erase:
  "mgr_exclusive m \<Longrightarrow> mgr_exclusive (m\<lparr>uriRs := str_erase uri (uriRs m)\<rparr>)"
  by (simp add: mgr_exclusive_def uri_entry_erase)

lemma mgr_status_erase:
  "mgr_exclusive m \<Longrightarrow>
   mgr_status (m\<lparr>uriRs := str_erase uri (uriRs m)\<rparr>) = (mgr_status m)(uri := (\<lambda>_. Gone))"
  by (simp add: mgr_exclusive_def uri_entry_erase mgr_status_def fun_eq_iff)

lemma update_status:
  assumes "mgr_exclusive m" and "updateSyncRs peer uri hash sz m = Inr (ok, m')"
  shows "mgr_exclusive m' \<and> status_step (Register peer uri hash sz) (mgr_status m) (mgr_status m')"
proof -
  have fresh: "mgr_exclusive (assign_entry uri (SyncRs_new uri sz hash peer) m)"
    "mgr_status (assign_entry uri (SyncRs_new uri sz hash peer) m) = (mgr_status m)(uri := fresh_status sz)"
    using assms(1) by (simp_all add: assign_entry_def mgr_exclusive_set mgr_status_set)
  have owner: "mgr_exclusive (set_entry uri (uri_entry uri m\<lparr>rs_owner := os\<rparr>) m)"
    "mgr_status (set_entry uri (uri_entry uri m\<lparr>rs_owner := os\<rparr>) m) = mgr_status m" for os
    using assms(1) mgr_exclusive_entry [OF assms(1), of uri]
    by (auto simp: mgr_exclusive_set exclusive_def mgr_status_def fun_eq_iff status_def)
  from assms(2) have "m' = m \<or> m' = assign_entry uri (SyncRs_new uri sz hash peer) m \<or>
      (\<exists>os. m' = set_entry uri (uri_entry uri m\<lparr>rs_owner := os\<rparr>) m)"
    by (auto simp: updateSyncRs_def uri_entry_eq rbind_Inr_iff split: option.splits if_splits)
  then show ?thesis
    using assms(1) fresh owner by (auto intro: status_step.keep status_step.fresh)
qed

lemma done_status:
  assumes "mgr_exclusive m" and "syncingRangeDoneAndValid vr peer uri b valid (l, m) = Inr (l', m')"
  shows "mgr_exclusive m' \<and> status_step (RangeDone peer uri b valid) (mgr_status m) (mgr_status m')"
proof -
  obtain rs fin where d: "rs_done peer b (uri_entry uri m) = Inr (rs, fin)"
    using assms(2) by (auto simp: syncingRangeDoneAndValid_def rbind_Inr_iff)
  note st = status_done [OF mgr_exclusive_entry [OF assms(1)] d]
  let ?m1 = "set_entry uri rs m"
  have m1: "mgr_exclusive ?m1" using assms(1) st by (simp add: mgr_exclusive_set)
  have "status rs = (if mgr_status m uri b = Fetching peer
          then (mgr_status m uri)(b := Gone) else mgr_status m uri)"
    using st by (simp add: mgr_status_def [abs_def])
  then have s1: "mgr_status ?m1 = (if mgr_status m uri b = Fetching peer
          then (mgr_status m)(uri := (mgr_status m uri)(b := Gone)) else mgr_status m)"
    by (simp add: mgr_status_set)
  let ?m2 = "?m1\<lparr>uriRs := str_erase uri (uriRs ?m1)\<rparr>"
  have "m\<lparr>uriRs := str_erase uri (uriRs ?m1)\<rparr> = ?m2" by (simp add: set_entry_def)
  then have m': "m' = (if fin then ?m2 else ?m1)"
    using assms(2) d by (auto simp: syncingRangeDoneAndValid_def rbind_Inr_iff split: if_splits)
  have ex: "mgr_exclusive ?m2" and erased: "mgr_status ?m2 = (mgr_status ?m1)(uri := (\<lambda>_. Gone))"
    using m1 by (rule mgr_exclusive_erase, rule mgr_status_erase)
  have "fin \<Longrightarrow> parts rs = {#}" using parts_done(1) [OF d] by simp
  then have "fin \<Longrightarrow> status rs = (\<lambda>_. Gone)" by (auto simp: parts_def status_def fun_eq_iff)
  then have "fin \<Longrightarrow> mgr_status ?m2 = mgr_status ?m1"
    using erased by (simp add: mgr_status_set)
  then have "mgr_status m' = mgr_status ?m1" unfolding m' by (cases fin) simp_all
  moreover have "mgr_exclusive m'" unfolding m' using ex m1 by (cases fin) simp_all
  moreover have "status_step (RangeDone peer uri b valid) (mgr_status m) (mgr_status ?m1)"
    unfolding s1 by (rule status_step.arrive)
  ultimately show ?thesis by simp
qed

lemma request_board:
  assumes "mgr_exclusive m" and "regReqSyncRsAuto peer uri now m = (b, m')"
  shows "mgr_exclusive m' \<and> status_step (Request peer uri now) (mgr_status m) (mgr_status m')"
proof -
  obtain rs where r: "rs_request peer now (uri_entry uri m) = (b, rs)" and m': "m' = set_entry uri rs m"
    using assms(2) by (auto simp: regReqSyncRsAuto_def split: prod.splits)
  note st = status_request [OF mgr_exclusive_entry [OF assms(1)] r]
  then show ?thesis
  proof (elim conjE disjE)
    assume "exclusive rs" and "rs = uri_entry uri m"
    then show ?thesis using assms(1) m'
      by (simp add: mgr_exclusive_set mgr_status_set status_step.refuse)
  next
    assume "exclusive rs" and "status (uri_entry uri m) b = Free"
      and "status rs = (status (uri_entry uri m))(b := Fetching peer)"
    then show ?thesis using assms(1) m' status_step.assign [of "mgr_status m" uri b peer now]
      by (simp add: mgr_exclusive_set mgr_status_set) (simp add: mgr_status_def [abs_def])
  qed
qed

lemma unreg_block_board:
  assumes "mgr_exclusive m" and "unregReqSyncRsByBlock peer b uri m = Inr m'"
  shows "mgr_exclusive m' \<and> status_step (UnregBlock peer b uri) (mgr_status m) (mgr_status m')"
proof -
  obtain rs where r: "rs_unreg_block peer b (uri_entry uri m) = Inr rs" and m': "m' = set_entry uri rs m"
    using assms(2) by (auto simp: unregReqSyncRsByBlock_def rbind_Inr_iff)
  note st = status_unreg_block [OF mgr_exclusive_entry [OF assms(1)] r]
  have "mgr_status m' = (if mgr_status m uri b = Fetching peer
      then (mgr_status m)(uri := (mgr_status m uri)(b := Free)) else mgr_status m)"
    using st by (simp add: m' mgr_status_set) (simp add: mgr_status_def [abs_def])
  moreover have "mgr_exclusive m'" using assms(1) st by (simp add: m' mgr_exclusive_set)
  ultimately show ?thesis by (simp only: status_step.release simp_thms)
qed

lemma unreg_peer_board:
  assumes "mgr_exclusive m" and "unregAllReqSyncRsByPeer peer uri m = Inr m'"
  shows "mgr_exclusive m' \<and> status_step (UnregPeer peer uri) (mgr_status m) (mgr_status m')"
proof -
  obtain rs where r: "rs_unreg_peer peer (uri_entry uri m) = Inr rs" and m': "m' = set_entry uri rs m"
    using assms(2) by (auto simp: unregAllReqSyncRsByPeer_def rbind_Inr_iff)
  note st = status_unreg_peer [OF mgr_exclusive_entry [OF assms(1)] r]
  have "mgr_status m' = (mgr_status m)(uri :=
      (\<lambda>b. if mgr_status m uri b = Fetching peer then Free else mgr_status m uri b))"
    using st unfolding m' mgr_status_set by (simp add: mgr_status_def fun_eq_iff)
  moreover have "mgr_exclusive m'" using assms(1) st by (simp add: m' mgr_exclusive_set)
  ultimately show ?thesis by (simp only: status_step.leave simp_thms)
qed

lemma touch_board:
  "mgr_exclusive m \<Longrightarrow> mgr_exclusive (set_entry uri (uri_entry uri m) m) \<and>
     mgr_status (set_entry uri (uri_entry uri m) m) = mgr_status m"
  using mgr_exclusive_entry by (simp add: mgr_exclusive_set mgr_status_set)

lemma mgr_step_status:
  assumes "mgr_exclusive m" and "mgr_step vr w x (l, m) = Inr ((l', m'), f)"
  shows "mgr_exclusive m' \<and> status_step x (mgr_status m) (mgr_status m')"
proof (cases x)
  case (Register peer uri hash sz)
  then show ?thesis using assms update_status by (auto simp: regSyncRs_eq rbind_Inr_iff)
next
  case (Request peer uri now)
  then show ?thesis using assms request_board [OF assms(1) prod.collapse [symmetric], of peer uri now] by auto
next
  case (UnregBlock peer b uri)
  then show ?thesis using assms unreg_block_board by (auto simp: rbind_Inr_iff)
next
  case (UnregPeer peer uri)
  then show ?thesis using assms unreg_peer_board by (auto simp: rbind_Inr_iff)
next
  case (RangeDone peer uri b valid)
  then show ?thesis using assms done_status [OF assms(1), of vr peer uri b valid l l' m']
    by (auto simp: rbind_Inr_iff)
next
  case (OwnerSize uri)
  then show ?thesis using assms touch_board [OF assms(1), of uri]
    by (auto simp: getOwnerSize_def Let_def intro: status_step.owners)
next
  case (BlockSize uri)
  then show ?thesis using assms touch_board [OF assms(1), of uri]
    by (auto simp: getBlockSize_def Let_def intro: status_step.blocks)
next
  case (SyncingSize uri)
  then show ?thesis using assms touch_board [OF assms(1), of uri]
    by (auto simp: getSyncingSize_def Let_def intro: status_step.ranges)
qed

section \<open>Sequences of operations\<close>

fun registers :: "string \<Rightarrow> mgr_op \<Rightarrow> bool" where
  "registers w (Register peer uri hash sz) \<longleftrightarrow> uri = w"
| "registers w _ \<longleftrightarrow> False"

inductive board_steps :: "mgr_op list \<Rightarrow> board \<Rightarrow> board \<Rightarrow> bool" where
  none: "board_steps [] s s"
| more: "status_step x s s' \<Longrightarrow> board_steps xs s' s'' \<Longrightarrow> board_steps (x # xs) s s''"

lemma run_status:
  "mgr_exclusive m \<Longrightarrow> ledger_run (mgr_step vr w) ops (l, m) = Inr ((l', m'), f) \<Longrightarrow>
   mgr_exclusive m' \<and> board_steps ops (mgr_status m) (mgr_status m')"
proof (induction ops arbitrary: l m f)
  case Nil
  then show ?case by (simp add: board_steps.none)
next
  case (Cons x ops)
  from Cons.prems(2) obtain l1 m1 f1 f2 where x: "mgr_step vr w x (l, m) = Inr ((l1, m1), f1)"
    and r: "ledger_run (mgr_step vr w) ops (l1, m1) = Inr ((l', m'), f2)"
    by (rule mgr.run_cases) (metis surj_pair)
  show ?case
    using mgr_step_status [OF Cons.prems(1) x] Cons.IH [OF _ r] board_steps.more by blast
qed

lemma step_no_register:
  "\<not> registers w x \<Longrightarrow> mgr_step vr w x (l, m) = Inr (s, f) \<Longrightarrow> issued f = {#} \<and> dropped f = {#}"
  by (cases x) (auto simp: rbind_Inr_iff split: if_splits)

lemma run_no_register:
  "\<forall>x \<in> set ops. \<not> registers w x \<Longrightarrow> ledger_run (mgr_step vr w) ops e = Inr (e', f) \<Longrightarrow>
   issued f = {#} \<and> dropped f = {#}"
proof (induction ops arbitrary: e f)
  case (Cons x ops)
  from Cons.prems(2) obtain e1 f1 f2 where x: "mgr_step vr w x e = Inr (e1, f1)"
    and r: "ledger_run (mgr_step vr w) ops e1 = Inr (e', f2)" and f: "f = add_flow f1 f2"
    by (rule mgr.run_cases)
  have "\<not> registers w x" and "\<forall>x \<in> set ops. \<not> registers w x" using Cons.prems(1) by auto
  then have "issued f1 = {#} \<and> dropped f1 = {#}" and "issued f2 = {#} \<and> dropped f2 = {#}"
    using step_no_register [of w x vr "fst e" "snd e" e1 f1] x Cons.IH [OF _ r] by auto
  then show ?case by (simp add: f)
qed simp

lemma step_gone:
  "status_step x s s' \<Longrightarrow> \<not> registers w x \<Longrightarrow> s w b = Gone \<Longrightarrow> s' w b = Gone"
  by (induction rule: status_step.induct) (auto split: if_splits)

lemma steps_gone:
  "board_steps ops s s' \<Longrightarrow> \<forall>x \<in> set ops. \<not> registers w x \<Longrightarrow> s w b = Gone \<Longrightarrow> s' w b = Gone"
  by (induction rule: board_steps.induct) (auto dest: step_gone)

text \<open>
  A client that fetches one block after the other: each is requested and, once its bytes are there,
  reported.
\<close>

definition fetch_ops :: "net_addr \<Rightarrow> string \<Rightarrow> u64 \<Rightarrow> block list \<Rightarrow> mgr_op list" where
  "fetch_ops peer uri now bs =
     concat (map (\<lambda>b. [Request peer uri now, RangeDone peer uri b True]) bs)"

lemma fetch_one:
  assumes "uri_entry w m = rs" and "rs_block rs = bs @ [b]" and "elems (rs_syncing rs) = []"
    and "peer \<in> set (elems (rs_owner rs))" and "vr w (rs_hash rs) l = Inr (ok, l1)"
  shows "ledger_run (mgr_step vr w) [Request peer w now, RangeDone peer w b True] (l, m) =
    Inr ((if bs = [] then (l1, m\<lparr>uriRs := str_erase w (uriRs (set_entry w rs m))\<rparr>)
          else (l, set_entry w (rs\<lparr>rs_block := bs, rs_syncing := Vec []\<rparr>) m)),
         no_flow\<lparr>reported := {#b#}\<rparr>)"
proof -
  let ?sr = "SyncingRange_new peer b now"
  let ?rs1 = "rs\<lparr>rs_block := bs, rs_syncing := push_back (rs_syncing rs) ?sr\<rparr>"
  have req: "regReqSyncRsAuto peer w now m = (b, set_entry w ?rs1 m)"
    using assms(1-4) by (simp add: regReqSyncRsAuto_def rs_request_def Let_def)
  have el: "erase_last (is_range peer b) (rs_syncing ?rs1) = Inr (Some (?sr, Vec []))"
    using assms(3) by (simp add: push_back_def erase_last_def)
  have put: "set_entry w x (set_entry w y m) = set_entry w x m" for x y
    by (simp add: set_entry_def)
  have erase: "str_erase w (str_put w x k) = str_erase w (str_put w y k)" for x y :: sync_rs and k
    by (induction k) (auto simp: str_map.irrefl)
  have gone: "str_erase w (uriRs (set_entry w x m)) = str_erase w (uriRs (set_entry w rs m))" for x
    using erase by (simp add: set_entry_def)
  let ?m1 = "set_entry w ?rs1 m"
  let ?fin = "?rs1\<lparr>rs_syncing := Vec []\<rparr>"
  have "rs_done peer b (uri_entry w ?m1) =
      Inr (if bs = [] then (?fin\<lparr>rs_success := True\<rparr>, True) else (?fin, False))"
    using rs_done_found [OF el] by simp
  moreover have "?m1\<lparr>uriRs := x\<rparr> = m\<lparr>uriRs := x\<rparr>" for x by (simp add: set_entry_def)
  ultimately have arrived: "syncingRangeDoneAndValid vr peer w b True (l, ?m1) =
      Inr (if bs = [] then (l1, m\<lparr>uriRs := str_erase w (uriRs (set_entry w rs m))\<rparr>)
           else (l, set_entry w (rs\<lparr>rs_block := bs, rs_syncing := Vec []\<rparr>) m))"
    using assms(5) gone by (simp add: syncingRangeDoneAndValid_def put)
  have known: "range_known peer b (uri_entry w ?m1)"
    by (simp add: range_known_def list_ex_iff)
  show ?thesis
    using arrived known by (simp add: req no_flow_def add_flow_def)
qed

lemma fetch_all:
  assumes "mgr_sorted m" and "uri_entry w m = rs" and "rs_block rs = bs" and "bs \<noteq> []"
    and "elems (rs_syncing rs) = []" and "peer \<in> set (elems (rs_owner rs))"
    and "\<And>h l. \<exists>ok l1. vr w h l = Inr (ok, l1)"
  shows "\<exists>l' m' f. ledger_run (mgr_step vr w) (fetch_ops peer w now (rev bs)) (l, m) = Inr ((l', m'), f) \<and>
     str_find w (uriRs m') = None \<and> reported f = mset bs"
  using assms(1-6)
proof (induction bs arbitrary: m rs l rule: rev_induct)
  case (snoc b bs)
  obtain ok l1 where "vr w (rs_hash rs) l = Inr (ok, l1)" using assms(7) by blast
  note one = fetch_one [of w m rs bs b peer vr l ok l1 now, OF snoc.prems(2,3,5,6) this]
  have ops: "fetch_ops peer w now (rev (bs @ [b])) =
      [Request peer w now, RangeDone peer w b True] @ fetch_ops peer w now (rev bs)"
    by (simp add: fetch_ops_def)
  show ?case
  proof (cases "bs = []")
    case True
    have "mgr_sorted (set_entry w rs m)" using snoc.prems(1) by simp
    then have "str_find w (str_erase w (uriRs (set_entry w rs m))) = None"
      by (simp add: mgr_sorted_def)
    then show ?thesis unfolding ops ledger_run_append one using True by (simp add: fetch_ops_def)
  next
    case False
    let ?rs = "rs\<lparr>rs_block := bs, rs_syncing := Vec []\<rparr>"
    have "\<exists>l' m' f. ledger_run (mgr_step vr w) (fetch_ops peer w now (rev bs)) (l, set_entry w ?rs m) =
        Inr ((l', m'), f) \<and> str_find w (uriRs m') = None \<and> reported f = mset bs"
      by (rule snoc.IH [of _ ?rs]) (use snoc.prems False in simp_all)
    then show ?thesis unfolding ops ledger_run_append one using False by auto
  qed
qed simp

section \<open>Properties\<close>

text \<open>
  C5: on the books of every URI nothing is lost and nothing appears: after any sequence of
  operations from the empty manager, the blocks issued for the URI are those still free or being
  fetched, those reported, and those dropped when a larger version replaced the entry.
\<close>

theorem manager_conserves_blocks:
  assumes "ledger_run (mgr_step vr w) ops (l, sync_manager_init) = Inr ((l', m'), f)"
  shows "issued f = uri_parts w m' + reported f + dropped f"
  using mgr.run_conserves [of "(l, sync_manager_init)" vr w ops "(l', m')" f] assms
  by (simp add: uri_parts_def uri_entry_eq sync_manager_init_def mgr_sorted_def)

definition sample_peer :: net_addr where
  "sample_peer = NetAddr_default"

definition sample_ops :: "mgr_op list" where
  "sample_ops = [Register sample_peer ''/a'' ''h'' 5, Request sample_peer ''/a'' 0,
     RangeDone sample_peer ''/a'' (Block 0 5) True]"

definition always_valid :: "string \<Rightarrow> string \<Rightarrow> unit \<Rightarrow> (bool \<times> unit) res" where
  "always_valid uri hash l = Inr (True, l)"

lemmas sample_simps = sample_ops_def always_valid_def sync_manager_init_def regSyncRs_def
  assign_entry_def set_entry_def uri_entry_def sm_index_def SyncRs_new_def SyncRs_default_def
  initial_blocks_small BLOCK_SIZE_eq rs_assign_def push_back_def regReqSyncRsAuto_def
  rs_request_def SyncingRange_new_def SIZE_1KByte_def syncingRangeDoneAndValid_def rs_done_def
  erase_last_def range_known_def replaces_def uri_parts_def parts_def str_less_def Let_def

lemma sample_run:
  "ledger_run (mgr_step always_valid ''/a'') sample_ops ((), sync_manager_init) =
     Inr (((), sync_manager_init), \<lparr>issued = {#Block 0 5#}, reported = {#Block 0 5#}, dropped = {#}\<rparr>)"
  by (simp add: sample_simps no_flow_def add_flow_def)

theorem manager_conserves_blocks_witness:
  "{#Block 0 5#} = uri_parts ''/a'' sync_manager_init + {#Block 0 5#}"
  using manager_conserves_blocks [OF sample_run] by simp

lemma register_new:
  assumes "mgr_sorted m" and "str_find w (uriRs m) = None"
    and "ledger_run (mgr_step vr w) (Register p w h sz # ops) (l, m) = Inr (e, f)"
    and "\<forall>x \<in> set ops. \<not> registers w x"
  shows "issued f = mset (initial_blocks sz) \<and> dropped f = {#}"
proof -
  from assms(3) obtain e1 f1 f2
    where x: "mgr_step vr w (Register p w h sz) (l, m) = Inr (e1, f1)"
      and r: "ledger_run (mgr_step vr w) ops e1 = Inr (e, f2)" and f: "f = add_flow f1 f2"
    by (rule mgr.run_cases)
  have "uri_parts w m = {#}" using assms(2) by (simp add: uri_parts_def uri_entry_eq)
  then have "issued f1 = mset (initial_blocks sz) \<and> dropped f1 = {#}"
    using x assms(2) by (auto simp: rbind_Inr_iff replaces_def)
  moreover have "issued f2 = {#} \<and> dropped f2 = {#}" using run_no_register [OF assms(4) r] .
  ultimately show ?thesis by (simp add: f)
qed

text \<open>
  C8: a resource is complete exactly when all of it was fetched. After a new resource of at least
  one byte and less than 4 GiB is registered, whatever operations follow (requests, failures of
  peers, completions, in any order), the reported blocks are part of its blocks, nothing is left
  on its books exactly when all of them were reported, each once, and these blocks lie end to end
  from byte 0 to its size.
\<close>

theorem fetch_complete:
  assumes "mgr_sorted m" and "str_find w (uriRs m) = None" and "0 < sz" and "unat sz < 2 ^ 32"
    and "ledger_run (mgr_step vr w) (Register p w h sz # ops) (l, m) = Inr ((l', m'), f)"
    and "\<forall>x \<in> set ops. \<not> registers w x"
  shows "reported f \<subseteq># mset (initial_blocks sz) \<and>
         (uri_parts w m' = {#} \<longleftrightarrow> reported f = mset (initial_blocks sz)) \<and>
         tiles (initial_blocks sz) 0 sz \<and> covers (initial_blocks sz) = {0 ..< unat sz}"
proof -
  have "uri_parts w m + issued f = uri_parts w m' + reported f + dropped f"
    using mgr.run_conserves [OF _ assms(5)] assms(1) by simp
  moreover have "uri_parts w m = {#}" using assms(2) by (simp add: uri_parts_def uri_entry_eq)
  ultimately have "mset (initial_blocks sz) = uri_parts w m' + reported f"
    using register_new [OF assms(1,2,5,6)] by simp
  moreover have "tiles (initial_blocks sz) 0 sz" using assms(3,4) by (rule initial_blocks_tile)
  ultimately show ?thesis using tiles_covers by fastforce
qed

theorem fetch_complete_witness:
  "covers (initial_blocks 5) = {0 ..< unat (5 :: u64)} \<and> {#Block 0 5#} = mset (initial_blocks 5)"
proof -
  have "{#Block 0 5#} \<subseteq># mset (initial_blocks 5) \<and>
      (uri_parts ''/a'' sync_manager_init = {#} \<longleftrightarrow> {#Block 0 5#} = mset (initial_blocks 5)) \<and>
      tiles (initial_blocks 5) 0 5 \<and> covers (initial_blocks 5) = {0 ..< unat (5 :: u64)}"
    using fetch_complete [OF mgr_sorted_init _ _ _ sample_run [unfolded sample_ops_def]]
    by (simp add: sync_manager_init_def)
  moreover have "uri_parts ''/a'' sync_manager_init = {#}"
    by (simp add: uri_parts_def uri_entry_eq sync_manager_init_def)
  ultimately show ?thesis by blast
qed

text \<open>
  C7: the manager implements the abstract machine of free, fetching and gone blocks: every
  sequence of operations from the empty manager, seen through the state of each block of each
  URI, is a sequence of its steps.
\<close>

theorem manager_refines_board:
  assumes "ledger_run (mgr_step vr w) ops (l, sync_manager_init) = Inr ((l', m'), f)"
  shows "board_steps ops (\<lambda>uri b. Gone) (mgr_status m')"
proof -
  have "mgr_status sync_manager_init = (\<lambda>uri b. Gone)"
    by (simp add: fun_eq_iff mgr_status_def uri_entry_eq sync_manager_init_def)
  then show ?thesis using run_status [OF mgr_exclusive_init assms] by simp
qed

theorem manager_refines_board_witness:
  "board_steps sample_ops (\<lambda>uri b. Gone) (mgr_status sync_manager_init)"
  using manager_refines_board [OF sample_run] .

text \<open>
  C18: no block is fetched twice at a time. In every state the operations can reach, the block a
  request hands out is not being fetched by anybody, goes to a peer that owns the resource, and
  afterwards is on the books of that peer alone.
\<close>

theorem request_exclusive:
  assumes "ledger_run (mgr_step vr w) ops (l, sync_manager_init) = Inr ((l', m), f)"
    and "regReqSyncRsAuto peer uri now m = (b, m')" and "b \<noteq> Block 0 0"
  shows "(\<forall>rng \<in> set (elems (rs_syncing (uri_entry uri m))). sr_block rng \<noteq> b) \<and>
    peer \<in> set (elems (rs_owner (uri_entry uri m))) \<and>
    mgr_status m' = (mgr_status m)(uri := (mgr_status m uri)(b := Fetching peer))"
proof -
  have ex: "exclusive (uri_entry uri m)"
    using run_status [OF mgr_exclusive_init assms(1)] mgr_exclusive_entry by blast
  obtain rs where r: "rs_request peer now (uri_entry uri m) = (b, rs)" and m': "m' = set_entry uri rs m"
    using assms(2) by (auto simp: regReqSyncRsAuto_def Let_def split: prod.splits)
  have ne: "rs_block (uri_entry uri m) \<noteq> [] \<and> peer \<in> set (elems (rs_owner (uri_entry uri m)))"
    and b: "b \<in> set (rs_block (uri_entry uri m))"
    and "length (rs_block rs) = length (rs_block (uri_entry uri m)) - 1"
    using r assms(3) by (auto simp: rs_request_def Let_def split: if_splits)
  then have moved: "rs \<noteq> uri_entry uri m" by (metis diff_less length_greater_0_conv less_irrefl zero_less_one)
  have "\<forall>rng \<in> set (elems (rs_syncing (uri_entry uri m))). sr_block rng \<noteq> b"
    using ex b by (force simp: exclusive_def)
  moreover have "mgr_status m' = (mgr_status m)(uri := (mgr_status m uri)(b := Fetching peer))"
    using status_request [OF ex r] moved unfolding m' mgr_status_set
    by (simp add: mgr_status_def fun_eq_iff)
  ultimately show ?thesis using ne by blast
qed

lemma sample_registered:
  "ledger_run (mgr_step always_valid ''/a'') [Register sample_peer ''/a'' ''h'' 5]
     ((), sync_manager_init) = Inr (((), assign_entry ''/a'' (SyncRs_new ''/a'' 5 ''h'' sample_peer)
       sync_manager_init), \<lparr>issued = {#Block 0 5#}, reported = {#}, dropped = {#}\<rparr>)"
  by (simp add: sample_simps no_flow_def add_flow_def)

theorem request_exclusive_witness:
  "sample_peer \<in> set (elems (rs_owner (uri_entry ''/a''
     (assign_entry ''/a'' (SyncRs_new ''/a'' 5 ''h'' sample_peer) sync_manager_init))))"
  using request_exclusive [OF sample_registered, of sample_peer "''/a''" 0 "Block 0 5"]
  by (auto simp: sample_simps)

text \<open>
  A block that was fetched stays fetched: once reported, no sequence of operations other than
  a new registration of the resource makes it free again, so it is never requested again.
\<close>

theorem reported_block_stays_gone:
  assumes "mgr_exclusive m" and "mgr_status m w b = Gone"
    and "ledger_run (mgr_step vr w) ops (l, m) = Inr ((l', m'), f)"
    and "\<forall>x \<in> set ops. \<not> registers w x"
  shows "mgr_status m' w b = Gone"
  using run_status [OF assms(1,3)] steps_gone assms(2,4) by blast

theorem reported_block_stays_gone_witness:
  "mgr_status sync_manager_init ''/a'' (Block 0 5) = Gone"
  using reported_block_stays_gone [OF mgr_exclusive_init, of "''/a''" "Block 0 5" always_valid "[]"
      "()" "()" sync_manager_init no_flow]
  by (simp add: mgr_status_def uri_entry_eq sync_manager_init_def)

text \<open>
  C25: a peer that leaves gives everything back: afterwards it owns the resource no more, no range
  is booked on it, every block it was fetching is free again, and every other block is as before.
\<close>

theorem leaving_peer_returns_blocks:
  assumes "mgr_exclusive m" and "unregAllReqSyncRsByPeer peer uri m = Inr m'"
  shows "peer \<notin> set (elems (rs_owner (uri_entry uri m'))) \<and>
         (\<forall>rng \<in> set (elems (rs_syncing (uri_entry uri m'))). sr_peer rng \<noteq> peer) \<and>
         uri_parts uri m' = uri_parts uri m \<and>
         mgr_status m' = (mgr_status m)(uri := (\<lambda>b. if mgr_status m uri b = Fetching peer then Free
                                                     else mgr_status m uri b))"
proof -
  obtain rs where r: "rs_unreg_peer peer (uri_entry uri m) = Inr rs" and m': "m' = set_entry uri rs m"
    using assms(2) by (auto simp: unregAllReqSyncRsByPeer_def rbind_Inr_iff)
  have "mgr_status m' = (mgr_status m)(uri := (\<lambda>b. if mgr_status m uri b = Fetching peer then Free
      else mgr_status m uri b))"
    using status_unreg_peer [OF mgr_exclusive_entry [OF assms(1)] r] unfolding m' mgr_status_set
    by (simp add: mgr_status_def fun_eq_iff)
  moreover have "uri_parts uri m' = uri_parts uri m"
    using parts_unreg_peer [OF r] by (simp add: m' uri_parts_def)
  ultimately show ?thesis by (simp add: m' rs_unreg_peer_eq [OF r])
qed

theorem leaving_peer_returns_blocks_witness:
  "\<exists>m m'. unregAllReqSyncRsByPeer sample_peer ''/a'' m = Inr m' \<and>
     mgr_status m ''/a'' (Block 0 5) = Fetching sample_peer \<and>
     mgr_status m' ''/a'' (Block 0 5) = Free"
proof -
  let ?ops = "butlast sample_ops"
  let ?m = "snd (fst (projr (ledger_run (mgr_step always_valid ''/a'') ?ops ((), sync_manager_init))))"
  let ?m' = "projr (unregAllReqSyncRsByPeer sample_peer ''/a'' ?m)"
  have run: "ledger_run (mgr_step always_valid ''/a'') ?ops ((), sync_manager_init) =
      Inr (((), ?m), \<lparr>issued = {#Block 0 5#}, reported = {#}, dropped = {#}\<rparr>)"
    by (simp add: sample_simps no_flow_def add_flow_def)
  have st: "mgr_status ?m ''/a'' (Block 0 5) = Fetching sample_peer"
    by (simp add: sample_simps mgr_status_def status_def)
  have un: "unregAllReqSyncRsByPeer sample_peer ''/a'' ?m = Inr ?m'"
    by (simp add: sample_simps unregAllReqSyncRsByPeer_def rs_unreg_peer_def)
  have ex: "mgr_exclusive ?m" using run_status [OF mgr_exclusive_init run] by simp
  from leaving_peer_returns_blocks [OF ex un] st
  have "mgr_status ?m' ''/a'' (Block 0 5) = Free" by simp
  with un st show ?thesis by blast
qed

text \<open>
  C26: registering a resource, on every branch. A URI not yet known is entered with the peer as its
  only owner; a larger size replaces the entry, a smaller one or another hash is refused and
  changes nothing, and the same version makes the peer an owner once. The other URIs are untouched.
\<close>

theorem register_policy:
  assumes "regSyncRs peer uri hash sz m = Inr (ok, m')"
  shows "(case str_find uri (uriRs m) of
      None \<Rightarrow> ok \<and> uri_entry uri m' = SyncRs_new uri sz hash peer
    | Some rs \<Rightarrow> (\<exists>old. rs_size rs = Some old \<and>
        (if old < sz then ok \<and> uri_entry uri m' = rs_assign rs (SyncRs_new uri sz hash peer)
         else if old = sz \<and> rs_hash rs = hash
         then ok \<and> set (elems (rs_owner (uri_entry uri m'))) = insert peer (set (elems (rs_owner rs))) \<and>
              uri_entry uri m' = rs\<lparr>rs_owner := rs_owner (uri_entry uri m')\<rparr> \<and>
              (distinct (elems (rs_owner rs)) \<longrightarrow> distinct (elems (rs_owner (uri_entry uri m'))))
         else \<not> ok \<and> m' = m))) \<and>
    (\<forall>u. u \<noteq> uri \<longrightarrow> uri_entry u m' = uri_entry u m)"
proof (cases "str_find uri (uriRs m)")
  case None
  then have "uri_entry uri m = SyncRs_default" by (simp add: uri_entry_eq)
  then have "uri_entry uri (assign_entry uri (SyncRs_new uri sz hash peer) m) = SyncRs_new uri sz hash peer"
    by (simp add: assign_entry_def rs_assign_def SyncRs_default_def SyncRs_new_def push_back_def)
  then show ?thesis using assms None by (auto simp: regSyncRs_def assign_entry_def)
next
  case (Some rs)
  then have e: "uri_entry uri m = rs" by (simp add: uri_entry_eq)
  from assms Some obtain old where old: "rs_size rs = Some old"
    by (cases "rs_size rs") (auto simp: regSyncRs_def updateSyncRs_def)
  consider "old < sz" | "sz < old" | "old = sz" by fastforce
  then show ?thesis
    using assms Some old e
    by cases (auto simp: regSyncRs_def updateSyncRs_def assign_entry_def split: if_splits)
qed

theorem register_policy_witness:
  "uri_entry ''/a'' (assign_entry ''/a'' (SyncRs_new ''/a'' 5 ''h'' sample_peer) sync_manager_init) =
     SyncRs_new ''/a'' 5 ''h'' sample_peer"
  using register_policy [of sample_peer "''/a''" "''h''" 5 sync_manager_init True]
  by (simp add: regSyncRs_def) (simp add: sync_manager_init_def)

text \<open>
  Asking about a resource poisons it. The size queries, a request and the default entry they
  leave behind for a URI that is not there have an indeterminate size, and the next registration
  of that URI reads it.
\<close>

theorem query_then_register_faults:
  assumes "str_find uri (uriRs m) = None"
    and "m' = snd (getOwnerSize uri m) \<or> m' = snd (getBlockSize uri m) \<or>
         m' = snd (getSyncingSize uri m) \<or> m' = snd (regReqSyncRsAuto p uri now m)"
  shows "regSyncRs peer uri hash sz m = Inr (True, assign_entry uri (SyncRs_new uri sz hash peer) m) \<and>
         regSyncRs peer uri hash sz m' = Inl Uninitialised"
proof -
  have "uri_entry uri m = SyncRs_default" using assms(1) by (simp add: uri_entry_eq)
  then have "m' = set_entry uri SyncRs_default m"
    using assms(2) by (auto simp: getOwnerSize_def getBlockSize_def getSyncingSize_def
        regReqSyncRsAuto_def rs_request_def Let_def SyncRs_default_def)
  then show ?thesis
    using assms(1) by (simp add: regSyncRs_def updateSyncRs_def SyncRs_default_def)
qed

theorem query_then_register_faults_witness:
  "regSyncRs sample_peer ''/a'' ''h'' 5 (snd (getBlockSize ''/a'' sync_manager_init)) = Inl Uninitialised"
  using query_then_register_faults [of "''/a''" sync_manager_init] by (simp add: sync_manager_init_def)

text \<open>
  Reporting a range of, or giving one back to, a resource nothing was requested of runs off its
  vector: the backwards walks start at \<open>end() - 1\<close> of a vector without a buffer.
\<close>

theorem unknown_range_faults:
  assumes "rs_syncing (uri_entry uri m) = NullVec"
  shows "syncingRangeDoneAndValid vr peer uri b valid (l, m) = Inl BadIterator \<and>
         unregReqSyncRsByBlock peer b uri m = Inl BadIterator \<and>
         unregAllReqSyncRsByPeer peer uri m = Inl BadIterator"
  using assms by (simp add: syncingRangeDoneAndValid_def rs_done_def unregReqSyncRsByBlock_def
      rs_unreg_block_def unregAllReqSyncRsByPeer_def rs_unreg_peer_def)

theorem unknown_range_faults_witness:
  "unregAllReqSyncRsByPeer sample_peer ''/a'' sync_manager_init = Inl BadIterator"
  using unknown_range_faults [of "''/a''" sync_manager_init always_valid]
  by (simp add: uri_entry_eq sync_manager_init_def SyncRs_default_def)

text \<open>
  One peer is enough. A resource of at least one byte and less than 4 GiB, registered when it
  was unknown, is drained by its owner fetching block after block: no step faults, every block
  is reported exactly once and the entry is gone at the end. The only thing relied on is that the
  validation of the file, which the completion calls, returns.
\<close>

theorem owner_drains_resource:
  assumes "mgr_sorted m" and "str_find w (uriRs m) = None" and "0 < sz" and "unat sz < 2 ^ 32"
    and "\<And>h l. \<exists>ok l1. vr w h l = Inr (ok, l1)"
  shows "\<exists>l' m' f. ledger_run (mgr_step vr w)
      (Register peer w hash sz # fetch_ops peer w now (rev (initial_blocks sz))) (l, m) = Inr ((l', m'), f) \<and>
    str_find w (uriRs m') = None \<and> reported f = mset (initial_blocks sz)"
proof -
  let ?m = "assign_entry w (SyncRs_new w sz hash peer) m"
  have ne: "initial_blocks sz \<noteq> []" using initial_blocks_tile [OF assms(3,4)] assms(3) by auto
  have e: "uri_entry w ?m = SyncRs_new w sz hash peer"
    using assms(2) by (simp add: assign_entry_def uri_entry_eq SyncRs_default_def SyncRs_new_def
        rs_assign_def push_back_def)
  have "\<exists>l' m' f. ledger_run (mgr_step vr w) (fetch_ops peer w now (rev (initial_blocks sz))) (l, ?m) =
      Inr ((l', m'), f) \<and> str_find w (uriRs m') = None \<and> reported f = mset (initial_blocks sz)"
    by (rule fetch_all [OF _ e]) (use assms(1,5) ne in \<open>simp_all add: SyncRs_new_def\<close>)
  then show ?thesis using assms(2) by (auto simp: regSyncRs_def)
qed

theorem owner_drains_resource_witness:
  "\<exists>l' m' f. ledger_run (mgr_step always_valid ''/a'')
      (Register sample_peer ''/a'' ''h'' 5 # fetch_ops sample_peer ''/a'' 0 (rev (initial_blocks 5)))
      ((), sync_manager_init) = Inr ((l', m'), f) \<and>
    str_find ''/a'' (uriRs m') = None \<and> reported f = mset (initial_blocks 5)"
  by (rule owner_drains_resource) (auto simp: sync_manager_init_def mgr_sorted_def always_valid_def intro: exI [of _ True])

end
