(* ===== verification/Node_Invariant.thy ===== *)
theory Node_Invariant
  imports Net_Dispatch Sync_Fetch
begin

text \<open>
  What every handler of a node keeps. The relation \<open>moves\<close> between the states before and after
  says that the invariant \<open>node_inv\<close> is kept and that the books of the synchronisation manager
  change by steps of the abstract machine of \<open>Sync_Fetch\<close>. It is reflexive and transitive, which
  is all the loops of the program need (locale \<open>closed_rel\<close>).
\<close>

section \<open>Loops over a closed relation\<close>

locale closed_rel =
  fixes R :: "'s \<Rightarrow> 's \<Rightarrow> bool"
  assumes refl: "R s s" and trans: "R s t \<Longrightarrow> R t u \<Longrightarrow> R s u"
begin

lemma rfold_rel:
  assumes "\<And>x s t. f x s = Inr t \<Longrightarrow> R s t"
  shows "rfold f xs s = Inr t \<Longrightarrow> R s t"
proof (induction xs arbitrary: s)
  case (Cons x xs)
  then obtain u where "f x s = Inr u" and "rfold f xs u = Inr t" by (auto simp: rbind_Inr_iff)
  then show ?case using Cons.IH assms trans by blast
qed (simp add: refl)

lemma read_rounds_rel:
  assumes "\<And>mem n s t. recv mem n s = Inr t \<Longrightarrow> R s t"
  shows "read_rounds need recv rounds head inbuf s = Inr (rest, t) \<Longrightarrow> R s t"
proof (induction rounds arbitrary: head inbuf s)
  case (Suc rounds)
  show ?case
  proof (cases "t = s")
    case False
    then obtain mem n head' inbuf' u where "recv mem n s = Inr u"
      and "read_rounds need recv rounds head' inbuf' u = Inr (rest, t)"
      using Suc.prems by (auto simp: Let_def rbind_Inr_iff split: if_splits)
    then show ?thesis using Suc.IH assms trans by blast
  qed (simp add: refl)
qed (simp add: refl)

lemma read_cb_rel:
  assumes "\<And>mem n s t. recv mem n s = Inr t \<Longrightarrow> R s t" and "read_cb need recv inbuf s = Inr (rest, t)"
  shows "R s t"
proof (cases "(of_nat (length inbuf) :: u32) = 0")
  case False
  with assms(2) have "read_rounds need recv (READ_LIMIT + 1)
      (replicate (unat (of_nat (length inbuf) :: u32)) NUL) inbuf s = Inr (rest, t)"
    by (simp only: read_cb_def if_False)
  with assms(1) show ?thesis by (rule read_rounds_rel)
qed (use assms(2) in \<open>simp add: read_cb_def refl\<close>)

lemma udp_read_cb_rel:
  assumes "\<And>mem n s t. recv mem n s = Inr t \<Longrightarrow> R s t" and "udp_read_cb recv datagram s = Inr t"
  shows "R s t"
  using assms by (auto simp: udp_read_cb_def refl Let_def split: option.splits list.splits)

definition monitors_rel :: "'s monitor list \<Rightarrow> bool" where
  "monitors_rel mons \<longleftrightarrow> (\<forall>m \<in> set mons. \<forall>pos chunk s t. m pos chunk s = Inr t \<longrightarrow> R s t)"

lemma call_monitors_rel:
  "monitors_rel mons \<Longrightarrow> call_monitors mons pos chunk s = Inr t \<Longrightarrow> R s t"
  unfolding call_monitors_def
proof (induction mons arbitrary: s)
  case (Cons m mons)
  then obtain c u where "m pos c s = Inr u"
    and "rfold (\<lambda>mon s. rbind chunk (\<lambda>c. mon pos c s)) mons u = Inr t"
    by (auto simp: rbind_Inr_iff)
  moreover have "monitors_rel mons" and "\<And>pos c s t. m pos c s = Inr t \<Longrightarrow> R s t"
    using Cons.prems(1) by (auto simp: monitors_rel_def)
  ultimately show ?case using Cons.IH trans by blast
qed (simp add: refl)

lemma read_loop_rel:
  "read_loop rd mons content end_pos i curpos data data_pos ret_len s = Some y \<Longrightarrow> monitors_rel mons \<Longrightarrow>
   y = Inr (r, t) \<Longrightarrow> R s t"
proof (induction arbitrary: r t rule: read_loop.raw_induct [rotated, consumes 1, case_names step])
  case (step f rd mons content end_pos i curpos data data_pos ret_len s y)
  show ?case
  proof (cases "curpos < end_pos")
    case True
    with step(2,4) obtain i' curpos' data' data_pos' ret_len' c u where m: "call_monitors mons curpos c s = Inr u"
      and f: "f rd mons content end_pos i' curpos' data' data_pos' ret_len' u = Some (Inr (r, t))"
      by (auto simp: Let_def split: sum.splits)
    from call_monitors_rel [OF step(3) m] step(1) [OF f step(3)] trans show ?thesis by blast
  next
    case False
    with step(2,4) show ?thesis by (simp add: refl)
  qed
qed

lemma readSize_rel:
  assumes "monitors_rel mons" and "readSize fs rd mons path offset sz s = Some (Inr (r, t))"
  shows "R s t"
  using assms(2) read_loop_rel [OF _ assms(1)]
  by (auto simp: readSize_def Let_def refl split: option.splits sum.splits if_splits)

end

section \<open>Connections\<close>

text \<open>
  Every context of the two lists lives, is of its kind and is listed once; those of the TCP list
  are active; addresses are fresh.
\<close>

definition fw_inv :: "net_fw \<Rightarrow> bool" where
  "fw_inv fw \<longleftrightarrow>
     distinct (elems (tcp_ctx fw)) \<and> distinct (elems (udp_ctx fw)) \<and>
     (\<forall>i \<in> set (elems (tcp_ctx fw)). \<exists>c. ctx_heap fw i = Some c \<and> \<not> ctx_udp c \<and> ctx_active c) \<and>
     (\<forall>i \<in> set (elems (udp_ctx fw)). \<exists>c. ctx_heap fw i = Some c \<and> ctx_udp c) \<and>
     (\<forall>i. ctx_heap fw i \<noteq> None \<longrightarrow> i < ctx_fresh fw)"

definition fw_keeps :: "net_fw \<Rightarrow> net_fw \<Rightarrow> bool" where
  "fw_keeps fw fw' \<longleftrightarrow> (fw_inv fw \<longrightarrow> fw_inv fw')"

interpretation fwk: closed_rel fw_keeps
  by unfold_locales (auto simp: fw_keeps_def)

lemma fw_inv_init: "fw_inv net_fw_init"
  by (simp add: fw_inv_def net_fw_init_def)

lemma erase_last_rest:
  assumes "erase_last (\<lambda>j. j = i) v = Inr found"
  shows "(case found of None \<Rightarrow> i \<notin> set (elems v)
     | Some (x, w) \<Rightarrow> (\<exists>a b. elems v = a @ i # b \<and> elems w = a @ b))"
  using assms erase_last_Some [of "\<lambda>j. j = i" v] erase_last_None [of "\<lambda>j. j = i" v]
  by (cases found) fastforce+

lemma ctx_delete_shape:
  assumes "ctx_delete i fw = Inr fw'"
  obtains c w where "ctx_heap fw i = Some c"
    and "fw' = (if ctx_udp c then fw\<lparr>udp_ctx := w\<rparr> else fw\<lparr>tcp_ctx := w\<rparr>)\<lparr>ctx_heap := (ctx_heap fw)(i := None)\<rparr>"
    and "let v = (if ctx_udp c then udp_ctx fw else tcp_ctx fw)
         in distinct (elems v) \<longrightarrow> set (elems w) = set (elems v) - {i} \<and> distinct (elems w)"
proof -
  from assms obtain c found where c: "ctx_heap fw i = Some c"
    and e: "erase_last (\<lambda>j. j = i) (if ctx_udp c then udp_ctx fw else tcp_ctx fw) = Inr found"
    by (auto simp: ctx_delete_def ctx_at_def rbind_Inr_iff split: option.splits)
  let ?v = "if ctx_udp c then udp_ctx fw else tcp_ctx fw"
  let ?w = "case found of None \<Rightarrow> ?v | Some (_, rest) \<Rightarrow> rest"
  have "distinct (elems ?v) \<longrightarrow> set (elems ?w) = set (elems ?v) - {i} \<and> distinct (elems ?w)"
    using erase_last_rest [OF e] by (cases found) auto
  moreover have "fw' = (if ctx_udp c then fw\<lparr>udp_ctx := ?w\<rparr> else fw\<lparr>tcp_ctx := ?w\<rparr>)\<lparr>ctx_heap := (ctx_heap fw)(i := None)\<rparr>"
    using assms c e by (simp add: ctx_delete_def ctx_at_def Let_def split: if_splits)
  ultimately show thesis using that c by (simp add: Let_def)
qed

lemma ctx_delete_keeps: "ctx_delete i fw = Inr fw' \<Longrightarrow> fw_keeps fw fw'"
proof (elim ctx_delete_shape)
  fix c w
  assume c: "ctx_heap fw i = Some c"
    and fw': "fw' = (if ctx_udp c then fw\<lparr>udp_ctx := w\<rparr> else fw\<lparr>tcp_ctx := w\<rparr>)\<lparr>ctx_heap := (ctx_heap fw)(i := None)\<rparr>"
    and w: "let v = (if ctx_udp c then udp_ctx fw else tcp_ctx fw)
         in distinct (elems v) \<longrightarrow> set (elems w) = set (elems v) - {i} \<and> distinct (elems w)"
  have "fw_inv fw \<Longrightarrow> i \<notin> set (elems (if ctx_udp c then tcp_ctx fw else udp_ctx fw))"
    using c by (auto simp: fw_inv_def)
  then show "fw_keeps fw fw'"
    using w by (cases "ctx_udp c") (auto simp: fw' fw_keeps_def fw_inv_def)
qed

lemma ctx_write_keeps: "ctx_write i bs fw = Inr (sent, fw') \<Longrightarrow> fw_keeps fw fw'"
  using ctx_delete_keeps
  by (auto simp: ctx_write_def rbind_Inr_iff fw_keeps_def fw_inv_def split: if_splits)

lemma ctx_new_keeps: "ctx_new udp peer fw = (i, fw') \<Longrightarrow> fw_keeps fw fw'"
  by (cases udp) (force simp: ctx_new_def fw_keeps_def fw_inv_def Let_def)+

lemma ctx_setNetAddr_keeps:
  assumes "ctx_setNetAddr i a fw = Inr fw'"
  shows "fw_keeps fw fw'"
proof -
  obtain c where c: "ctx_heap fw i = Some c"
    and fw': "fw' = fw\<lparr>ctx_heap := (ctx_heap fw)(i \<mapsto> c\<lparr>ctx_peer := a\<rparr>)\<rparr>"
    using assms by (auto simp: ctx_setNetAddr_def ctx_at_def rbind_Inr_iff split: option.splits)
  have "\<exists>d. ctx_heap fw j = Some d \<and> P d \<Longrightarrow> P (c\<lparr>ctx_peer := a\<rparr>) = P c \<Longrightarrow>
      \<exists>d. ctx_heap fw' j = Some d \<and> P d" for j P
    using c by (cases "j = i") (auto simp: fw')
  from this [of _ "\<lambda>d. \<not> ctx_udp d \<and> ctx_active d"] this [of _ ctx_udp]
  have "fw_inv fw \<Longrightarrow> (\<forall>i \<in> set (elems (tcp_ctx fw')). \<exists>c. ctx_heap fw' i = Some c \<and> \<not> ctx_udp c \<and> ctx_active c) \<and>
     (\<forall>i \<in> set (elems (udp_ctx fw')). \<exists>c. ctx_heap fw' i = Some c \<and> ctx_udp c)"
    by (simp add: fw_inv_def fw')
  then show ?thesis using c by (simp add: fw_keeps_def fw_inv_def fw')
qed

lemma event_cb_keeps:
  assumes "event_cb i fw = Inr fw'"
  shows "fw_keeps fw fw'"
proof -
  obtain c where "ctx_heap fw i = Some c" and fw': "fw' = fw\<lparr>ctx_heap := (ctx_heap fw)(i \<mapsto> c\<lparr>ctx_active := False\<rparr>),
      tcp_ctx := (case tcp_ctx fw of NullVec \<Rightarrow> NullVec | Vec xs \<Rightarrow> Vec (remove1 i xs))\<rparr>"
    using assms by (auto simp: event_cb_def ctx_setActive_def ctx_at_def rbind_Inr_iff split: option.splits)
  moreover have "elems (tcp_ctx fw') = remove1 i (elems (tcp_ctx fw))"
    unfolding fw' by (cases "tcp_ctx fw") simp_all
  ultimately show ?thesis
    by (cases "ctx_udp c") (auto simp: fw_keeps_def fw_inv_def)
qed

lemma fw_cleanup_keeps: "fw_keeps fw (fw_cleanup fw)"
  by (cases "tcp_ctx fw"; cases "udp_ctx fw") (simp_all add: fw_cleanup_def fw_keeps_def fw_inv_def)

lemma tcp_accept_keeps: "tcp_accept aton ntoa peer fw = Inr (i, fw') \<Longrightarrow> fw_keeps fw fw'"
  using ctx_new_keeps by (auto simp: tcp_accept_def rbind_Inr_iff)

text \<open>The sessions are looked up without touching a dead context, and every one can be written to.\<close>

lemma sessions_ready:
  assumes "fw_inv fw"
  shows "\<exists>idx. getAllTcpSession fw = Inr idx \<and>
    (\<forall>a i. sm_find addr_less a idx = Some i \<longrightarrow> i \<in> set (elems (tcp_ctx fw)) \<and> ctx_ready fw i)"
proof -
  let ?f = "\<lambda>i idx. rbind (ctx_getPeer i fw) (\<lambda>a. Inr (sm_put addr_less a i idx))"
  have "\<exists>idx. rfold ?f xs idx0 = Inr idx \<and> snd ` set idx \<subseteq> set xs \<union> snd ` set idx0"
    if "set xs \<subseteq> set (elems (tcp_ctx fw))" for xs idx0
    using that
  proof (induction xs arbitrary: idx0)
    case (Cons i xs)
    then obtain c where "ctx_heap fw i = Some c" using assms by (auto simp: fw_inv_def)
    then have "?f i idx0 = Inr (sm_put addr_less (ctx_peer c) i idx0)"
      by (simp add: ctx_getPeer_def ctx_at_def)
    moreover from Cons.IH [of "sm_put addr_less (ctx_peer c) i idx0"] Cons.prems obtain idx
      where "rfold ?f xs (sm_put addr_less (ctx_peer c) i idx0) = Inr idx"
        and "snd ` set idx \<subseteq> set xs \<union> snd ` set (sm_put addr_less (ctx_peer c) i idx0)" by auto
    ultimately show ?case using values_sm_put [of addr_less "ctx_peer c" i idx0] by auto
  qed simp
  from this [of "elems (tcp_ctx fw)" "[]"] obtain idx where "getAllTcpSession fw = Inr idx"
    and "snd ` set idx \<subseteq> set (elems (tcp_ctx fw))"
    by (auto simp: getAllTcpSession_def)
  moreover have "ctx_ready fw i" if "i \<in> set (elems (tcp_ctx fw))" for i
    using assms that by (auto simp: fw_inv_def ctx_ready_def)
  ultimately show ?thesis using sm_find_values by fastforce
qed

section \<open>Triggers\<close>

definition trig_inv :: "triggers \<Rightarrow> bool" where
  "trig_inv ts \<longleftrightarrow> fw_inv (tr_fw ts) \<and> sm_sorted str_less (tr_udp ts) \<and> sm_sorted str_less (tr_tcp ts)"

definition trig_keeps :: "triggers \<Rightarrow> triggers \<Rightarrow> bool" where
  "trig_keeps ts ts' \<longleftrightarrow> (trig_inv ts \<longrightarrow> trig_inv ts') \<and> tr_mods ts' = tr_mods ts"

interpretation trk: closed_rel trig_keeps
  by unfold_locales (auto simp: trig_keeps_def)

lemma trig_keeps_fw: "fw_keeps (tr_fw ts) fw \<Longrightarrow> trig_keeps ts (ts\<lparr>tr_fw := fw\<rparr>)"
  by (simp add: trig_keeps_def trig_inv_def fw_keeps_def)

lemma trig_keeps_conns:
  "(sm_sorted str_less (conns udp ts) \<Longrightarrow> sm_sorted str_less m) \<Longrightarrow> trig_keeps ts (set_conns udp m ts)"
  by (simp add: trig_keeps_def trig_inv_def set_conns_def conns_def)

lemma setupConn_keeps: "setupConn udp ok peer fw = Inr (i, fw') \<Longrightarrow> fw_keeps fw fw'"
  using ctx_new_keeps
  by (auto simp: setupConn_def TcpCliConnSetUp_setupConn_def UdpCliConnSetUp_setupConn_def connectWithTcp_def
      connectWithUdp_def split: if_splits prod.splits)

lemma index_keeps: "trig_keeps ts (set_conns udp (snd (str_index d k (conns udp ts))) ts)"
  by (rule trig_keeps_conns) simp

lemma addConn_keeps:
  assumes "addConn ntoa ok udp addr ts = Inr (added, ts')"
  shows "trig_keeps ts ts'"
proof -
  let ?k = "addr_str ntoa addr"
  let ?ts1 = "set_conns udp (snd (str_index None ?k (conns udp ts))) ts"
  have one: "trig_keeps ts ?ts1" by (rule index_keeps)
  have fw: "trig_keeps ?ts1 (?ts1\<lparr>tr_fw := fw\<rparr>)" if "setupConn udp ok addr (tr_fw ?ts1) = Inr (i, fw)" for i fw
    using that by (intro trig_keeps_fw setupConn_keeps)
  have put: "trig_keeps (?ts1\<lparr>tr_fw := fw\<rparr>) (set_conns udp (str_put ?k (Some i) (conns udp ?ts1)) (?ts1\<lparr>tr_fw := fw\<rparr>))"
    for fw i by (rule trig_keeps_conns) (cases udp; simp add: conns_def set_conns_def)
  from assms consider "ts' = ?ts1"
    | i fw where "setupConn udp ok addr (tr_fw ?ts1) = Inr (i, fw)"
      "ts' = set_conns udp (str_put ?k (Some i) (conns udp ?ts1)) (?ts1\<lparr>tr_fw := fw\<rparr>)"
    by (auto simp: addConn_def Let_def rbind_Inr_iff split: if_splits prod.splits)
  then show ?thesis by cases (use one fw put trk.trans in blast)+
qed

lemma delNetAddr_keeps:
  assumes "delNetAddr ntoa udp addr ts = Inr (gone, ts')"
  shows "trig_keeps ts ts'"
proof -
  let ?cs = "snd (str_index None (addr_str ntoa addr) (conns udp ts))"
  from assms consider "ts' = set_conns udp ?cs ts"
    | i fw where "ctx_delete i (tr_fw ts) = Inr fw"
      "ts' = set_conns udp (str_erase (addr_str ntoa addr) ?cs) (ts\<lparr>tr_fw := fw\<rparr>)"
    by (auto simp: delNetAddr_def rbind_Inr_iff split: prod.splits option.splits)
  then show ?thesis
  proof cases
    case 2
    have "trig_keeps ts (ts\<lparr>tr_fw := fw\<rparr>)" using 2(1) by (intro trig_keeps_fw ctx_delete_keeps)
    moreover have "trig_keeps (ts\<lparr>tr_fw := fw\<rparr>) ts'"
      unfolding 2(2) by (rule trig_keeps_conns) (cases udp; simp add: conns_def)
    ultimately show ?thesis by (rule trk.trans)
  qed (simp add: index_keeps)
qed

lemma mod_conn_recv_keeps: "mod_conn_recv ntoa ok m uri d ts = Inr ts' \<Longrightarrow> trig_keeps ts ts'"
  using addConn_keeps delNetAddr_keeps trk.refl
  by (cases m) (auto simp: DiscoveryTrigger_recv_def SyncReqTbIdxTrigger_recv_def rbind_Inr_iff split: if_splits)

lemma mod_conn_send_keeps: "mod_conn_send ntoa ok m to uri d ts = Inr ts' \<Longrightarrow> trig_keeps ts ts'"
  using mod_conn_recv_keeps trk.refl by (auto simp: mod_conn_send_def split: option.splits)

lemma exec_keeps:
  assumes "exec_of udp ntoa i ts = Inr (again, ts')"
  shows "trig_keeps ts ts'"
proof -
  from assms obtain bs sent fw where w: "ctx_write i bs (tr_fw ts) = Inr (sent, fw)"
    and ts': "ts' = ts\<lparr>tr_fw := fw\<rparr> \<or> (\<exists>m to uri d. mod_conn_send ntoa False m to uri d (ts\<lparr>tr_fw := fw\<rparr>) = Inr ts')"
    by (cases udp) (fastforce simp: exec_of_def SyncCliDiscoverLogic_exec_def reqTbIdx_def rbind_Inr_iff split: if_splits)+
  from w have "trig_keeps ts (ts\<lparr>tr_fw := fw\<rparr>)" by (intro trig_keeps_fw ctx_write_keeps)
  with ts' show ?thesis using mod_conn_send_keeps trk.trans by blast
qed

lemma trigger_loop_keeps:
  "trigger_loop udp exec iter ts = Some y \<Longrightarrow> exec = exec_of udp ntoa \<Longrightarrow> y = Inr ts' \<Longrightarrow> trig_keeps ts ts'"
proof (induction arbitrary: ts' rule: trigger_loop.raw_induct [rotated, consumes 1, case_names step])
  case (step f udp exec iter ts y)
  show ?case
  proof (cases "y = Inr ts")
    case True
    with step.prems show ?thesis by (simp add: trk.refl)
  next
    case False
    with step(2-4) consider i again u iter' where "exec i ts = Inr (again, u)"
        "f udp exec iter' u = Some (Inr ts')"
      | k i again u iter' where "exec i ts = Inr (again, u)"
        "f udp exec iter' (set_conns udp (str_erase k (conns udp u)) u) = Some (Inr ts')"
      by (auto simp: Let_def rbind_Inr_iff split: option.splits sum.splits if_splits)
    then obtain i again u iter' v where e: "exec i ts = Inr (again, u)" and v: "trig_keeps u v"
      and f: "f udp exec iter' v = Some (Inr ts')"
      using trk.refl trig_keeps_conns by cases (metis str_map.sorted_erase)+
    have "trig_keeps ts u" using e step(3) exec_keeps by simp
    moreover have "trig_keeps v ts'" using step(1) [OF f step(3)] by simp
    ultimately show ?thesis using v trk.trans by blast
  qed
qed

lemma trigger_keeps: "trigger udp (exec_of udp ntoa) ts = Some (Inr ts') \<Longrightarrow> trig_keeps ts ts'"
  unfolding trigger_def by (rule trigger_loop_keeps) simp_all

section \<open>The books\<close>

definition mgr_moves :: "sync_manager \<Rightarrow> sync_manager \<Rightarrow> bool" where
  "mgr_moves m m' \<longleftrightarrow>
     (mgr_exclusive m \<longrightarrow> mgr_exclusive m' \<and> (\<exists>ops. board_steps ops (mgr_status m) (mgr_status m')))"

lemma board_steps_append:
  "board_steps xs s t \<Longrightarrow> board_steps ys t u \<Longrightarrow> board_steps (xs @ ys) s u"
  by (induction rule: board_steps.induct) (auto intro: board_steps.more)

interpretation mgm: closed_rel mgr_moves
  by unfold_locales (auto simp: mgr_moves_def intro: board_steps.none board_steps_append)

lemma mgr_step_moves: "mgr_step vr w x (l, m) = Inr ((l', m'), f) \<Longrightarrow> mgr_moves m m'"
  unfolding mgr_moves_def by (meson mgr_step_status board_steps.intros)

lemma register_moves: "regSyncRs peer uri hash sz m = Inr (ok, m') \<Longrightarrow> mgr_moves m m'"
  using mgr_step_moves [of undefined uri "Register peer uri hash sz" undefined m] by simp

lemma request_moves: "regReqSyncRsAuto peer uri now m = (b, m') \<Longrightarrow> mgr_moves m m'"
  using mgr_step_moves [of undefined uri "Request peer uri now" undefined m] by simp

lemma unreg_block_moves: "unregReqSyncRsByBlock peer b uri m = Inr m' \<Longrightarrow> mgr_moves m m'"
  using mgr_step_moves [of undefined uri "UnregBlock peer b uri" undefined m] by simp

lemma unreg_peer_moves: "unregAllReqSyncRsByPeer peer uri m = Inr m' \<Longrightarrow> mgr_moves m m'"
  using mgr_step_moves [of undefined uri "UnregPeer peer uri" undefined m] by simp

lemma range_done_moves: "syncingRangeDoneAndValid vr peer uri b valid (l, m) = Inr (l', m') \<Longrightarrow> mgr_moves m m'"
  using mgr_step_moves [of vr uri "RangeDone peer uri b valid" l m] by simp

lemma touch_moves: "mgr_moves m (set_entry uri (uri_entry uri m) m)"
  using mgr_step_moves [of undefined uri "OwnerSize uri" undefined m] by (simp add: getOwnerSize_def Let_def)

lemma size_moves:
  "getOwnerSize uri m = (n, m') \<Longrightarrow> mgr_moves m m'" "getBlockSize uri m = (n, m') \<Longrightarrow> mgr_moves m m'"
  "getSyncingSize uri m = (n, m') \<Longrightarrow> mgr_moves m m'"
  using touch_moves by (auto simp: getOwnerSize_def getBlockSize_def getSyncingSize_def Let_def)

lemmas book_moves = register_moves request_moves unreg_block_moves unreg_peer_moves range_done_moves
  touch_moves size_moves

section \<open>Nodes\<close>

definition board_of :: "node \<Rightarrow> board" where
  "board_of nd = (case nd_rsm nd of Manager m \<Rightarrow> mgr_status m | _ \<Rightarrow> (\<lambda>_ _. Gone))"

definition node_inv :: "node \<Rightarrow> bool" where
  "node_inv nd \<longleftrightarrow>
     trig_inv (nd_trig nd) \<and> queue_inv (nd_tasks nd) \<and> tr_mods (nd_trig nd) = wired_mods \<and>
     (case nd_rsm nd of Manager m \<Rightarrow> mgr_exclusive m | _ \<Rightarrow> True)"

definition moves :: "node \<Rightarrow> node \<Rightarrow> bool" where
  "moves nd nd' \<longleftrightarrow>
     (node_inv nd \<longrightarrow> node_inv nd' \<and> (\<exists>ops. board_steps ops (board_of nd) (board_of nd')))"

interpretation ndm: closed_rel moves
  by unfold_locales (auto simp: moves_def intro: board_steps.none board_steps_append)

definition queue_keeps :: "node \<Rightarrow> node \<Rightarrow> bool" where
  "queue_keeps nd nd' \<longleftrightarrow> (queue_inv (nd_tasks nd) \<longrightarrow> queue_inv (nd_tasks nd'))"

lemma moves_same:
  assumes "trig_keeps (nd_trig nd) (nd_trig nd')" and "nd_rsm nd' = nd_rsm nd" and "queue_keeps nd nd'"
  shows "moves nd nd'"
  using assms board_steps.none [of "board_of nd"]
  by (auto simp: moves_def node_inv_def trig_keeps_def queue_keeps_def board_of_def)

lemma moves_books:
  assumes "nd_rsm nd = Manager m" and "nd_rsm nd' = Manager m'" and "mgr_moves m m'"
    and "nd_trig nd' = nd_trig nd" and "nd_tasks nd' = nd_tasks nd"
  shows "moves nd nd'"
  using assms by (auto simp: moves_def node_inv_def mgr_moves_def board_of_def)

lemma getRsSyncManager_Manager: "getRsSyncManager nd = Inr m \<Longrightarrow> nd_rsm nd = Manager m"
  by (simp add: getRsSyncManager_def split: rsm_ptr.splits)

lemma set_fw_moves: "fw_keeps (nd_fw nd) fw \<Longrightarrow> moves nd (set_fw fw nd)"
  by (rule moves_same) (simp_all add: set_fw_def nd_fw_def trig_keeps_fw queue_keeps_def)

lemma write_moves: "write_or_throw i bs nd = Inr nd' \<Longrightarrow> moves nd nd'"
  using ctx_write_keeps set_fw_moves by (auto simp: write_or_throw_def rbind_Inr_iff split: if_splits)

lemma addTask_queue: "queue_inv m \<Longrightarrow> queue_inv (snd (addTask t m))"
  by (auto simp: addTask_def queue_inv_def list_ex_iff getId_def)

lemma add_req_task_moves: "add_req_task nd = Inr nd' \<Longrightarrow> moves nd nd'"
proof -
  have "nd_trig (foldl f nd xs) = nd_trig nd \<and> nd_rsm (foldl f nd xs) = nd_rsm nd \<and> queue_keeps nd (foldl f nd xs)"
    if "f = (\<lambda>nd (uri, rs). (case getSyncingSize uri rsm of (n, rsm') \<Rightarrow>
                 if n < of_nat DOWNLOAD_LIMIT
                 then nd\<lparr>nd_tasks := snd (addTask \<lparr>task_id = uri, task_body = uri\<rparr> (nd_tasks nd))\<rparr>
                 else nd))" for f rsm and xs :: "(string \<times> sync_rs) list"
    unfolding that
    by (induction xs arbitrary: nd) (auto simp: queue_keeps_def addTask_queue split: prod.splits)
  then show "add_req_task nd = Inr nd' \<Longrightarrow> moves nd nd'"
    by (auto simp: add_req_task_def rbind_Inr_iff trk.refl intro!: moves_same)
qed

section \<open>Handlers\<close>

lemma config_moves [simp]: "moves nd (nd\<lparr>nd_config := cfg\<rparr>)" "moves nd (nd\<lparr>nd_rlm := rlm\<rparr>)"
  "moves nd (nd\<lparr>nd_fs := fs, nd_dirs := dirs\<rparr>)"
  by (rule moves_same; simp add: trk.refl queue_keeps_def)+

lemma config_write_moves: "write_or_throw i bs (nd\<lparr>nd_config := cfg\<rparr>) = Inr nd' \<Longrightarrow> moves nd nd'"
    "write_or_throw i bs (nd\<lparr>nd_rlm := rlm\<rparr>) = Inr nd' \<Longrightarrow> moves nd nd'"
  by (rule ndm.trans [OF config_moves(1) write_moves], assumption,
      rule ndm.trans [OF config_moves(2) write_moves], assumption)

lemma handleHello_moves: "handleHello i nd = Inr nd' \<Longrightarrow> moves nd nd'"
  by (auto simp: handleHello_def rbind_Inr_iff dest: config_write_moves)

lemma handleHelloAck_moves: "handleHelloAck h pkt i nd = Inr nd' \<Longrightarrow> moves nd nd'"
  using mod_conn_send_keeps
  by (auto simp: handleHelloAck_def Let_def rbind_Inr_iff ndm.refl queue_keeps_def intro!: moves_same
      split: if_splits)

lemma handleReqTableIndex_moves: "handleReqTableIndex h i nd = Inr nd' \<Longrightarrow> moves nd nd'"
  by (auto simp: handleReqTableIndex_def rbind_Inr_iff dest: config_write_moves)

lemma monitor_keeps: "SyncIOReadMonitor_monitor i r rng pos chunk fw = Inr fw' \<Longrightarrow> fw_keeps fw fw'"
  using ctx_write_keeps by (auto simp: SyncIOReadMonitor_monitor_def Let_def rbind_Inr_iff)

lemma serve_moves:
  assumes "readSize fs rd [SyncIOReadMonitor_monitor i r rng] path pos sz (nd_fw nd) = Some (Inr (x, fw))"
  shows "moves nd (set_fw fw nd)"
proof (rule set_fw_moves)
  have "fwk.monitors_rel [SyncIOReadMonitor_monitor i r rng]"
    by (simp add: fwk.monitors_rel_def monitor_keeps)
  then show "fw_keeps (nd_fw nd) fw" using assms by (rule fwk.readSize_rel)
qed

lemma handleReqResource_moves:
  assumes "handleReqResource h pkt i nd = Some (Inr nd')"
  shows "moves nd nd'"
proof -
  let ?X = "rbind (Range_of (fst (queryXheader XHEADER_RANGE pkt))) (\<lambda>rng.
      rbind (Range_to_string rng) (\<lambda>range_txt. rbind (getRsLocalManager nd) (\<lambda>rlm.
      rbind (read_init (rg_start_pos rng)) (\<lambda>start_pos.
        (case queryByUri (c_str (fst (queryXheader XHEADER_URI pkt))) (lm_table rlm) of (rs, tbl) \<Rightarrow>
           Inr (rng, start_pos, rs, nd\<lparr>nd_rlm := rlm\<lparr>lm_table := tbl\<rparr>\<rparr>))))))"
  obtain rng sp rs nd1 where X: "?X = Inr (rng, sp, rs, nd1)"
    using assms by (cases ?X) (auto simp: handleReqResource_def)
  then obtain rlm where "getRsLocalManager nd = Inr rlm" by (auto simp: rbind_Inr_iff)
  with X have "\<exists>tbl. nd1 = nd\<lparr>nd_rlm := rlm\<lparr>lm_table := tbl\<rparr>\<rparr>"
    by (cases "queryByUri (c_str (fst (queryXheader XHEADER_URI pkt))) (lm_table rlm)") (auto simp: rbind_Inr_iff)
  then have one: "moves nd nd1" by auto
  have "moves nd1 nd'"
  proof (cases rs)
    case None
    with assms X show ?thesis by (simp add: handleReqResource_def ndm.refl)
  next
    case (Some r)
    with assms X obtain path where "arr_str (r_path r) = Inr path"
      by (cases "arr_str (r_path r)") (simp_all add: handleReqResource_def)
    with assms X Some show ?thesis
      by (auto simp: handleReqResource_def serve_moves split: option.splits sum.splits)
  qed
  with one show ?thesis by (rule ndm.trans)
qed

lemma refresh_moves:
  assumes "refreshSyncingRsByTbIdx h fs peer table (rlm, rsm) = Inr (rlm', rsm')"
  shows "mgr_moves rsm rsm'"
proof -
  from assms obtain need :: "resource list" where "rfold (\<lambda>r m. rbind (arr_str (r_uri r)) (\<lambda>uri. rbind (arr_str (r_hash r)) (\<lambda>hash.
                 rbind (regSyncRs peer uri hash (r_size r) m) (\<lambda>(_, m'). Inr m')))) need rsm = Inr rsm'"
    by (auto simp: refreshSyncingRsByTbIdx_def rbind_Inr_iff)
  then show ?thesis
    by (rule mgm.rfold_rel [rotated]) (auto simp: rbind_Inr_iff dest: register_moves)
qed

lemma handleReplyTableIndex_moves: "handleReplyTableIndex h pkt i nd = Inr nd' \<Longrightarrow> moves nd nd'"
proof -
  assume r: "handleReplyTableIndex h pkt i nd = Inr nd'"
  then obtain rsm rsm' rlm peer table where m: "nd_rsm nd = Manager rsm"
    and s: "refreshSyncingRsByTbIdx h (nd_fs nd) peer table (nd_rlm nd, rsm) = Inr (rlm, rsm')"
    and a: "add_req_task (nd\<lparr>nd_rlm := rlm, nd_rsm := Manager rsm'\<rparr>) = Inr nd'"
    by (auto simp: handleReplyTableIndex_def Let_def rbind_Inr_iff dest: getRsSyncManager_Manager)
  have "moves nd (nd\<lparr>nd_rlm := rlm, nd_rsm := Manager rsm'\<rparr>)"
    using m refresh_moves [OF s] by (intro moves_books [of nd rsm _ rsm']) simp_all
  then show ?thesis using add_req_task_moves [OF a] by (rule ndm.trans)
qed

lemma books_task_moves:
  assumes "nd_rsm nd = Manager m" and "mgr_moves m m'"
    and "add_req_task (nd\<lparr>nd_rlm := rlm, nd_rsm := Manager m'\<rparr>) = Inr nd'"
  shows "moves nd nd'"
  by (rule ndm.trans [OF moves_books add_req_task_moves [OF assms(3)]])
    (use assms(1,2) in simp_all)

lemma handleReplyResource_moves:
  assumes "handleReplyResource h mem pkt i nd = Some (Inr nd')"
  shows "moves nd nd'"
proof (cases "fst (queryXheader XHEADER_URI pkt) = []")
  case True
  with assms show ?thesis by (simp add: handleReplyResource_def ndm.refl)
next
  case False
  let ?X = "rbind (ContentRange_of (fst (queryXheader XHEADER_CONTENT_RANGE pkt))) (\<lambda>cr.
      rbind (ContentRange_to_string cr) (\<lambda>cr_txt. rbind (getRsSyncManager nd) (\<lambda>rsm.
      rbind (getRsLocalManager nd) (\<lambda>rlm. Inr (cr, rsm, rlm)))))"
  obtain cr rsm rlm where X: "?X = Inr (cr, rsm, rlm)"
    using assms False by (cases ?X) (auto simp: handleReplyResource_def Let_def)
  then have m: "nd_rsm nd = Manager rsm" by (auto simp: rbind_Inr_iff dest: getRsSyncManager_Manager)
  let ?S = "saveLocal (h_cwd h) (h_mkdir h) (h_open h) (h_write h) (fst (queryXheader XHEADER_URI pkt))
      (drop (unat (header_len pkt)) mem) (cr_start_pos cr) (cr_size cr) rlm (nd_fs nd, nd_dirs nd)"
  obtain wr fs dirs where S: "?S = Some (Inr (wr, fs, dirs))"
    using assms False X
    by (cases ?S) (auto simp: handleReplyResource_def Let_def split: sum.split_asm prod.split_asm)
  let ?b = "Block (cr_start_pos cr) (cr_start_pos cr + cr_size cr)"
  let ?nd1 = "nd\<lparr>nd_fs := fs, nd_dirs := dirs\<rparr>"
  have "moves ?nd1 nd'"
  proof (cases wr)
    case True
    with assms False X S obtain peer rlm' rsm'
      where d: "syncingRangeDoneAndValid (validRes (host_digester h fs) (h_cwd h) (h_tree h fs)) peer
          (fst (queryXheader XHEADER_URI pkt)) ?b True (rlm, rsm) = Inr (rlm', rsm')"
        and t: "add_req_task (?nd1\<lparr>nd_rlm := rlm', nd_rsm := Manager rsm'\<rparr>) = Inr nd'"
      by (auto simp: handleReplyResource_def Let_def rbind_Inr_iff)
    from m range_done_moves [OF d] t show ?thesis by (intro books_task_moves) simp_all
  next
    case False
    with assms \<open>fst (queryXheader XHEADER_URI pkt) \<noteq> []\<close> X S obtain peer rsm'
      where d: "unregReqSyncRsByBlock peer ?b (fst (queryXheader XHEADER_URI pkt)) rsm = Inr rsm'"
        and t: "add_req_task (?nd1\<lparr>nd_rlm := nd_rlm ?nd1, nd_rsm := Manager rsm'\<rparr>) = Inr nd'"
      by (auto simp: handleReplyResource_def Let_def rbind_Inr_iff)
    from m unreg_block_moves [OF d] t show ?thesis
      by (intro books_task_moves [of ?nd1 rsm rsm' "nd_rlm ?nd1"]) simp_all
  qed
  then show ?thesis by (rule ndm.trans [OF config_moves(3)])
qed

lemma exit_moves: "moves nd (SyncService_exit nd)"
  by (rule moves_same) (simp_all add: SyncService_exit_def set_fw_def nd_fw_def trig_keeps_fw fw_cleanup_keeps
      queue_keeps_def stop_def queue_inv_def)

lemma recv_moves:
  "recv_udp h i mem n nd = Some (Inr nd') \<Longrightarrow> moves nd nd'"
  "recv_tcp h i mem n nd = Some (Inr nd') \<Longrightarrow> moves nd nd'"
  by (auto simp: recv_udp_def recv_tcp_def ndm.refl handleHello_moves handleHelloAck_moves handleReqTableIndex_moves
      handleReqResource_moves handleReplyTableIndex_moves handleReplyResource_moves exit_moves
      split: option.split_asm sum.split_asm if_split_asm)

lemma endpoint_recv_moves: "endpoint_recv h i mem n nd = Inr nd' \<Longrightarrow> moves nd nd'"
proof -
  have "logic_recv h l i mem n nd = Some (Inr nd') \<Longrightarrow> moves nd nd'" for l
    using recv_moves by (cases l) (simp_all add: LogicTcp_recv_def LogicUdp_recv_def)
  moreover have "returned r = Inr x \<Longrightarrow> r = Some (Inr x)" for r :: "node res option" and x
    by (cases r) simp_all
  ultimately show "endpoint_recv h i mem n nd = Inr nd' \<Longrightarrow> moves nd nd'"
    by (auto simp: endpoint_recv_def rbind_Inr_iff)
qed

lemma tcp_input_moves: "tcp_input h i inbuf nd = Inr (rest, nd') \<Longrightarrow> moves nd nd'"
  unfolding tcp_input_def by (rule ndm.read_cb_rel) (rule endpoint_recv_moves)

lemma udp_input_moves: "udp_input h i src datagram nd = Inr nd' \<Longrightarrow> moves nd nd'"
  unfolding udp_input_def
proof (rule ndm.udp_read_cb_rel)
  fix mem n nd nd'
  assume "rbind (fromBe (h_aton h) (h_ntoa h) src) (\<lambda>a. rbind (ctx_setNetAddr i a (nd_fw nd)) (\<lambda>fw.
      endpoint_recv h i mem n (set_fw fw nd))) = Inr nd'"
  then show "moves nd nd'"
    using endpoint_recv_moves set_fw_moves ctx_setNetAddr_keeps ndm.trans by (auto simp: rbind_Inr_iff) blast
qed

text \<open>
  A request that cannot be written has deleted its context, so the second \<open>delete\<close> of the
  handler faults: when \<open>sendRsReq\<close> returns, the packet was sent.
\<close>

lemma sendRsReq_sent:
  assumes "sendRsReq uri ctx b nd = Inr nd'"
  shows "\<exists>i bs fw. ctx = Some i \<and> ctx_write i bs (nd_fw nd) = Inr (True, fw) \<and> nd' = set_fw fw nd"
proof -
  from assms obtain i bs sent fw where i: "ctx = Some i" and w: "ctx_write i bs (nd_fw nd) = Inr (sent, fw)"
    and r: "sent \<and> nd' = set_fw fw nd \<or> \<not> sent \<and> (\<exists>fw'. ctx_delete i fw = Inr fw')"
    by (auto simp: sendRsReq_def rbind_Inr_iff split: option.split_asm if_split_asm)
  have "\<not> sent \<Longrightarrow> ctx_heap fw i = None"
    using w ctx_delete_gone by (auto simp: ctx_write_def rbind_Inr_iff split: if_split_asm)
  then have "sent" and "nd' = set_fw fw nd" using r by (auto simp: ctx_delete_def ctx_at_def)
  with i w show ?thesis by auto
qed

lemma sendRsReq_moves: "sendRsReq uri ctx b nd = Inr nd' \<Longrightarrow> moves nd nd'"
  using sendRsReq_sent set_fw_moves ctx_write_keeps by blast

lemma ReqRsTask_run_moves: "ReqRsTask_run h uri nd = Inr nd' \<Longrightarrow> moves nd nd'"
proof -
  assume r: "ReqRsTask_run h uri nd = Inr nd'"
  then obtain m where m: "nd_rsm nd = Manager m"
    by (auto simp: ReqRsTask_run_def rbind_Inr_iff dest: getRsSyncManager_Manager)
  obtain n1 m1 where 1: "getOwnerSize uri (set_entry uri (uri_entry uri m) m) = (n1, m1)" by (rule prod.exhaust)
  obtain n2 m2 where 2: "getBlockSize uri m1 = (n2, m2)" by (rule prod.exhaust)
  obtain n3 m3 where 3: "getSyncingSize uri m2 = (n3, m3)" by (rule prod.exhaust)
  have asked: "mgr_moves m m3"
    using touch_moves [of m uri] size_moves(1) [OF 1] size_moves(2) [OF 2] size_moves(3) [OF 3] mgm.trans by blast
  have "\<exists>m'. mgr_moves m3 m' \<and> moves (nd\<lparr>nd_rsm := Manager m'\<rparr>) nd'"
  proof (cases "n1 = 0 \<or> n2 = 0 \<or> of_nat DOWNLOAD_LIMIT \<le> n3")
    case True
    then have "nd' = nd\<lparr>nd_rsm := Manager m3\<rparr>"
      using r m 1 2 3 by (auto simp: ReqRsTask_run_def rbind_Inr_iff getRsSyncManager_def)
    then show ?thesis using mgm.refl ndm.refl by blast
  next
    case False
    then obtain idx peer where tail: "(case regReqSyncRsAuto peer uri (h_time h) m3 of (b, m4) \<Rightarrow>
        (let nd' = nd\<lparr>nd_rsm := Manager m4\<rparr> in
         if b_end b \<noteq> 0 then sendRsReq uri (fst (sm_index addr_less None peer (map (map_prod id Some) idx))) b nd'
         else Inr nd')) = Inr nd'"
      using r m 1 2 3 by (auto simp: ReqRsTask_run_def rbind_Inr_iff getRsSyncManager_def)
    obtain b m4 where q: "regReqSyncRsAuto peer uri (h_time h) m3 = (b, m4)" by (rule prod.exhaust)
    with tail have "moves (nd\<lparr>nd_rsm := Manager m4\<rparr>) nd'"
      using sendRsReq_moves ndm.refl by (auto simp: Let_def split: if_split_asm)
    with request_moves [OF q] show ?thesis by blast
  qed
  then obtain m' where "mgr_moves m m'" and t: "moves (nd\<lparr>nd_rsm := Manager m'\<rparr>) nd'"
    using asked mgm.trans by blast
  with m have "moves nd (nd\<lparr>nd_rsm := Manager m'\<rparr>)" by (intro moves_books) simp_all
  then show ?thesis using t by (rule ndm.trans)
qed

end
