(* ===== verification/Timer_Trigger.thy ===== *)
theory Timer_Trigger
  imports Std_Map
begin

text \<open>
  \<open>timer/timer_trigger.cpp\<close> and \<open>timer/timer_trigger_with_event.cpp\<close>: periodic triggers and the
  table of those that libevent calls back. A trigger is an address (a number) of the heap; the
  pointer \<open>ev\<close> of a trigger has no value before \<open>setEvent\<close> (\<open>None\<close>). What libevent is told is
  the log \<open>tm_events\<close>: the trigger, its period, and whether the event repeats.
\<close>

section \<open>Triggers\<close>

record timeval =
  tv_sec :: nat
  tv_usec :: nat

record timer_trigger =
  tt_period :: timeval
  tt_persist :: bool
  tt_ev :: "nat option"

definition Trigger_second :: "nat \<Rightarrow> timeval" where
  "Trigger_second s = \<lparr>tv_sec = s, tv_usec = 0\<rparr>"

definition TriggerWithEvent_new :: "timeval \<Rightarrow> bool \<Rightarrow> timer_trigger" where
  "TriggerWithEvent_new p persist = \<lparr>tt_period = p, tt_persist = persist, tt_ev = None\<rparr>"

definition getPeriod :: "timer_trigger \<Rightarrow> timeval" where
  "getPeriod tr = tt_period tr"

definition getPersist :: "timer_trigger \<Rightarrow> bool" where
  "getPersist tr = tt_persist tr"

definition setEvent :: "nat \<Rightarrow> timer_trigger \<Rightarrow> timer_trigger" where
  "setEvent ev tr = tr\<lparr>tt_ev := Some ev\<rparr>"

section \<open>The table\<close>

record timer =
  tm_base :: bool
  tm_triggers :: "(nat, nat option) smap"
  tm_heap :: "nat \<Rightarrow> timer_trigger option"
  tm_events :: "(nat \<times> timeval \<times> bool) list"

definition ptr_less :: "nat \<Rightarrow> nat \<Rightarrow> bool" where
  "ptr_less a b \<longleftrightarrow> a < b"

interpretation ptr_map: strict_order ptr_less
  by unfold_locales (auto simp: ptr_less_def)

definition TimerWithEvent_init :: "timer \<Rightarrow> timer" where
  "TimerWithEvent_init t = t\<lparr>tm_base := True\<rparr>"

definition tr_at :: "nat \<Rightarrow> timer \<Rightarrow> timer_trigger res" where
  "tr_at tr t = (case tm_heap t tr of Some x \<Rightarrow> Inr x | None \<Rightarrow> Inl UseAfterFree)"

definition addTr :: "nat \<Rightarrow> timer \<Rightarrow> (bool \<times> timer) res" where
  "addTr tr t =
     (if \<not> tm_base t then Inl ProcessExit
      else
        (case sm_index ptr_less None tr (tm_triggers t) of (exist, trs) \<Rightarrow>
           if exist \<noteq> None then Inr (False, t\<lparr>tm_triggers := trs\<rparr>)
           else
             rbind (tr_at tr t) (\<lambda>x.
               Inr (True, t\<lparr>tm_heap := (tm_heap t)(tr \<mapsto> setEvent (length (tm_events t)) x),
                            tm_events := tm_events t @ [(tr, getPeriod x, getPersist x)],
                            tm_triggers := sm_put ptr_less tr (Some tr) trs\<rparr>))))"

text \<open>\<open>delTr\<close> erases the entry it has found and then reads it through the erased iterator.\<close>

definition delTr :: "nat \<Rightarrow> timer \<Rightarrow> (bool \<times> timer) res" where
  "delTr tr t =
     (if sm_find ptr_less tr (tm_triggers t) = None then Inr (False, t) else Inl BadIterator)"

text \<open>\<open>~TriggerWithEvent\<close> tests a pointer that only \<open>setEvent\<close> gives a value.\<close>

definition trigger_delete :: "nat \<Rightarrow> timer \<Rightarrow> timer res" where
  "trigger_delete tr t =
     rbind (tr_at tr t) (\<lambda>x. rbind (read_init (tt_ev x)) (\<lambda>ev.
       Inr (t\<lparr>tm_heap := (tm_heap t)(tr := None)\<rparr>)))"

text \<open>\<open>~TimerWithEvent\<close> looks at the first entry before it asks whether there is one.\<close>

fun delete_entries :: "(nat, nat option) smap \<Rightarrow> timer \<Rightarrow> timer res" where
  "delete_entries [] t = Inl BadIterator"
| "delete_entries (e # es) t =
     rbind (trigger_delete (fst e) (t\<lparr>tm_triggers := es\<rparr>)) (\<lambda>t'.
       if es = [] then Inr t' else delete_entries es t')"

definition TimerWithEvent_destroy :: "timer \<Rightarrow> timer res" where
  "TimerWithEvent_destroy t = delete_entries (tm_triggers t) t"

text \<open>\<open>timeout_cb\<close> calls the trigger it was registered for.\<close>

definition timeout_cb :: "(nat \<Rightarrow> 's \<Rightarrow> 's res option) \<Rightarrow> nat \<Rightarrow> 's \<Rightarrow> 's res option" where
  "timeout_cb run tr s = run tr s"

section \<open>Scheduling\<close>

definition timer_started :: "(nat \<Rightarrow> timer_trigger option) \<Rightarrow> timer" where
  "timer_started heap =
     TimerWithEvent_init \<lparr>tm_base = False, tm_triggers = [], tm_heap = heap, tm_events = []\<rparr>"

definition add_all :: "nat list \<Rightarrow> timer \<Rightarrow> timer res" where
  "add_all trs t = rfold (\<lambda>tr t. rbind (addTr tr t) (\<lambda>(_, t'). Inr t')) trs t"

text \<open>What holds of the table: the entries are the triggers libevent knows, each once.\<close>

definition timer_inv :: "timer \<Rightarrow> bool" where
  "timer_inv t \<longleftrightarrow> tm_base t \<and> sm_sorted ptr_less (tm_triggers t) \<and> distinct (map fst (tm_events t)) \<and>
     (\<forall>tr. sm_find ptr_less tr (tm_triggers t) =
        (if tr \<in> fst ` set (tm_events t) then Some (Some tr) else None)) \<and>
     (\<forall>tr \<in> fst ` set (tm_events t). \<exists>x. tm_heap t tr = Some x \<and> tt_ev x \<noteq> None)"

lemma addTr_inv:
  assumes "timer_inv t" and "tm_heap t tr \<noteq> None"
  shows "\<exists>new t'. addTr tr t = Inr (new, t') \<and> timer_inv t' \<and> (new \<longleftrightarrow> tr \<notin> fst ` set (tm_events t)) \<and>
    fst ` set (tm_events t') = insert tr (fst ` set (tm_events t)) \<and>
    (\<forall>u. tm_heap t u \<noteq> None \<longrightarrow> tm_heap t' u \<noteq> None)"
proof (cases "tr \<in> fst ` set (tm_events t)")
  case True
  then have "addTr tr t = Inr (False, t)" using assms(1) by (simp add: addTr_def timer_inv_def sm_index_def)
  with True assms(1) show ?thesis by auto
next
  case False
  obtain x where x: "tm_heap t tr = Some x" using assms(2) by blast
  let ?t = "t\<lparr>tm_heap := (tm_heap t)(tr \<mapsto> setEvent (length (tm_events t)) x),
      tm_events := tm_events t @ [(tr, getPeriod x, getPersist x)],
      tm_triggers := sm_put ptr_less tr (Some tr) (tm_triggers t)\<rparr>"
  have "addTr tr t = Inr (True, ?t)"
    using False assms(1) x by (simp add: addTr_def timer_inv_def sm_index_def tr_at_def)
  moreover have "timer_inv ?t" using False assms(1) by (auto simp: timer_inv_def setEvent_def)
  ultimately show ?thesis using False by auto
qed

lemma add_all_inv:
  assumes "timer_inv t" and "\<forall>tr \<in> set trs. tm_heap t tr \<noteq> None"
  shows "\<exists>t'. add_all trs t = Inr t' \<and> timer_inv t' \<and> fst ` set (tm_events t') = set trs \<union> fst ` set (tm_events t)"
  using assms
proof (induction trs arbitrary: t)
  case (Cons tr trs)
  obtain new t1 where t1: "addTr tr t = Inr (new, t1)" "timer_inv t1"
    "fst ` set (tm_events t1) = insert tr (fst ` set (tm_events t))" "\<forall>u. tm_heap t u \<noteq> None \<longrightarrow> tm_heap t1 u \<noteq> None"
    using addTr_inv [OF Cons.prems(1), of tr] Cons.prems(2) by auto
  then have "\<forall>tr \<in> set trs. tm_heap t1 tr \<noteq> None" using Cons.prems(2) by simp
  from Cons.IH [OF t1(2) this] t1 show ?case by (auto simp: add_all_def)
qed (simp add: add_all_def)

lemma timer_inv_started: "timer_inv (timer_started heap)"
  by (simp add: timer_inv_def timer_started_def TimerWithEvent_init_def)

section \<open>Properties\<close>

text \<open>
  C29: however often triggers are added, libevent is told of each one exactly once, and taking a
  trigger back, or destroying the empty table, faults.
\<close>

theorem triggers_scheduled_once:
  assumes "\<forall>tr \<in> set trs. heap tr \<noteq> None"
  shows "\<exists>t. add_all trs (timer_started heap) = Inr t \<and> distinct (map fst (tm_events t)) \<and>
    fst ` set (tm_events t) = set trs \<and> (\<forall>tr \<in> set trs. delTr tr t = Inl BadIterator) \<and>
    TimerWithEvent_destroy (timer_started heap) = Inl BadIterator"
proof -
  have "\<forall>tr \<in> set trs. tm_heap (timer_started heap) tr \<noteq> None" and "tm_events (timer_started heap) = []"
    and "tm_triggers (timer_started heap) = []"
    using assms by (simp_all add: timer_started_def TimerWithEvent_init_def)
  with add_all_inv [OF timer_inv_started, of trs heap] show ?thesis
    by (auto simp: timer_inv_def delTr_def TimerWithEvent_destroy_def)
qed

theorem triggers_scheduled_once_witness:
  "\<exists>t. add_all [7, 3, 7] (timer_started (\<lambda>_. Some (TriggerWithEvent_new (Trigger_second 2) True))) = Inr t \<and>
     fst ` set (tm_events t) = {3, 7}"
  using triggers_scheduled_once [of "[7, 3, 7]" "\<lambda>_. Some (TriggerWithEvent_new (Trigger_second 2) True)"] by auto

end
