(* ===== verification/Log_Config.thy ===== *)
theory Log_Config
  imports Config_Manager
begin

text \<open>
  \<open>configlog\<close> of \<open>utils/logger.cpp\<close>: the four sinks of the default logger and its level. The
  logging library passes a message to a sink when its level reaches both the level of the
  logger and that of the sink; \<open>delivered\<close> is this documented rule.
\<close>

definition severity :: "log_level \<Rightarrow> nat" where
  "severity l = (case l of L_debug \<Rightarrow> 1 | L_info \<Rightarrow> 2 | L_warn \<Rightarrow> 3 | L_err \<Rightarrow> 4)"

record logger =
  lg_sinks :: "(string \<times> log_level) list"
  lg_level :: log_level

definition configlog :: "string \<Rightarrow> logger" where
  "configlog level =
     (let loglevel = log_level_a_to_enum level
      in \<lparr>lg_sinks = [(''stdout'', loglevel), (''logs/log_debug.log'', L_debug),
                      (''logs/log_info.log'', L_info), (''logs/log_error.log'', L_err)],
          lg_level = loglevel\<rparr>)"

definition delivered :: "logger \<Rightarrow> log_level \<Rightarrow> string list" where
  "delivered lg msg =
     (if severity msg < severity (lg_level lg) then []
      else map fst (filter (\<lambda>(_, l). severity l \<le> severity msg) (lg_sinks lg)))"

text \<open>
  Errors reach every sink whatever the configured level is; the file for debug messages gets
  them only when that level is \<open>debug\<close>.
\<close>

lemma errors_reach_all_sinks: "delivered (configlog level) L_err = map fst (lg_sinks (configlog level))"
  by (simp add: delivered_def configlog_def severity_def Let_def log_level_a_to_enum_def)

lemma debug_file_needs_debug:
  "''logs/log_debug.log'' \<in> set (delivered (configlog level) L_debug) \<longleftrightarrow>
     level = ''debug'' \<or> level = ''DEBUG''"
  by (auto simp: delivered_def configlog_def severity_def Let_def log_level_a_to_enum_def)

end
