(* ===== verification/Sync_Main.thy ===== *)
theory Sync_Main
  imports Net_Dispatch Timer_Trigger Log_Config
begin

text \<open>
  The start of the program: \<open>main\<close> of \<open>main.cpp\<close> up to the event loop, and \<open>load_config\<close> of
  \<open>components/common.cpp\<close>. The option parser (\<open>cxxopts\<close>) is the argument \<open>st_parse\<close>: from the
  default path, whether help was asked for and which configuration file to read, or an exception
  for options it does not know.
\<close>

record start_env =
  st_host :: host
  st_parse :: "string \<Rightarrow> (bool \<times> string) res"
  st_file :: "string \<Rightarrow> string option"
  st_threads :: int
  st_stack :: bytes
  st_ifs :: "iface list"
  st_udp_socket :: bool
  st_tcp_socket :: bool
  st_fs :: file_system
  st_dirs :: "string set"

definition CONFIG_DEFAULT_NAME :: string where
  "CONFIG_DEFAULT_NAME = ''properties.properties''"

text \<open>The default path is read back from a string stream, which stops at a blank.\<close>

definition default_config_file :: "string \<Rightarrow> string" where
  "default_config_file cwd =
     takeWhile (\<lambda>c. \<not> is_space c) (dropWhile is_space (cwd @ ''/'' @ CONFIG_DEFAULT_NAME))"

text \<open>The statics of the program before \<open>main\<close> runs.\<close>

definition static_node :: "start_env \<Rightarrow> node" where
  "static_node env =
     \<lparr>nd_trig = \<lparr>tr_fw = net_fw_init, tr_udp = [], tr_tcp = [], tr_mods = []\<rparr>,
      nd_rlm = RsLocalManager_new [], nd_rsm = NoManager, nd_fs = st_fs env, nd_dirs = st_dirs env,
      nd_tasks = TaskManager_new, nd_config = config_init\<rparr>"

definition load_config :: "start_env \<Rightarrow> node \<Rightarrow> node res" where
  "load_config env nd =
     rbind (st_parse env (default_config_file (h_cwd (st_host env)))) (\<lambda>(help, path).
       if help then Inl ProcessExit
       else
         rbind (config_query CONFIG_KEY_RESOURCE_HOME
                  (config_reload path (st_file env path) (nd_config nd))) (\<lambda>(home, cfg).
           Inr (ResourceManager_init home (nd\<lparr>nd_config := cfg\<rparr>))))"

text \<open>Reading a setting of the running program.\<close>

definition node_query :: "string \<Rightarrow> node \<Rightarrow> (string \<times> node) res" where
  "node_query key nd = rbind (config_query key (nd_config nd)) (\<lambda>(v, cfg). Inr (v, nd\<lparr>nd_config := cfg\<rparr>))"

definition discover_port :: "node \<Rightarrow> (int \<times> node) res" where
  "discover_port nd =
     rbind (node_query CONFIG_KEY_PROTO_DISCOVER_SERVER_UDP_PORT nd) (\<lambda>(v, nd').
     rbind (atoi v) (\<lambda>n. Inr (n, nd')))"

definition discover_add :: "host \<Rightarrow> net_addr \<Rightarrow> node \<Rightarrow> node res" where
  "discover_add h addr nd =
     rbind (addConn (h_ntoa h) (h_udp h addr) True addr (nd_trig nd)) (\<lambda>(_, ts).
       Inr (nd\<lparr>nd_trig := ts\<rparr>))"

definition add_broadcast :: "host \<Rightarrow> local_port \<Rightarrow> node \<Rightarrow> node res" where
  "add_broadcast h port nd =
     rbind (fromBe (h_aton h) (h_ntoa h) (lp_broad_addr port)) (\<lambda>addr.
     rbind (discover_port nd) (\<lambda>(n, nd').
       discover_add h (setPort n addr) nd'))"

definition add_ip :: "host \<Rightarrow> string \<Rightarrow> node \<Rightarrow> node res" where
  "add_ip h ip nd =
     rbind (NetAddr_of (h_aton h) ip) (\<lambda>addr.
       if getPort addr = 0 then
         rbind (discover_port nd) (\<lambda>(n, nd'). discover_add h (setPort n addr) nd')
       else discover_add h addr nd)"

text \<open>The constructors of the two triggers register their logics with the mediator.\<close>

definition add_module :: "module \<Rightarrow> node \<Rightarrow> node" where
  "add_module m nd = nd\<lparr>nd_trig := (nd_trig nd)\<lparr>tr_mods := snd (med_add m (tr_mods (nd_trig nd)))\<rparr>\<rparr>"

definition DiscoveryTrigger_new :: "timeval \<Rightarrow> bool \<Rightarrow> node \<Rightarrow> timer_trigger \<times> node" where
  "DiscoveryTrigger_new period persist nd =
     (TriggerWithEvent_new period persist, add_module DiscoverLogic nd)"

definition SyncReqTbIdxTrigger_new :: "timeval \<Rightarrow> bool \<Rightarrow> node \<Rightarrow> timer_trigger \<times> node" where
  "SyncReqTbIdxTrigger_new period persist nd =
     (TriggerWithEvent_new period persist, add_module ReqTbIdxLogic nd)"

text \<open>\<open>discover_tr\<close> and \<open>sync_req_tr\<close> are objects of \<open>main\<close>, at two different addresses.\<close>

definition discover_tr :: nat where "discover_tr = 0"
definition sync_req_tr :: nat where "sync_req_tr = 1"

definition schedule :: "nat \<Rightarrow> timer_trigger \<Rightarrow> timer \<Rightarrow> timer res" where
  "schedule p tr t =
     rbind (addTr p (t\<lparr>tm_heap := (tm_heap t)(p \<mapsto> tr)\<rparr>)) (\<lambda>(_, t'). Inr t')"

definition listen_addr :: "host \<Rightarrow> string \<Rightarrow> node \<Rightarrow> (net_addr \<times> node) res" where
  "listen_addr h key nd =
     rbind (node_query key nd) (\<lambda>(v, nd').
     rbind (NetAddr_of (h_aton h) (sb_str (sb_add v (sb_add '':'' [])))) (\<lambda>a. Inr (a, nd')))"

record main_state =
  ms_node :: node
  ms_timer :: timer
  ms_log :: logger
  ms_loop :: event_loop
  ms_udp_srv :: srv_container
  ms_tcp_srv :: srv_container

datatype started = Quit int | Started main_state

definition main_modules :: "host \<Rightarrow> node \<Rightarrow> timer \<Rightarrow> local_port list \<Rightarrow> (node \<times> timer) res" where
  "main_modules h nd t ports =
     (case DiscoveryTrigger_new (Trigger_second 2) True nd of (tr1, nd1) \<Rightarrow>
        rbind (schedule discover_tr tr1 t) (\<lambda>t1.
        rbind (rfold (add_broadcast h) ports nd1) (\<lambda>nd2.
        rbind (config_queryList CONFIG_KEY_DISCOVER_IPS (nd_config nd2)) (\<lambda>(ips, cfg).
        rbind (rfold (add_ip h) ips (nd2\<lparr>nd_config := cfg\<rparr>)) (\<lambda>nd3.
          (case SyncReqTbIdxTrigger_new (Trigger_second 10) True nd3 of (tr2, nd4) \<Rightarrow>
             rbind (schedule sync_req_tr tr2 t1) (\<lambda>t2.
               Inr (add_module ReqTbIdx (add_module Discovery (add_module Service nd4)), t2))))))))"

definition main_start :: "start_env \<Rightarrow> started res" where
  "main_start env =
     (let h = st_host env in
      rbind (load_config env (static_node env)) (\<lambda>nd0.
      rbind (node_query CONFIG_KEY_LOG_LEVEL nd0) (\<lambda>(level, nd1).
        if st_threads env \<noteq> 0 then Inr (Quit (- 1))
        else
          rbind (LocalPort_query (st_stack env) (st_ifs env)) (\<lambda>ports.
          rbind (main_modules h nd1 (timer_started (\<lambda>_. None)) ports) (\<lambda>(nd2, t).
          rbind (listen_addr h CONFIG_KEY_PROTO_DISCOVER_SERVER_UDP_PORT nd2) (\<lambda>(ua, nd3).
          rbind (listen_addr h CONFIG_KEY_PROTO_SYNC_SERVER_TCP_PORT nd3) (\<lambda>(ta, nd4).
            Inr (Started
              \<lparr>ms_node = set_fw (addTcpServer (st_tcp_socket env)
                                  (addUdpServer (st_udp_socket env) (nd_fw nd4))) nd4,
               ms_timer = t, ms_log = configlog level,
               ms_loop = fw_init \<lparr>el_base = False,
                  el_break = \<not> st_udp_socket env \<or> \<not> st_tcp_socket env\<rparr>,
               ms_udp_srv = NetSrvLogicContainer_new ua Logic_Udp,
               ms_tcp_srv = NetSrvLogicContainer_new ta Logic_Tcp\<rparr>))))))))"

text \<open>What the start and the search for peers leave alone: the files, the books and the queue; the connections.\<close>

definition same_disk :: "node \<Rightarrow> node \<Rightarrow> bool" where
  "same_disk nd nd' \<longleftrightarrow> nd_rlm nd' = nd_rlm nd \<and> nd_fs nd' = nd_fs nd \<and> nd_dirs nd' = nd_dirs nd \<and>
     nd_rsm nd' = nd_rsm nd \<and> nd_tasks nd' = nd_tasks nd"

definition same_tcp :: "node \<Rightarrow> node \<Rightarrow> bool" where
  "same_tcp nd nd' \<longleftrightarrow> tr_tcp (nd_trig nd') = tr_tcp (nd_trig nd) \<and> tcp_ctx (nd_fw nd') = tcp_ctx (nd_fw nd)"

lemmas same_defs = same_disk_def same_tcp_def

end
