(* ===== verification/Sync_Daemon.thy ===== *)
theory Sync_Daemon
  imports Node_Invariant Sync_Main
begin

text \<open>
  The running program as a transition system. A state is the node and, per TCP connection, the
  bytes libevent has buffered for it. A step is one event of the loop (a peer connects, bytes or
  a datagram arrive, a connection ends, a timer fires) or one step of the worker thread; what the
  environment answers in a step (file contents, new connections, random draws) is a \<open>host\<close>,
  another one in every step. Handlers and tasks are atomic here; \<open>Task_Steps\<close> lets the events of
  the loop come between the accesses of a task.
\<close>

section \<open>The state after the start\<close>

lemma node_query_frame: "node_query key nd = Inr (v, nd') \<Longrightarrow> \<exists>cfg. nd' = nd\<lparr>nd_config := cfg\<rparr>"
  by (auto simp: node_query_def rbind_Inr_iff split: prod.split_asm)

text \<open>What the steps of \<open>main\<close> leave alone.\<close>

definition only_conns :: "node \<Rightarrow> node \<Rightarrow> bool" where
  "only_conns nd nd' \<longleftrightarrow> trig_keeps (nd_trig nd) (nd_trig nd') \<and> same_disk nd nd' \<and> same_tcp nd nd'"

interpretation ocn: closed_rel only_conns
  using trk.refl trk.trans by unfold_locales (auto simp: only_conns_def same_defs)

lemma only_config: "only_conns nd (nd\<lparr>nd_config := cfg\<rparr>)"
  by (simp add: only_conns_def trk.refl same_defs nd_fw_def)

lemma addConn_udp_tcp:
  "addConn ntoa ok True addr ts = Inr (added, ts') \<Longrightarrow> tr_tcp ts' = tr_tcp ts \<and> tcp_ctx (tr_fw ts') = tcp_ctx (tr_fw ts)"
  by (auto simp: addConn_def set_conns_def setupConn_def UdpCliConnSetUp_setupConn_def connectWithUdp_def ctx_new_def
      Let_def rbind_Inr_iff split: prod.split_asm if_split_asm)

lemma discover_add_only: "discover_add h addr nd = Inr nd' \<Longrightarrow> only_conns nd nd'"
  using addConn_keeps addConn_udp_tcp by (auto simp: discover_add_def rbind_Inr_iff only_conns_def same_defs nd_fw_def)

lemma discover_port_only: "discover_port nd = Inr (n, nd') \<Longrightarrow> only_conns nd nd'"
  by (auto simp: discover_port_def rbind_Inr_iff dest!: node_query_frame intro: only_config)

lemma add_broadcast_only: "add_broadcast h port nd = Inr nd' \<Longrightarrow> only_conns nd nd'"
  using discover_port_only discover_add_only ocn.trans
  by (auto simp: add_broadcast_def rbind_Inr_iff split: prod.split_asm) blast

lemma add_ip_only: "add_ip h ip nd = Inr nd' \<Longrightarrow> only_conns nd nd'"
  using discover_port_only discover_add_only ocn.trans
  by (auto simp: add_ip_def rbind_Inr_iff split: prod.split_asm if_split_asm) blast

lemma add_module_frame [simp]:
  "same_disk nd (add_module m nd)" "same_tcp nd (add_module m nd)"
  "trig_inv (nd_trig (add_module m nd)) = trig_inv (nd_trig nd)"
  "tr_mods (nd_trig (add_module m nd)) = snd (med_add m (tr_mods (nd_trig nd)))"
  by (simp_all add: add_module_def trig_inv_def same_defs nd_fw_def)

lemma same_after_module [simp]:
  "same_disk nd (add_module m nd') = same_disk nd nd'" "same_tcp nd (add_module m nd') = same_tcp nd nd'"
  by (simp_all add: add_module_def same_defs nd_fw_def)

lemma same_before_module [simp]:
  "same_disk (add_module m nd) nd' = same_disk nd nd'" "same_tcp (add_module m nd) nd' = same_tcp nd nd'"
  by (simp_all add: add_module_def same_defs nd_fw_def)

lemma schedule_events:
  assumes "schedule p tr t = Inr t'" and "tm_base t" and "sm_find ptr_less p (tm_triggers t) = None"
    and "sm_sorted ptr_less (tm_triggers t)"
  shows "tm_base t' \<and> sm_sorted ptr_less (tm_triggers t') \<and>
    tm_events t' = tm_events t @ [(p, tt_period tr, tt_persist tr)] \<and>
    (\<forall>q. sm_find ptr_less q (tm_triggers t') = (if q = p then Some (Some p) else sm_find ptr_less q (tm_triggers t)))"
  using assms by (auto simp: schedule_def addTr_def sm_index_def tr_at_def getPeriod_def getPersist_def)

lemma main_modules_result:
  assumes "main_modules h nd (timer_started (\<lambda>_. None)) ports = Inr (nd', t)" and "trig_inv (nd_trig nd)"
    and "tr_mods (nd_trig nd) = []"
  shows "trig_inv (nd_trig nd') \<and> tr_mods (nd_trig nd') = wired_mods \<and> same_disk nd nd' \<and> same_tcp nd nd' \<and>
    tm_events t = [(discover_tr, Trigger_second 2, True), (sync_req_tr, Trigger_second 10, True)]"
proof -
  let ?tr = "\<lambda>s. TriggerWithEvent_new (Trigger_second s) True"
  from assms(1) obtain t1 nd2 ips cfg nd3 where s1: "schedule discover_tr (?tr 2) (timer_started (\<lambda>_. None)) = Inr t1"
    and b: "rfold (add_broadcast h) ports (add_module DiscoverLogic nd) = Inr nd2"
    and i: "rfold (add_ip h) ips (nd2\<lparr>nd_config := cfg\<rparr>) = Inr nd3"
    and s2: "schedule sync_req_tr (?tr 10) t1 = Inr t"
    and nd': "nd' = add_module ReqTbIdx (add_module Discovery (add_module Service (add_module ReqTbIdxLogic nd3)))"
    by (auto simp: main_modules_def DiscoveryTrigger_new_def SyncReqTbIdxTrigger_new_def rbind_Inr_iff
        split: prod.split_asm)
  have "only_conns (add_module DiscoverLogic nd) nd2"
    by (rule ocn.rfold_rel [OF _ b]) (rule add_broadcast_only)
  moreover have "only_conns (nd2\<lparr>nd_config := cfg\<rparr>) nd3"
    by (rule ocn.rfold_rel [OF _ i]) (rule add_ip_only)
  ultimately have k: "only_conns (add_module DiscoverLogic nd) nd3"
    using only_config ocn.trans by blast
  have "sm_find ptr_less p (tm_triggers (timer_started (\<lambda>_. None))) = None" "tm_base (timer_started (\<lambda>_. None))"
    "tm_triggers (timer_started (\<lambda>_. None)) = []" "tm_events (timer_started (\<lambda>_. None)) = []" for p
    by (simp_all add: timer_started_def TimerWithEvent_init_def)
  with schedule_events [OF s1] schedule_events [OF s2]
  have "tm_events t = [(discover_tr, Trigger_second 2, True), (sync_req_tr, Trigger_second 10, True)]"
    by (simp add: TriggerWithEvent_new_def discover_tr_def sync_req_tr_def)
  moreover have "tr_mods (nd_trig nd') = wired_mods"
    using k assms(3) by (simp add: nd' wired_mods_def only_conns_def trig_keeps_def)
  ultimately show ?thesis using k assms(2) by (auto simp: nd' only_conns_def trig_keeps_def)
qed

lemma listen_addr_frame: "listen_addr h key nd = Inr (a, nd') \<Longrightarrow> \<exists>cfg. nd' = nd\<lparr>nd_config := cfg\<rparr>"
  by (auto simp: listen_addr_def rbind_Inr_iff split: prod.split_asm dest: node_query_frame)

lemma servers_keep: "fw_keeps fw (addTcpServer ok' (addUdpServer ok fw))"
proof -
  have "fw_keeps fw (addUdpServer ok fw)" for fw
    using ctx_new_keeps [of True NetAddr_default fw] fw_cleanup_keeps
    by (cases "ctx_new True NetAddr_default fw") (simp add: addUdpServer_def)
  moreover have "fw_keeps fw (addTcpServer ok' fw)" for fw
    by (simp add: addTcpServer_def fwk.refl fw_cleanup_keeps)
  ultimately show ?thesis using fwk.trans by blast
qed

lemma load_config_result:
  assumes "load_config env (static_node env) = Inr nd"
  shows "trig_inv (nd_trig nd) \<and> tr_mods (nd_trig nd) = [] \<and> tr_tcp (nd_trig nd) = [] \<and> tcp_ctx (nd_fw nd) = NullVec \<and>
    nd_tasks nd = TaskManager_new \<and> nd_fs nd = st_fs env \<and> nd_dirs nd = st_dirs env \<and> lm_table (nd_rlm nd) = [] \<and>
    nd_rsm nd = (if lm_home (nd_rlm nd) = [] then NoManager else Manager sync_manager_init)"
proof -
  obtain home cfg where "nd = ResourceManager_init home ((static_node env)\<lparr>nd_config := cfg\<rparr>)"
    using assms by (auto simp: load_config_def rbind_Inr_iff split: if_split_asm)
  then show ?thesis
    by (simp add: ResourceManager_init_def static_node_def trig_inv_def fw_inv_init nd_fw_def RsLocalManager_new_def)
      (simp add: net_fw_init_def)
qed

text \<open>The steps of a start that reaches the loop.\<close>

lemma main_start_steps:
  assumes "main_start env = Inr (Started ms)"
  obtains nd0 level nd1 ports nd2 t ua nd3 ta nd4
  where "load_config env (static_node env) = Inr nd0" and "node_query CONFIG_KEY_LOG_LEVEL nd0 = Inr (level, nd1)"
    and "LocalPort_query (st_stack env) (st_ifs env) = Inr ports"
    and "main_modules (st_host env) nd1 (timer_started (\<lambda>_. None)) ports = Inr (nd2, t)"
    and "listen_addr (st_host env) CONFIG_KEY_PROTO_DISCOVER_SERVER_UDP_PORT nd2 = Inr (ua, nd3)"
    and "listen_addr (st_host env) CONFIG_KEY_PROTO_SYNC_SERVER_TCP_PORT nd3 = Inr (ta, nd4)"
    and "ms_node ms = set_fw (addTcpServer (st_tcp_socket env) (addUdpServer (st_udp_socket env) (nd_fw nd4))) nd4"
    and "ms_timer ms = t"
  using assms by (auto simp: main_start_def Let_def rbind_Inr_iff split: if_split_asm)

lemma servers_parts:
  "elems (tcp_ctx (addTcpServer ok' (addUdpServer ok fw))) = (if ok \<and> ok' then elems (tcp_ctx fw) else [])"
  by (cases "tcp_ctx fw")
    (auto simp: addTcpServer_def addUdpServer_def fw_cleanup_def ctx_new_def Let_def)

lemma main_start_result:
  assumes "main_start env = Inr (Started ms)"
  shows "node_inv (ms_node ms) \<and> board_of (ms_node ms) = (\<lambda>_ _. Gone) \<and>
    tm_events (ms_timer ms) = [(discover_tr, Trigger_second 2, True), (sync_req_tr, Trigger_second 10, True)]"
    and "tr_tcp (nd_trig (ms_node ms)) = [] \<and> elems (tcp_ctx (nd_fw (ms_node ms))) = []"
    and "nd_tasks (ms_node ms) = TaskManager_new \<and> nd_fs (ms_node ms) = st_fs env \<and> nd_dirs (ms_node ms) = st_dirs env \<and>
      lm_table (nd_rlm (ms_node ms)) = [] \<and>
      nd_rsm (ms_node ms) = (if lm_home (nd_rlm (ms_node ms)) = [] then NoManager else Manager sync_manager_init)"
    and "load_config env (static_node env) = Inr nd \<Longrightarrow> same_disk nd (ms_node ms)"
proof -
  obtain nd0 level nd1 ports nd2 t ua nd3 ta nd4
    where load: "load_config env (static_node env) = Inr nd0" and "node_query CONFIG_KEY_LOG_LEVEL nd0 = Inr (level, nd1)"
      and "LocalPort_query (st_stack env) (st_ifs env) = Inr ports"
      and m: "main_modules (st_host env) nd1 (timer_started (\<lambda>_. None)) ports = Inr (nd2, t)"
      and "listen_addr (st_host env) CONFIG_KEY_PROTO_DISCOVER_SERVER_UDP_PORT nd2 = Inr (ua, nd3)"
      and "listen_addr (st_host env) CONFIG_KEY_PROTO_SYNC_SERVER_TCP_PORT nd3 = Inr (ta, nd4)"
      and ms: "ms_node ms = set_fw (addTcpServer (st_tcp_socket env) (addUdpServer (st_udp_socket env) (nd_fw nd4))) nd4"
      and tm: "ms_timer ms = t"
    using assms by (rule main_start_steps)
  then obtain c1 c3 c4 where nds: "nd1 = nd0\<lparr>nd_config := c1\<rparr>" "nd3 = nd2\<lparr>nd_config := c3\<rparr>" "nd4 = nd3\<lparr>nd_config := c4\<rparr>"
    by (blast dest: node_query_frame listen_addr_frame)
  note l = load_config_result [OF load]
  have start: "trig_inv (nd_trig nd1)" "tr_mods (nd_trig nd1) = []" using l by (simp_all add: nds)
  note r = main_modules_result [OF m start]
  have same: "same_disk nd0 (ms_node ms)" "same_tcp nd0 nd4"
    using r by (simp_all add: same_defs ms set_fw_def nds nd_fw_def)
  then show "load_config env (static_node env) = Inr nd \<Longrightarrow> same_disk nd (ms_node ms)" using load by simp
  from same show "nd_tasks (ms_node ms) = TaskManager_new \<and> nd_fs (ms_node ms) = st_fs env \<and> nd_dirs (ms_node ms) = st_dirs env \<and>
      lm_table (nd_rlm (ms_node ms)) = [] \<and>
      nd_rsm (ms_node ms) = (if lm_home (nd_rlm (ms_node ms)) = [] then NoManager else Manager sync_manager_init)"
    using l by (simp add: same_disk_def)
  have "nd_fw (ms_node ms) = addTcpServer (st_tcp_socket env) (addUdpServer (st_udp_socket env) (nd_fw nd4))"
    "tr_tcp (nd_trig (ms_node ms)) = tr_tcp (nd_trig nd4)"
    by (simp_all add: ms set_fw_def nd_fw_def)
  then show "tr_tcp (nd_trig (ms_node ms)) = [] \<and> elems (tcp_ctx (nd_fw (ms_node ms))) = []"
    using same(2) l by (simp add: servers_parts same_tcp_def)
  have "mgr_status sync_manager_init = (\<lambda>_ _. Gone)"
    by (simp add: mgr_status_def [abs_def] uri_entry_eq sync_manager_init_def fun_eq_iff)
  moreover have "trig_inv (nd_trig (ms_node ms))"
    using r servers_keep [of "nd_fw nd4"]
    by (auto simp: ms set_fw_def nds nd_fw_def trig_inv_def fw_keeps_def)
  moreover have "tr_mods (nd_trig (ms_node ms)) = wired_mods" using r by (simp add: ms set_fw_def nds)
  ultimately show "node_inv (ms_node ms) \<and> board_of (ms_node ms) = (\<lambda>_ _. Gone) \<and>
      tm_events (ms_timer ms) = [(discover_tr, Trigger_second 2, True), (sync_req_tr, Trigger_second 10, True)]"
    using r tm same l by (auto simp: node_inv_def board_of_def same_disk_def)
qed

section \<open>Steps\<close>

record daemon =
  dm_node :: node
  dm_bufs :: "nat \<Rightarrow> bytes"

text \<open>
  The context of a connection lives (\<open>ctx_at\<close>) as long as libevent calls back for it. Of the
  worker's steps, the one that ends a task runs it first.
\<close>

datatype dm_event =
    Accept sockaddr_in
  | Bytes nat bytes
  | Datagram nat sockaddr_in "bytes option"
  | Closed nat
  | Timeout nat
  | Worker "string tm_label"

fun trigger_of :: "host \<Rightarrow> nat \<Rightarrow> triggers \<Rightarrow> triggers res option" where
  "trigger_of h tr ts = trigger (tr = discover_tr) (exec_of (tr = discover_tr) (h_ntoa h)) ts"

inductive dm_step :: "host \<Rightarrow> dm_event \<Rightarrow> daemon \<Rightarrow> daemon \<Rightarrow> bool" where
  accept: "tcp_accept (h_aton h) (h_ntoa h) peer (nd_fw (dm_node d)) = Inr (i, fw) \<Longrightarrow>
    dm_step h (Accept peer) d (d\<lparr>dm_node := set_fw fw (dm_node d), dm_bufs := (dm_bufs d)(i := [])\<rparr>)"
| bytes: "ctx_at i (nd_fw (dm_node d)) = Inr c \<Longrightarrow> \<not> ctx_udp c \<Longrightarrow>
    tcp_input h i (dm_bufs d i @ seg) (dm_node d) = Inr (rest, nd) \<Longrightarrow>
    dm_step h (Bytes i seg) d (d\<lparr>dm_node := nd, dm_bufs := (dm_bufs d)(i := rest)\<rparr>)"
| datagram: "ctx_at i (nd_fw (dm_node d)) = Inr c \<Longrightarrow> ctx_udp c \<Longrightarrow>
    udp_input h i src dg (dm_node d) = Inr nd \<Longrightarrow>
    dm_step h (Datagram i src dg) d (d\<lparr>dm_node := nd\<rparr>)"
| closed: "ctx_at i (nd_fw (dm_node d)) = Inr c \<Longrightarrow> \<not> ctx_udp c \<Longrightarrow>
    event_cb i (nd_fw (dm_node d)) = Inr fw \<Longrightarrow>
    dm_step h (Closed i) d (d\<lparr>dm_node := set_fw fw (dm_node d)\<rparr>)"
| timeout: "tr \<in> {discover_tr, sync_req_tr} \<Longrightarrow>
    timeout_cb (trigger_of h) tr (nd_trig (dm_node d)) = Some (Inr ts) \<Longrightarrow>
    dm_step h (Timeout tr) d (d\<lparr>dm_node := (dm_node d)\<lparr>nd_trig := ts\<rparr>\<rparr>)"
| turn: "x = Test \<or> x = Take \<Longrightarrow> tm_step x (nd_tasks (dm_node d)) m \<Longrightarrow>
    dm_step h (Worker x) d (d\<lparr>dm_node := (dm_node d)\<lparr>nd_tasks := m\<rparr>\<rparr>)"
| run: "tm_worker (nd_tasks (dm_node d)) = Running t \<Longrightarrow> ReqRsTask_run h (task_body t) (dm_node d) = Inr nd \<Longrightarrow>
    tm_step Finish (nd_tasks nd) m \<Longrightarrow>
    dm_step h (Worker Finish) d (d\<lparr>dm_node := nd\<lparr>nd_tasks := m\<rparr>\<rparr>)"

inductive_cases dm_stepE: "dm_step h e d d'"

inductive dm_reach :: "start_env \<Rightarrow> daemon \<Rightarrow> bool" for env where
  start: "main_start env = Inr (Started ms) \<Longrightarrow> dm_reach env \<lparr>dm_node = ms_node ms, dm_bufs = (\<lambda>_. [])\<rparr>"
| step: "dm_reach env d \<Longrightarrow> dm_step h e d d' \<Longrightarrow> dm_reach env d'"

lemma worker_moves:
  assumes "tm_step x (nd_tasks nd) m"
  shows "moves nd (nd\<lparr>nd_tasks := m\<rparr>)"
  using assms step_inv by (intro moves_same) (auto simp: trk.refl queue_keeps_def)

lemma dm_step_moves: "dm_step h e d d' \<Longrightarrow> moves (dm_node d) (dm_node d')"
proof (induction rule: dm_step.induct)
  case (accept h peer d i fw)
  then show ?case by (simp add: set_fw_moves tcp_accept_keeps)
next
  case (bytes i d c h seg rest nd)
  then show ?case by (simp add: tcp_input_moves)
next
  case (datagram i d c h src dg nd)
  then show ?case by (simp add: udp_input_moves)
next
  case (closed i d c fw h)
  then show ?case by (simp add: set_fw_moves event_cb_keeps)
next
  case (timeout tr h d ts)
  then have "trig_keeps (nd_trig (dm_node d)) ts" by (simp add: timeout_cb_def trigger_keeps)
  then show ?case by (simp add: moves_same queue_keeps_def)
next
  case (turn x d m h)
  then show ?case by (simp add: worker_moves)
next
  case (run d t h nd m)
  then show ?case using ReqRsTask_run_moves worker_moves ndm.trans by fastforce
qed

lemma reach_inv: "dm_reach env d \<Longrightarrow> node_inv (dm_node d)"
proof (induction rule: dm_reach.induct)
  case (start ms)
  then show ?case using main_start_result(1) by simp
next
  case (step d h e d')
  then show ?case using dm_step_moves by (auto simp: moves_def)
qed

end
