(* ===== verification/Startup.thy ===== *)
theory Startup
  imports Sync_Daemon
begin

text \<open>
  Whom the program greets after its start: the broadcast addresses of the interfaces and the
  addresses of the setting \<open>ip.discovery\<close>, each once, unless one of them has no IP.
\<close>

section \<open>Settings\<close>

definition setting :: "string \<Rightarrow> config_manager \<Rightarrow> string" where
  "setting key cfg = fst (prop_query key (config_p cfg))"

text \<open>A query may insert the key it asks for, which changes no setting.\<close>

definition same_settings :: "config_manager \<Rightarrow> config_manager \<Rightarrow> bool" where
  "same_settings c d \<longleftrightarrow> (\<forall>key. setting key d = setting key c) \<and> config_at d = config_at c"

interpretation sst: closed_rel same_settings
  by unfold_locales (auto simp: same_settings_def)

lemma config_query_setting:
  assumes "config_query key c = Inr (v, d)"
  shows "v = setting key c \<and> same_settings c d \<and> config_at c \<noteq> []"
proof -
  have fst_index: "fst (str_index [] k m) = (case str_find k m of Some v \<Rightarrow> v | None \<Rightarrow> [])" for k and m :: "(string, string) smap"
    by (simp add: sm_index_def split: option.splits)
  from assms have "config_p d = snd (str_index [] key (config_p c))" "config_at d = config_at c" "config_at c \<noteq> []"
    "v = fst (str_index [] key (config_p c))"
    by (auto simp: config_query_def prop_query_def split: if_split_asm prod.split_asm)
  then show ?thesis by (auto simp: same_settings_def setting_def prop_query_def fst_index split: option.splits)
qed

section \<open>Targets\<close>

definition default_port :: "config_manager \<Rightarrow> net_addr \<Rightarrow> net_addr res" where
  "default_port cfg a =
     rbind (atoi (setting CONFIG_KEY_PROTO_DISCOVER_SERVER_UDP_PORT cfg)) (\<lambda>n. Inr (setPort n a))"

definition target_of_port :: "host \<Rightarrow> config_manager \<Rightarrow> local_port \<Rightarrow> net_addr res" where
  "target_of_port h cfg port = rbind (fromBe (h_aton h) (h_ntoa h) (lp_broad_addr port)) (default_port cfg)"

definition target_of_ip :: "host \<Rightarrow> config_manager \<Rightarrow> string \<Rightarrow> net_addr res" where
  "target_of_ip h cfg ip =
     rbind (NetAddr_of (h_aton h) ip) (\<lambda>a. if getPort a = 0 then default_port cfg a else Inr a)"

definition rmap :: "('a \<Rightarrow> 'b res) \<Rightarrow> 'a list \<Rightarrow> 'b list res" where
  "rmap f xs = rfold (\<lambda>x ys. rbind (f x) (\<lambda>y. Inr (ys @ [y]))) xs []"

definition listed_ips :: "config_manager \<Rightarrow> string list" where
  "listed_ips cfg =
     (let v = setting CONFIG_KEY_DISCOVER_IPS cfg
      in if v = [] then [] else if find_char CHR '','' v = None then [v] else comma_loop v [])"

definition discovery_targets :: "start_env \<Rightarrow> net_addr list res" where
  "discovery_targets env =
     rbind (load_config env (static_node env)) (\<lambda>nd.
     rbind (LocalPort_query (st_stack env) (st_ifs env)) (\<lambda>ports.
     rbind (rmap (target_of_port (st_host env) (nd_config nd)) ports) (\<lambda>as.
     rbind (rmap (target_of_ip (st_host env) (nd_config nd)) (listed_ips (nd_config nd))) (\<lambda>bs.
       Inr (as @ bs)))))"

section \<open>The connections of the discovery trigger\<close>

definition contacts :: "(u32 \<Rightarrow> string) \<Rightarrow> net_addr list \<Rightarrow> triggers \<Rightarrow> bool" where
  "contacts ntoa as ts \<longleftrightarrow>
     sm_sorted str_less (tr_udp ts) \<and> (\<forall>i. ctx_heap (tr_fw ts) i \<noteq> None \<longrightarrow> i < ctx_fresh (tr_fw ts)) \<and>
     (\<forall>k. str_find k (tr_udp ts) \<noteq> None \<longleftrightarrow> k \<in> addr_str ntoa ` set as) \<and>
     (\<forall>a \<in> set as. sin_family (le_addr a) = AF_INET \<and>
        (if s_addr (le_addr a) = 0 then str_find (addr_str ntoa a) (tr_udp ts) = Some None
         else \<exists>i. str_find (addr_str ntoa a) (tr_udp ts) = Some (Some i) \<and>
                ctx_heap (tr_fw ts) i = Some \<lparr>ctx_peer = a, ctx_active = True, ctx_udp = True\<rparr>))"

lemma contacts_known:
  assumes "contacts ntoa as ts" and "sin_family (le_addr a) = AF_INET" and "b \<in> set as"
    and "inet_text aton ntoa" and "addr_str ntoa b = addr_str ntoa a"
  shows "b = a"
  using assms inet_text.addr_str_inject [OF assms(4), of b a] by (auto simp: contacts_def)

text \<open>A new entry, over a heap that keeps the old contexts.\<close>

lemma contacts_extend:
  assumes "inet_text aton ntoa" and "contacts ntoa as ts" and "sin_family (le_addr a) = AF_INET"
    and "str_find (addr_str ntoa a) (tr_udp ts) = None"
    and put: "tr_udp ts' = str_put (addr_str ntoa a) v (tr_udp ts)"
    and heap: "\<And>i c. ctx_heap (tr_fw ts) i = Some c \<Longrightarrow> ctx_heap (tr_fw ts') i = Some c"
    and fresh: "\<And>i. ctx_heap (tr_fw ts') i \<noteq> None \<Longrightarrow> i < ctx_fresh (tr_fw ts')"
    and v: "if s_addr (le_addr a) = 0 then v = None
      else \<exists>i. v = Some i \<and> ctx_heap (tr_fw ts') i = Some \<lparr>ctx_peer = a, ctx_active = True, ctx_udp = True\<rparr>"
  shows "contacts ntoa (as @ [a]) ts'"
proof -
  have sorted: "sm_sorted str_less (tr_udp ts)"
    and dom: "str_find k (tr_udp ts) \<noteq> None \<longleftrightarrow> k \<in> addr_str ntoa ` set as" for k
    using assms(2) by (auto simp: contacts_def)
  have new: "a \<notin> set as" using dom assms(4) by force
  have old: "sin_family (le_addr b) = AF_INET \<and>
      (if s_addr (le_addr b) = 0 then str_find (addr_str ntoa b) (tr_udp ts') = Some None
       else \<exists>i. str_find (addr_str ntoa b) (tr_udp ts') = Some (Some i) \<and>
              ctx_heap (tr_fw ts') i = Some \<lparr>ctx_peer = b, ctx_active = True, ctx_udp = True\<rparr>)" if "b \<in> set as" for b
  proof -
    have "addr_str ntoa b \<noteq> addr_str ntoa a"
      using contacts_known [OF assms(2,3) that assms(1)] new that by blast
    with sorted have "str_find (addr_str ntoa b) (tr_udp ts') = str_find (addr_str ntoa b) (tr_udp ts)"
      by (simp add: put)
    with heap assms(2) that show ?thesis by (fastforce simp: contacts_def)
  qed
  have "sm_sorted str_less (tr_udp ts')" using sorted by (simp add: put)
  moreover have "str_find k (tr_udp ts') \<noteq> None \<longleftrightarrow> k \<in> addr_str ntoa ` set (as @ [a])" for k
    using dom [of k] sorted by (auto simp: put)
  moreover have "str_find (addr_str ntoa a) (tr_udp ts') = Some v"
    using sorted by (simp add: put)
  ultimately show ?thesis using old v fresh assms(3) by (auto simp: contacts_def)
qed

lemma addConn_contacts:
  assumes "inet_text aton ntoa" and "contacts ntoa as ts" and "sin_family (le_addr a) = AF_INET"
    and "addConn ntoa ok True a ts = Inr (added, ts')"
  shows "contacts ntoa (as @ [a]) ts'"
proof (cases "str_find (addr_str ntoa a) (tr_udp ts)")
  case (Some x)
  then have "str_find (addr_str ntoa a) (tr_udp ts) \<noteq> None" by simp
  then have "addr_str ntoa a \<in> addr_str ntoa ` set as" using assms(2) unfolding contacts_def by blast
  then have in_as: "a \<in> set as" using contacts_known [OF assms(2,3) _ assms(1)] by (metis imageE)
  with assms(2) have "if s_addr (le_addr a) = 0 then str_find (addr_str ntoa a) (tr_udp ts) = Some None
      else \<exists>i. str_find (addr_str ntoa a) (tr_udp ts) = Some (Some i)"
    by (auto simp: contacts_def split: if_split_asm)
  with Some have x: "if s_addr (le_addr a) = 0 then x = None else x \<noteq> None"
    by (auto split: if_split_asm)
  have "ts' = ts"
    using x Some assms(4)
    by (cases x) (simp_all add: addConn_def sm_index_def conns_def set_conns_def getAddr_def split: if_split_asm)
  with assms(2) in_as show ?thesis by (simp add: contacts_def insert_absorb)
next
  case None
  note extend = contacts_extend [OF assms(1-3) None]
  have bound: "ctx_heap (tr_fw ts) i = Some c \<Longrightarrow> i < ctx_fresh (tr_fw ts)" for i c
    using assms(2) by (auto simp: contacts_def)
  show ?thesis
  proof (cases "s_addr (le_addr a) = 0")
    case True
    with None assms(4) have "ts' = ts\<lparr>tr_udp := str_put (addr_str ntoa a) None (tr_udp ts)\<rparr>"
      by (simp add: addConn_def sm_index_def conns_def set_conns_def getAddr_def split: if_split_asm)
    with True bound show ?thesis by (intro extend) auto
  next
    case False
    with None assms(4) obtain fw where fw: "ctx_new True a (tr_fw ts) = (ctx_fresh (tr_fw ts), fw)"
      and ts': "ts' = ts\<lparr>tr_udp := str_put (addr_str ntoa a) (Some (ctx_fresh (tr_fw ts))) (tr_udp ts), tr_fw := fw\<rparr>"
      by (auto simp: addConn_def sm_index_def conns_def set_conns_def getAddr_def setupConn_def
          UdpCliConnSetUp_setupConn_def connectWithUdp_def ctx_new_def Let_def rbind_Inr_iff split: if_split_asm)
    from fw have "ctx_heap fw = (ctx_heap (tr_fw ts))(ctx_fresh (tr_fw ts) \<mapsto> \<lparr>ctx_peer = a, ctx_active = True, ctx_udp = True\<rparr>)"
      "ctx_fresh fw = Suc (ctx_fresh (tr_fw ts))"
      by (auto simp: ctx_new_def Let_def)
    with False bound show ?thesis
      by (intro extend) (auto simp: ts' less_Suc_eq dest: bound split: if_split_asm)
  qed
qed

section \<open>Start-up adds the targets\<close>

lemma node_query_setting:
  "node_query key nd = Inr (v, nd') \<Longrightarrow>
   v = setting key (nd_config nd) \<and> same_settings (nd_config nd) (nd_config nd') \<and> nd_trig nd' = nd_trig nd"
  using config_query_setting by (fastforce simp: node_query_def rbind_Inr_iff)

lemma listen_addr_setting:
  assumes "listen_addr h key nd = Inr (a, nd')"
  shows "same_settings (nd_config nd) (nd_config nd')"
proof -
  obtain v where "node_query key nd = Inr (v, nd')"
    using assms by (auto simp: listen_addr_def rbind_Inr_iff)
  then show ?thesis using node_query_setting by blast
qed

lemma discover_port_setting:
  assumes "discover_port nd = Inr (n, nd')"
  shows "atoi (setting CONFIG_KEY_PROTO_DISCOVER_SERVER_UDP_PORT (nd_config nd)) = Inr n \<and>
    same_settings (nd_config nd) (nd_config nd') \<and> nd_trig nd' = nd_trig nd"
  using assms node_query_setting by (fastforce simp: discover_port_def rbind_Inr_iff)

text \<open>A node that has greeted the targets \<open>as\<close>, with the settings \<open>cfg\<close>.\<close>

definition greeted :: "host \<Rightarrow> config_manager \<Rightarrow> net_addr list \<Rightarrow> node \<Rightarrow> bool" where
  "greeted h cfg as nd \<longleftrightarrow> contacts (h_ntoa h) as (nd_trig nd) \<and> same_settings cfg (nd_config nd)"

lemma discover_add_greeted:
  assumes "inet_text (h_aton h) (h_ntoa h)" and "greeted h cfg as nd" and "sin_family (le_addr a) = AF_INET"
    and "discover_add h a nd = Inr nd'"
  shows "greeted h cfg (as @ [a]) nd'"
  using assms addConn_contacts [OF assms(1) _ assms(3)]
  by (auto simp: discover_add_def greeted_def rbind_Inr_iff)

lemma NetAddr_of_family: "NetAddr_of aton ip = Inr a \<Longrightarrow> sin_family (le_addr a) = AF_INET"
  by (auto simp: NetAddr_of_def Let_def rbind_Inr_iff)

lemma same_default_port: "same_settings c d \<Longrightarrow> default_port d = default_port c"
  by (simp add: default_port_def same_settings_def fun_eq_iff)

lemma discover_port_greeted:
  "discover_port nd = Inr (n, nd') \<Longrightarrow> greeted h cfg as nd \<Longrightarrow>
   greeted h cfg as nd' \<and> default_port cfg a = Inr (setPort n a)"
  using discover_port_setting [of nd n nd'] sst.trans
  by (auto simp: greeted_def default_port_def same_settings_def)

lemma add_broadcast_greeted:
  assumes "inet_text (h_aton h) (h_ntoa h)" and "greeted h cfg as nd" and "add_broadcast h port nd = Inr nd'"
  shows "\<exists>a. target_of_port h cfg port = Inr a \<and> greeted h cfg (as @ [a]) nd'"
proof -
  from assms(3) obtain a n nd1 where a: "fromBe (h_aton h) (h_ntoa h) (lp_broad_addr port) = Inr a"
    and n: "discover_port nd = Inr (n, nd1)" and d: "discover_add h (setPort n a) nd1 = Inr nd'"
    by (auto simp: add_broadcast_def rbind_Inr_iff)
  have "sin_family (le_addr (setPort n a)) = AF_INET"
    using NetAddr_of_family a by (simp add: fromBe_def setPort_def)
  with discover_port_greeted [OF n assms(2)] discover_add_greeted [OF assms(1) _ _ d] a show ?thesis
    by (simp add: target_of_port_def)
qed

lemma add_ip_greeted:
  assumes "inet_text (h_aton h) (h_ntoa h)" and "greeted h cfg as nd" and "add_ip h ip nd = Inr nd'"
  shows "\<exists>a. target_of_ip h cfg ip = Inr a \<and> greeted h cfg (as @ [a]) nd'"
proof -
  from assms(3) obtain a where a: "NetAddr_of (h_aton h) ip = Inr a"
    by (auto simp: add_ip_def rbind_Inr_iff)
  then have f: "sin_family (le_addr a) = AF_INET" "sin_family (le_addr (setPort n a)) = AF_INET" for n
    using NetAddr_of_family by (simp_all add: setPort_def)
  show ?thesis
  proof (cases "getPort a = 0")
    case True
    with assms(3) a obtain n nd1 where n: "discover_port nd = Inr (n, nd1)"
      and d: "discover_add h (setPort n a) nd1 = Inr nd'"
      by (auto simp: add_ip_def rbind_Inr_iff)
    with True a f discover_port_greeted [OF n assms(2)] discover_add_greeted [OF assms(1) _ _ d] show ?thesis
      by (simp add: target_of_ip_def)
  next
    case False
    with assms a f discover_add_greeted [OF assms(1,2)] show ?thesis by (simp add: add_ip_def target_of_ip_def)
  qed
qed

lemma rmap_snoc: "rmap f (xs @ [x]) = rbind (rmap f xs) (\<lambda>ys. rbind (f x) (\<lambda>y. Inr (ys @ [y])))"
  by (simp add: rmap_def rfold_append)

lemma rfold_greeted:
  assumes "\<And>x nd nd' as. greeted h cfg as nd \<Longrightarrow> g x nd = Inr nd' \<Longrightarrow> \<exists>a. f x = Inr a \<and> greeted h cfg (as @ [a]) nd'"
  shows "rfold g xs nd = Inr nd' \<Longrightarrow> greeted h cfg as nd \<Longrightarrow> \<exists>bs. rmap f xs = Inr bs \<and> greeted h cfg (as @ bs) nd'"
proof (induction xs arbitrary: nd' rule: rev_induct)
  case Nil
  then show ?case by (simp add: rmap_def)
next
  case (snoc x xs)
  then obtain nd1 where "rfold g xs nd = Inr nd1" and g: "g x nd1 = Inr nd'"
    by (auto simp: rfold_append rbind_Inr_iff)
  with snoc obtain bs where "rmap f xs = Inr bs" and "greeted h cfg (as @ bs) nd1" by blast
  with assms [OF _ g] show ?case by (fastforce simp: rmap_snoc)
qed

lemma queryList_listed:
  assumes "config_queryList CONFIG_KEY_DISCOVER_IPS c = Inr (ips, d)"
  shows "ips = listed_ips c \<and> same_settings c d"
proof -
  from assms obtain v where q: "config_query CONFIG_KEY_DISCOVER_IPS c = Inr (v, d)"
    by (auto simp: config_queryList_def rbind_Inr_iff)
  with assms config_query_setting [OF q] show ?thesis
    by (simp add: config_queryList_def listed_ips_def Let_def)
qed

lemma greeted_module [simp]: "greeted h cfg as (add_module m nd) = greeted h cfg as nd"
  by (simp add: greeted_def contacts_def add_module_def)

lemma greeted_config: "greeted h cfg as nd \<Longrightarrow> same_settings (nd_config nd) c \<Longrightarrow> greeted h cfg as (nd\<lparr>nd_config := c\<rparr>)"
  using sst.trans by (auto simp: greeted_def)

lemma main_modules_greeted:
  assumes "inet_text (h_aton h) (h_ntoa h)" and "main_modules h nd t0 ports = Inr (nd', t)" and "greeted h cfg [] nd"
  shows "\<exists>as bs. rmap (target_of_port h cfg) ports = Inr as \<and> rmap (target_of_ip h cfg) (listed_ips cfg) = Inr bs \<and>
    greeted h cfg (as @ bs) nd'"
proof -
  from assms(2) obtain nd2 ips c nd3
    where b: "rfold (add_broadcast h) ports (add_module DiscoverLogic nd) = Inr nd2"
    and q: "config_queryList CONFIG_KEY_DISCOVER_IPS (nd_config nd2) = Inr (ips, c)"
    and i: "rfold (add_ip h) ips (nd2\<lparr>nd_config := c\<rparr>) = Inr nd3"
    and nd': "nd' = add_module ReqTbIdx (add_module Discovery (add_module Service (add_module ReqTbIdxLogic nd3)))"
    by (auto simp: main_modules_def DiscoveryTrigger_new_def SyncReqTbIdxTrigger_new_def rbind_Inr_iff
        split: prod.split_asm)
  obtain as where as: "rmap (target_of_port h cfg) ports = Inr as" and g2: "greeted h cfg as nd2"
    using rfold_greeted [where f = "target_of_port h cfg" and g = "add_broadcast h" and h = h and cfg = cfg and as = "[]",
        OF _ b] add_broadcast_greeted [OF assms(1)] assms(3)
    by auto
  note ips = queryList_listed [OF q]
  have "ips = listed_ips cfg"
    using ips g2 by (simp add: listed_ips_def greeted_def same_settings_def)
  then obtain bs where "rmap (target_of_ip h cfg) (listed_ips cfg) = Inr bs" and "greeted h cfg (as @ bs) nd3"
    using rfold_greeted [where f = "target_of_ip h cfg" and g = "add_ip h" and h = h and cfg = cfg and as = as,
        OF _ i] add_ip_greeted [OF assms(1)] greeted_config [OF g2] ips by auto
  with as show ?thesis by (auto simp: nd')
qed

lemma servers_contacts:
  assumes "contacts ntoa as (nd_trig nd)"
  shows "contacts ntoa as (nd_trig (set_fw (addTcpServer ok' (addUdpServer ok (nd_fw nd))) nd))"
proof -
  have "contacts ntoa as (ts\<lparr>tr_fw := addUdpServer ok (tr_fw ts)\<rparr>)" if "contacts ntoa as ts" for ts
    using that by (auto simp: contacts_def addUdpServer_def fw_cleanup_def ctx_new_def Let_def)
      (metis less_SucI less_irrefl option.distinct(1))+
  moreover have "contacts ntoa as (ts\<lparr>tr_fw := addTcpServer ok' (tr_fw ts)\<rparr>)" if "contacts ntoa as ts" for ts
    using that by (simp add: contacts_def addTcpServer_def fw_cleanup_def Let_def)
  ultimately have "contacts ntoa as ((nd_trig nd)\<lparr>tr_fw := addUdpServer ok (nd_fw nd)\<rparr>\<lparr>tr_fw :=
      addTcpServer ok' (tr_fw ((nd_trig nd)\<lparr>tr_fw := addUdpServer ok (nd_fw nd)\<rparr>))\<rparr>)"
    using assms unfolding nd_fw_def by blast
  then show ?thesis by (simp add: set_fw_def)
qed

lemma main_start_contacts:
  assumes "main_start env = Inr (Started ms)" and "inet_text (h_aton (st_host env)) (h_ntoa (st_host env))"
  shows "\<exists>as. discovery_targets env = Inr as \<and> contacts (h_ntoa (st_host env)) as (nd_trig (ms_node ms)) \<and>
    tr_mods (nd_trig (ms_node ms)) = wired_mods"
    and "load_config env (static_node env) = Inr nd \<Longrightarrow> same_settings (nd_config nd) (nd_config (ms_node ms))"
proof -
  let ?h = "st_host env"
  obtain nd0 level nd1 ports nd2 t ua nd3 ta nd4
    where load: "load_config env (static_node env) = Inr nd0" and l: "node_query CONFIG_KEY_LOG_LEVEL nd0 = Inr (level, nd1)"
      and ports: "LocalPort_query (st_stack env) (st_ifs env) = Inr ports"
      and m: "main_modules ?h nd1 (timer_started (\<lambda>_. None)) ports = Inr (nd2, t)"
      and q: "listen_addr ?h CONFIG_KEY_PROTO_DISCOVER_SERVER_UDP_PORT nd2 = Inr (ua, nd3)"
        "listen_addr ?h CONFIG_KEY_PROTO_SYNC_SERVER_TCP_PORT nd3 = Inr (ta, nd4)"
      and ms: "ms_node ms = set_fw (addTcpServer (st_tcp_socket env) (addUdpServer (st_udp_socket env) (nd_fw nd4))) nd4" and "ms_timer ms = t"
    using assms(1) by (rule main_start_steps)
  have "contacts (h_ntoa ?h) [] (nd_trig nd0)"
  proof -
    obtain home cfg where "nd0 = ResourceManager_init home ((static_node env)\<lparr>nd_config := cfg\<rparr>)"
      using load by (auto simp: load_config_def rbind_Inr_iff split: if_split_asm)
    then show ?thesis
      by (simp add: ResourceManager_init_def static_node_def contacts_def net_fw_init_def)
  qed
  with node_query_setting [OF l] have "greeted ?h (nd_config nd0) [] nd1" by (simp add: greeted_def)
  from main_modules_greeted [OF assms(2) m this] obtain as bs
    where "rmap (target_of_port ?h (nd_config nd0)) ports = Inr as"
      and "rmap (target_of_ip ?h (nd_config nd0)) (listed_ips (nd_config nd0)) = Inr bs"
      and g: "greeted ?h (nd_config nd0) (as @ bs) nd2" by blast
  moreover have "nd_trig nd4 = nd_trig nd2" using q by (auto dest!: listen_addr_frame)
  ultimately show "\<exists>as. discovery_targets env = Inr as \<and> contacts (h_ntoa ?h) as (nd_trig (ms_node ms)) \<and>
      tr_mods (nd_trig (ms_node ms)) = wired_mods"
    using load ports servers_contacts [of "h_ntoa ?h" "as @ bs" nd4] main_start_result(1) [OF assms(1)]
    by (simp add: discovery_targets_def ms greeted_def node_inv_def)
  have "same_settings (nd_config nd2) (nd_config nd4)"
    by (rule sst.trans [OF listen_addr_setting [OF q(1)] listen_addr_setting [OF q(2)]])
  then show "load_config env (static_node env) = Inr nd \<Longrightarrow> same_settings (nd_config nd) (nd_config (ms_node ms))"
    using g load sst.trans [of "nd_config nd0" "nd_config nd2" "nd_config nd4"] by (simp add: greeted_def ms set_fw_def)
qed

end
