(* ===== verification/Block_Exchange.thy ===== *)
theory Block_Exchange
  imports Sync_Node
begin

text \<open>
  What two nodes say to each other: the packets built by the senders are the ones the handlers of
  the other side read, for one block (request, reply, save) and for the table of resources.
\<close>

section \<open>Packets built by addXheader\<close>

definition with_headers :: "(string \<times> string) list \<Rightarrow> lan_sync_pkt \<Rightarrow> lan_sync_pkt" where
  "with_headers kvs p = foldl (\<lambda>p (k, v). addXheader k v p) p kvs"

text \<open>Headers that survive the wire, and an upper bound of their size.\<close>

definition clean_kv :: "string \<times> string \<Rightarrow> bool" where
  "clean_kv e \<longleftrightarrow> sendable e \<and> CHR '':'' \<notin> set (snd e)"

lemma with_headers_simps [simp]:
  "with_headers [] p = p" "with_headers (kvs @ [(k, v)]) p = addXheader k v (with_headers kvs p)"
  by (simp_all add: with_headers_def)

lemma with_headers_wf:
  assumes "\<forall>e \<in> set kvs. clean_kv e" and "xh_size kvs < 2 ^ 15"
  shows "pkt_wf (with_headers kvs (LanSyncPkt_new ver ty)) \<and>
    xh_size (xheader (with_headers kvs (LanSyncPkt_new ver ty))) \<le> xh_size kvs \<and>
    pkt_data (with_headers kvs (LanSyncPkt_new ver ty)) = None \<and>
    version (with_headers kvs (LanSyncPkt_new ver ty)) = ver \<and>
    pkt_type (with_headers kvs (LanSyncPkt_new ver ty)) = ty \<and>
    (\<forall>k. str_find k (xheader (with_headers kvs (LanSyncPkt_new ver ty))) = map_of (rev kvs) k)"
  using assms
proof (induction kvs rule: rev_induct)
  case Nil
  then show ?case using pkt_wf_new by (simp add: LanSyncPkt_new_def)
next
  case (snoc e kvs)
  obtain k v where e: "e = (k, v)" by (cases e)
  have sz: "xh_size (kvs @ [(k, v)]) = xh_size kvs + length k + length v + 2"
    by (induction kvs) auto
  let ?p = "with_headers kvs (LanSyncPkt_new ver ty)"
  have IH: "pkt_wf ?p" "xh_size (xheader ?p) \<le> xh_size kvs" "pkt_data ?p = None" "version ?p = ver"
    "pkt_type ?p = ty" "\<And>k. str_find k (xheader ?p) = map_of (rev kvs) k"
    using snoc e sz by auto
  have le: "xh_size (str_put k v (xheader ?p)) \<le> xh_size (kvs @ [(k, v)])"
    using xh_size_put [of k v "xheader ?p"] IH(2) sz by simp
  have "v \<noteq> []" using snoc.prems(1) e by (simp add: clean_kv_def sendable_def)
  moreover have "8 + xh_size (str_put k v (xheader ?p)) < 2 ^ 16" using le snoc.prems(2) e by simp
  moreover have "data_of ?p = []" using IH(3) by (simp add: data_of_def)
  ultimately have "pkt_wf (addXheader k v ?p)"
    by (intro pkt_wf_addXheader [OF IH(1)]) (simp_all add: len_consts)
  then show ?case using IH le by (simp add: e)
qed

text \<open>A packet of the program: headers, then the data if there is any.\<close>

definition the_packet :: "u8 \<Rightarrow> (string \<times> string) list \<Rightarrow> bytes option \<Rightarrow> lan_sync_pkt" where
  "the_packet ty kvs d =
     (let p = with_headers kvs (LanSyncPkt_new LAN_SYNC_VER_0_1 ty)
      in case d of None \<Rightarrow> p | Some bs \<Rightarrow> setData bs p)"

definition payload :: "bytes option \<Rightarrow> bytes" where
  "payload d = (case d of None \<Rightarrow> [] | Some bs \<Rightarrow> bs)"

text \<open>What the receiver makes of it.\<close>

definition the_received :: "u8 \<Rightarrow> (string \<times> string) list \<Rightarrow> bytes option \<Rightarrow> lan_sync_pkt" where
  "the_received ty kvs d = (the_packet ty kvs d)\<lparr>pkt_data := Some (payload d)\<rparr>"

lemma the_packet_facts:
  assumes "\<forall>e \<in> set kvs. clean_kv e" and "xh_size kvs < 2 ^ 15" and "length (payload d) < 2 ^ 23"
  shows "pkt_wf (the_packet ty kvs d)" and "data_of (the_packet ty kvs d) = payload d"
    and "version (the_packet ty kvs d) = LAN_SYNC_VER_0_1" and "pkt_type (the_packet ty kvs d) = ty"
    and "str_find k (xheader (the_packet ty kvs d)) = map_of (rev kvs) k"
    and "unat (total_len (the_packet ty kvs d)) < 2 ^ 24"
    and "\<forall>e \<in> set (xheader (the_packet ty kvs d)). clean_kv e"
    and "length (wire_bytes (the_packet ty kvs d)) < 2 ^ 16 + length (payload d)"
proof -
  let ?p = "with_headers kvs (LanSyncPkt_new LAN_SYNC_VER_0_1 ty)"
  have w: "pkt_wf ?p" "xh_size (xheader ?p) \<le> xh_size kvs" "pkt_data ?p = None"
    "version ?p = LAN_SYNC_VER_0_1" "pkt_type ?p = ty"
    "\<And>k. str_find k (xheader ?p) = map_of (rev kvs) k"
    using with_headers_wf [OF assms(1,2)] by auto
  have xh: "xheader (the_packet ty kvs d) = xheader ?p" "header_len (the_packet ty kvs d) = header_len ?p"
    by (simp_all add: the_packet_def Let_def split: option.splits)
  have h: "unat (header_len ?p) < 2 ^ 15 + 8" using w(1,2) assms(2) by (simp add: pkt_wf_def len_consts)
  have "length bs < 2 ^ 23 \<Longrightarrow> pkt_wf (setData bs ?p)" for bs
    using h by (intro pkt_wf_setData [OF w(1)]) simp
  then show wf: "pkt_wf (the_packet ty kvs d)"
    using w(1) assms(3) by (simp add: the_packet_def Let_def payload_def split: option.splits)
  show d: "data_of (the_packet ty kvs d) = payload d"
    using w(3) by (simp add: the_packet_def Let_def payload_def data_of_def split: option.splits)
  show "version (the_packet ty kvs d) = LAN_SYNC_VER_0_1" "pkt_type (the_packet ty kvs d) = ty"
    using w(4,5) by (simp_all add: the_packet_def Let_def split: option.splits)
  show "str_find k (xheader (the_packet ty kvs d)) = map_of (rev kvs) k" using w(6) xh by simp
  show "unat (total_len (the_packet ty kvs d)) < 2 ^ 24"
    using wf d h assms(3) xh(2) by (simp add: pkt_wf_def)
  show "length (wire_bytes (the_packet ty kvs d)) < 2 ^ 16 + length (payload d)"
    using wf d h xh(2) by (simp add: wire_bytes_def pkt_wf_def len_consts)
  have "sm_sorted str_less (xheader ?p)" using w(1) by (simp add: pkt_wf_def)
  then have sorted: "sm_sorted str_less (xheader ?p)" .
  show "\<forall>e \<in> set (xheader (the_packet ty kvs d)). clean_kv e"
  proof
    fix e assume "e \<in> set (xheader (the_packet ty kvs d))"
    then have "map_of (xheader ?p) (fst e) = Some (snd e)"
      using str_map.sorted_distinct_keys [OF sorted] xh(1) by simp
    then have "map_of (rev kvs) (fst e) = Some (snd e)" using w(6) str_map.find_map_of [OF sorted] by simp
    then have "e \<in> set kvs" by (auto dest: map_of_SomeD)
    then show "clean_kv e" using assms(1) by blast
  qed
qed

lemma the_packet_wire:
  assumes "\<forall>e \<in> set kvs. clean_kv e" and "xh_size kvs < 2 ^ 15" and "length (payload d) < 2 ^ 23"
  shows "LanSyncPkt_write (the_packet ty kvs d) = Inr (wire_bytes (the_packet ty kvs d))"
    and "LanSyncPkt_parse (wire_bytes (the_packet ty kvs d) @ rest) = Some (Inr (Parsed (the_received ty kvs d)))"
    and "drop (unat (header_len (the_received ty kvs d))) (wire_bytes (the_packet ty kvs d) @ rest) = payload d @ rest"
proof -
  let ?p = "the_packet ty kvs d"
  note f = the_packet_facts [OF assms, where ty = ty]
  have s: "\<forall>e \<in> set (xheader ?p). sendable e" using f(7) by (simp add: clean_kv_def)
  show "LanSyncPkt_write ?p = Inr (wire_bytes ?p)"
    by (rule LanSyncPkt_write_bytes [OF f(1) sendable_nul_free [OF s]])
  have "guard_passes (total_len ?p)"
    using f(1,6) by (intro guard_passes_small) (simp_all add: pkt_wf_def)
  moreover have "cut_entries (xheader ?p) = xheader ?p"
    using f(7) by (intro cut_entries_id) (auto simp: clean_kv_def)
  ultimately show "LanSyncPkt_parse (wire_bytes ?p @ rest) = Some (Inr (Parsed (the_received ty kvs d)))"
    using parse_wire_bytes [OF f(1) s, of rest] f(2) by (simp add: the_received_def)
  show "drop (unat (header_len (the_received ty kvs d))) (wire_bytes ?p @ rest) = payload d @ rest"
    using f(1,2) by (simp add: the_received_def wire_bytes_def pkt_wf_def len_consts)
qed

lemma the_received_query:
  assumes "\<forall>e \<in> set kvs. clean_kv e" and "xh_size kvs < 2 ^ 15" and "length (payload d) < 2 ^ 23"
  shows "fst (queryXheader k (the_received ty kvs d)) = (case map_of (rev kvs) k of Some v \<Rightarrow> v | None \<Rightarrow> [])"
    and "pkt_type (the_received ty kvs d) = ty" and "data_of (the_received ty kvs d) = payload d"
  using the_packet_facts [OF assms, where ty = ty]
  by (auto simp: the_received_def queryXheader_def sm_index_def data_of_def split: option.splits)

section \<open>The three steps of a block\<close>

definition range_text :: "block \<Rightarrow> string" where
  "range_text b = u64_str (b_start b) @ ''-'' @ u64_str (b_end b)"

definition request_kvs :: "string \<Rightarrow> block \<Rightarrow> (string \<times> string) list" where
  "request_kvs uri b = [(XHEADER_URI, uri), (XHEADER_RANGE, range_text b)]"

definition request_packet :: "string \<Rightarrow> block \<Rightarrow> lan_sync_pkt" where
  "request_packet uri b = the_packet LAN_SYNC_TYPE_GET_RESOURCE (request_kvs uri b) None"

text \<open>The content range of the reply: the block, the size of the resource, and always \<open>last\<close>.\<close>

definition reply_range :: "block \<Rightarrow> resource \<Rightarrow> content_range" where
  "reply_range b r = ContentRange_new (b_start b) (b_end b - b_start b) (r_size r) True"

definition reply_range_text :: "block \<Rightarrow> resource \<Rightarrow> string" where
  "reply_range_text b r =
     u64_str (b_start b) @ ''-'' @ u64_str (b_end b) @ ''/'' @ u64_str (r_size r) @ ''/last''"

definition reply_kvs :: "string \<Rightarrow> string \<Rightarrow> block \<Rightarrow> resource \<Rightarrow> (string \<times> string) list" where
  "reply_kvs uri hash b r =
     [(XHEADER_HASH, hash), (XHEADER_URI, uri), (XHEADER_CONTENT_RANGE, reply_range_text b r)]"

definition reply_packet :: "string \<Rightarrow> string \<Rightarrow> block \<Rightarrow> resource \<Rightarrow> bytes \<Rightarrow> lan_sync_pkt" where
  "reply_packet uri hash b r part =
     the_packet LAN_SYNC_TYPE_REPLY_RESOURCE (reply_kvs uri hash b r) (Some part)"

text \<open>Texts that are safe as header values.\<close>

definition clean_text :: "string \<Rightarrow> bool" where
  "clean_text s \<longleftrightarrow> s \<noteq> [] \<and> NUL \<notin> set s \<and> CHR '':'' \<notin> set s \<and> length s < 2 ^ 12"

lemmas xheader_names = XHEADER_URI_def XHEADER_HASH_def XHEADER_RANGE_def XHEADER_CONTENT_RANGE_def

lemma range_text_print: "b_start b \<noteq> b_end b \<Longrightarrow>
  Range_to_string (Range_new (b_start b) (b_end b - b_start b)) = Inr (range_text b)"
  by (simp add: Range_to_string_def Range_new_def range_text_def)

lemma reply_range_print: "ContentRange_to_string (reply_range b r) = Inr (reply_range_text b r)"
  by (simp add: ContentRange_to_string_def reply_range_def ContentRange_new_def reply_range_text_def range_consts)

lemma request_kvs_ok:
  assumes "clean_text uri" and "b_start b \<noteq> b_end b"
  shows "\<forall>e \<in> set (request_kvs uri b). clean_kv e" and "xh_size (request_kvs uri b) < 2 ^ 15"
  using assms Range_text_clean [OF range_text_print [OF assms(2)]] Range_text_length [OF range_text_print [OF assms(2)]]
  by (auto simp: request_kvs_def clean_kv_def sendable_def clean_text_def xheader_names)

lemma reply_kvs_ok:
  assumes "clean_text uri" and "clean_text hash"
  shows "\<forall>e \<in> set (reply_kvs uri hash b r). clean_kv e" and "xh_size (reply_kvs uri hash b r) < 2 ^ 15"
  using assms ContentRange_text_clean [OF reply_range_print, of b r] ContentRange_text_length [OF reply_range_print, of b r]
  by (auto simp: reply_kvs_def clean_kv_def sendable_def clean_text_def xheader_names)

text \<open>A connection that works, and what sending over it does to the node.\<close>

definition open_conn :: "host \<Rightarrow> nat \<Rightarrow> net_addr \<Rightarrow> node \<Rightarrow> bool" where
  "open_conn h i peer nd \<longleftrightarrow>
     ctx_heap (nd_fw nd) i = Some \<lparr>ctx_peer = peer, ctx_active = True, ctx_udp = False\<rparr> \<and>
     \<not> existIp (h_ports h) (s_addr (getBeAddr peer))"

definition sent_to :: "net_addr \<Rightarrow> bytes \<Rightarrow> node \<Rightarrow> node" where
  "sent_to peer bs nd = set_fw ((nd_fw nd)\<lparr>ctx_sent := ctx_sent (nd_fw nd) @ [(peer, bs)]\<rparr>) nd"

lemma open_conn_ctx:
  assumes "open_conn h i peer nd"
  shows "ctx_getPeer i (nd_fw nd) = Inr peer"
    and "ctx_write i bs (nd_fw nd) = Inr (True, (nd_fw nd)\<lparr>ctx_sent := ctx_sent (nd_fw nd) @ [(peer, bs)]\<rparr>)"
  using assms by (simp_all add: open_conn_def ctx_getPeer_def ctx_at_def ctx_write_def)

lemma request_written:
  assumes "clean_text uri" and "b_start b \<noteq> b_end b"
  shows "LanSyncPkt_write (addXheader XHEADER_RANGE (range_text b) (addXheader XHEADER_URI uri
      (LanSyncPkt_new LAN_SYNC_VER_0_1 LAN_SYNC_TYPE_GET_RESOURCE))) = Inr (wire_bytes (request_packet uri b))"
  using the_packet_wire(1) [OF request_kvs_ok [OF assms], where d = None and ty = LAN_SYNC_TYPE_GET_RESOURCE]
  by (simp add: request_packet_def the_packet_def with_headers_def request_kvs_def payload_def)

lemma sendRsReq_sends:
  assumes "open_conn h i peer nd" and "clean_text uri" and "b_start b \<noteq> b_end b"
  shows "sendRsReq uri (Some i) b nd = Inr (sent_to peer (wire_bytes (request_packet uri b)) nd)"
  using open_conn_ctx [OF assms(1)] range_text_print [OF assms(3)] request_written [OF assms(2,3)]
  by (simp add: sendRsReq_def sent_to_def)

lemma received_packet:
  assumes "open_conn h i peer nd" and "\<forall>e \<in> set kvs. clean_kv e" and "xh_size kvs < 2 ^ 15"
    and "length (payload d) < 2 ^ 23"
  shows "received h (wire_bytes (the_packet ty kvs d) @ rest) i nd = Some (Inr (Some (the_received ty kvs d)))"
  using assms(1) open_conn_ctx(1) [OF assms(1)]
  by (simp add: received_def the_packet_wire(2) [OF assms(2-4)] open_conn_def)

lemma set_fw_same: "nd_fw (set_fw fw nd) = fw" "set_fw fw' (set_fw fw nd) = set_fw fw' nd"
  by (simp_all add: set_fw_def nd_fw_def)

text \<open>The server: a file it has listed, and that can be read.\<close>

definition holds_file :: "host \<Rightarrow> string \<Rightarrow> string \<Rightarrow> resource \<Rightarrow> bytes \<Rightarrow> node \<Rightarrow> bool" where
  "holds_file h uri hash r content nd \<longleftrightarrow>
     lm_home (nd_rlm nd) \<noteq> [] \<and> str_find uri (lm_table (nd_rlm nd)) = Some (Some r) \<and>
     arr_str (r_uri r) = Inr uri \<and> arr_str (r_hash r) = Inr hash \<and> length content < 2 ^ 63 \<and>
     (case arr_str (r_path r) of Inl e \<Rightarrow> False
      | Inr path \<Rightarrow> h_access h path \<and> nd_fs nd path = Some content \<and> h_read h (nd_fs nd) path = full_read content)"

definition block_of :: "block \<Rightarrow> bytes \<Rightarrow> bytes" where
  "block_of b content = take (unat (b_end b - b_start b)) (drop (unat (b_start b)) content)"

text \<open>A block of at most \<open>BLOCK_SIZE\<close> bytes that is not empty.\<close>

definition proper_block :: "block \<Rightarrow> bool" where
  "proper_block b \<longleftrightarrow> b_start b < b_end b \<and> b_end b - b_start b \<le> BLOCK_SIZE"

lemma proper_block_facts:
  assumes "proper_block b"
  shows "unat (b_end b - b_start b) = unat (b_end b) - unat (b_start b)"
    and "unat (b_start b) < unat (b_end b)" and "unat (b_end b - b_start b) \<le> 2 ^ 20"
    and "b_end b - b_start b \<le> ONCE_MAX_READ_SIZE" and "b_start b \<noteq> b_end b" and "0 < b_end b - b_start b"
proof -
  have lt: "b_start b < b_end b" and sz: "b_end b - b_start b \<le> 1048576"
    using assms by (simp_all add: proper_block_def BLOCK_SIZE_def SIZE_1KByte_def)
  show "unat (b_end b - b_start b) = unat (b_end b) - unat (b_start b)"
    using lt by (intro unat_sub) simp
  then show "0 < b_end b - b_start b"
    using lt by (simp add: word_less_nat_alt)
  show "unat (b_start b) < unat (b_end b)" using lt by (simp add: word_less_nat_alt)
  show "unat (b_end b - b_start b) \<le> 2 ^ 20" using sz by (simp add: word_le_nat_alt)
  show "b_end b - b_start b \<le> ONCE_MAX_READ_SIZE"
    by (rule order_trans [OF sz]) (simp add: ONCE_MAX_eq)
  show "b_start b \<noteq> b_end b" using lt by auto
qed

lemma length_block_of:
  assumes "proper_block b" and "unat (b_end b) \<le> length content"
  shows "length (block_of b content) = unat (b_end b - b_start b)"
  using proper_block_facts [OF assms(1)] assms(2) by (simp add: block_of_def)

lemma monitor_replies:
  assumes "open_conn h i peer nd" and "clean_text uri" and "clean_text hash" and "arr_str (r_uri r) = Inr uri"
    and "arr_str (r_hash r) = Inr hash" and "b_start b \<noteq> b_end b" and "length part = unat (b_end b - b_start b)"
    and "length part < 2 ^ 23"
  shows "SyncIOReadMonitor_monitor i r (Range_new (b_start b) (b_end b - b_start b)) (b_start b) part (nd_fw nd) =
    Inr (nd_fw (sent_to peer (wire_bytes (reply_packet uri hash b r part)) nd))"
proof -
  have len: "(of_nat (length part) :: u64) = b_end b - b_start b" using assms(7) by simp
  have "LanSyncPkt_write (setData part (addXheader XHEADER_CONTENT_RANGE (reply_range_text b r)
      (addXheader XHEADER_URI uri (addXheader XHEADER_HASH hash
        (LanSyncPkt_new LAN_SYNC_VER_0_1 LAN_SYNC_TYPE_REPLY_RESOURCE))))) =
      Inr (wire_bytes (reply_packet uri hash b r part))"
    using the_packet_wire(1) [OF reply_kvs_ok [OF assms(2,3)], where d = "Some part" and ty = LAN_SYNC_TYPE_REPLY_RESOURCE] assms(8)
    by (simp add: reply_packet_def the_packet_def with_headers_def reply_kvs_def payload_def)
  then show ?thesis
    using open_conn_ctx(2) [OF assms(1)] assms(4,5) reply_range_print [of b r]
    by (simp add: SyncIOReadMonitor_monitor_def Range_new_def len Let_def reply_range_def sent_to_def set_fw_same)
qed

lemma serve_block:
  assumes "open_conn h i peer nd" and "holds_file h uri hash r content nd" and "clean_text uri" and "clean_text hash"
    and "proper_block b" and "unat (b_end b) \<le> length content"
  shows "recv_tcp h i (wire_bytes (request_packet uri b) @ rest) n nd =
    Some (Inr (sent_to peer (wire_bytes (reply_packet uri hash b r (block_of b content))) nd))"
proof -
  note pb = proper_block_facts [OF assms(5)]
  note kvs = request_kvs_ok [OF assms(3) pb(5)]
  let ?q = "the_received LAN_SYNC_TYPE_GET_RESOURCE (request_kvs uri b) None"
  let ?g = "Range_new (b_start b) (b_end b - b_start b)" and ?part = "block_of b content"
  obtain path where p: "arr_str (r_path r) = Inr path" "opened (h_access h) (nd_fs nd) path = Some content"
    "h_read h (nd_fs nd) path = full_read content"
    using assms(2) by (auto simp: holds_file_def opened_def split: sum.splits)
  have f: "lm_home (nd_rlm nd) \<noteq> []" "str_find uri (lm_table (nd_rlm nd)) = Some (Some r)"
    "arr_str (r_uri r) = Inr uri" "arr_str (r_hash r) = Inr hash" "length content < 2 ^ 63"
    using assms(2) by (simp_all add: holds_file_def)
  have rcv: "received h (wire_bytes (request_packet uri b) @ rest) i nd = Some (Inr (Some ?q))"
    unfolding request_packet_def by (rule received_packet [OF assms(1) kvs]) (simp add: payload_def)
  have q: "fst (queryXheader XHEADER_URI ?q) = uri" "fst (queryXheader XHEADER_RANGE ?q) = range_text b"
    "pkt_type ?q = LAN_SYNC_TYPE_GET_RESOURCE"
    using the_received_query [OF kvs, where d = None and ty = LAN_SYNC_TYPE_GET_RESOURCE]
    by (simp_all add: payload_def request_kvs_def xheader_names)
  have cu: "c_str uri = uri" using assms(3) by (intro c_str_id) (simp add: clean_text_def)
  let ?mon = "SyncIOReadMonitor_monitor i r ?g" and ?sz = "b_end b - b_start b"
  have sum: "unat (b_start b) + unat ?sz \<le> length content" using pb(1,2) assms(6) by simp
  have len: "length ?part = unat ?sz" by (rule length_block_of [OF assms(5,6)])
  have "readSize (opened (h_access h) (nd_fs nd)) (full_read content) [?mon] path (b_start b) ?sz (nd_fw nd) =
      Some (rbind (call_monitors [?mon] (b_start b) (Inr ?part) (nd_fw nd)) (\<lambda>s'. Inr ((Some ?part, ?sz), s')))"
    by (rule readSize_one_chunk [where fs = "opened (h_access h) (nd_fs nd)", OF p(2) sum pb(6,4) f(5)]) (simp add: block_of_def)
  also have "call_monitors [?mon] (b_start b) (Inr ?part) (nd_fw nd) =
      Inr (nd_fw (sent_to peer (wire_bytes (reply_packet uri hash b r ?part)) nd))"
    using monitor_replies [OF assms(1,3,4) f(3,4) pb(5) len] len pb(3) by (simp add: call_monitors_def)
  finally have rd: "readSize (opened (h_access h) (nd_fs nd)) (full_read content) [?mon] path (b_start b) ?sz (nd_fw nd) =
      Some (Inr ((Some ?part, ?sz), nd_fw (sent_to peer (wire_bytes (reply_packet uri hash b r ?part)) nd)))"
    by simp
  have "handleReqResource h ?q i nd =
      Some (Inr (sent_to peer (wire_bytes (reply_packet uri hash b r ?part)) nd))"
    using f(1,2) p rd Range_parse_print [OF range_text_print [OF pb(5)]] range_text_print [OF pb(5)]
    by (simp add: handleReqResource_def q cu getRsLocalManager_def queryByUri_def sm_index_def Range_new_def
        sent_to_def set_fw_same)
  then show ?thesis using rcv q(3)
    by (simp add: recv_tcp_def LAN_SYNC_TYPE_GET_RESOURCE_def LAN_SYNC_TYPE_GET_TABLE_INDEX_def)
qed

text \<open>The client: \<open>add_req_task\<close> changes nothing but the queue of tasks.\<close>

lemma add_req_task_frame:
  assumes "nd_rsm nd = Manager m"
  shows "\<exists>ts. add_req_task nd = Inr (nd\<lparr>nd_tasks := ts\<rparr>)"
proof -
  have "\<exists>ts. foldl (\<lambda>nd (uri, rs). (case getSyncingSize uri m of (n, rsm') \<Rightarrow>
      if n < of_nat DOWNLOAD_LIMIT
      then nd\<lparr>nd_tasks := snd (addTask \<lparr>task_id = uri, task_body = uri\<rparr> (nd_tasks nd))\<rparr> else nd)) nd es =
    nd\<lparr>nd_tasks := ts\<rparr>" for es :: "(string, sync_rs) smap"
  proof (induction es rule: rev_induct)
    case Nil
    show ?case by (rule exI [of _ "nd_tasks nd"]) simp
  next
    case (snoc e es)
    then show ?case by (cases e) (auto simp: case_prod_beta)
  qed
  then show ?thesis using assms by (simp add: add_req_task_def getRsSyncManager_def)
qed

text \<open>
  A client that can store what it receives below its home: the directory of the file is there or
  can be created, and then the file can be opened or created.
\<close>

definition parent_of :: "host \<Rightarrow> string \<Rightarrow> node \<Rightarrow> string" where
  "parent_of h uri nd = parent_path (absolute (h_cwd h) (lm_home (nd_rlm nd) @ uri))"

definition dirs_of :: "host \<Rightarrow> string \<Rightarrow> node \<Rightarrow> string set" where
  "dirs_of h uri nd = dirs_for (parent_of h uri nd) (nd_dirs nd)"

definition can_store :: "host \<Rightarrow> string \<Rightarrow> node \<Rightarrow> bool" where
  "can_store h uri nd \<longleftrightarrow>
     lm_home (nd_rlm nd) \<noteq> [] \<and> h_write h = full_write \<and>
     (parent_of h uri nd \<in> nd_dirs nd \<or> h_mkdir h (parent_path (lm_home (nd_rlm nd) @ uri))) \<and>
     (\<forall>dirs. nd_dirs nd \<subseteq> dirs \<longrightarrow> parent_of h uri nd \<in> dirs \<longrightarrow> h_open h dirs (lm_home (nd_rlm nd) @ uri))"

lemma can_store_grow:
  assumes "can_store h uri nd" and "lm_home (nd_rlm nd') = lm_home (nd_rlm nd)" and "nd_dirs nd \<subseteq> nd_dirs nd'"
  shows "can_store h uri nd'"
  using assms by (auto simp: can_store_def parent_of_def)

lemma dirs_of_grow: "nd_dirs nd \<subseteq> dirs_of h uri nd"
  by (simp add: dirs_of_def dirs_for_mono)

definition stored :: "string \<Rightarrow> block \<Rightarrow> bytes \<Rightarrow> node \<Rightarrow> file_system" where
  "stored uri b part nd =
     (let path = lm_home (nd_rlm nd) @ uri;
          old = (case nd_fs nd path of None \<Rightarrow> [] | Some c \<Rightarrow> c)
      in (nd_fs nd)(path := Some (splice old (unat (b_start b)) part)))"

lemma store_block_then:
  assumes "open_conn h i peer nd" and "can_store h uri nd" and "clean_text uri" and "clean_text hash"
    and "proper_block b" and "unat (b_end b) < 2 ^ 63" and "length part = unat (b_end b - b_start b)"
    and "nd_rsm nd = Manager m"
    and "syncingRangeDoneAndValid (validRes (host_digester h (stored uri b part nd)) (h_cwd h) (h_tree h (stored uri b part nd))) peer uri b True
      (nd_rlm nd, m) = Inr (rlm', m')"
  shows "recv_tcp h i (wire_bytes (reply_packet uri hash b r part) @ rest) n nd =
    Some (add_req_task (nd\<lparr>nd_fs := stored uri b part nd, nd_dirs := dirs_of h uri nd, nd_rlm := rlm', nd_rsm := Manager m'\<rparr>))"
proof -
  note pb = proper_block_facts [OF assms(5)]
  note kvs = reply_kvs_ok [OF assms(3,4), where b = b and r = r]
  have len: "length (payload (Some part)) < 2 ^ 23" using pb(3) assms(7) by (simp add: payload_def)
  let ?q = "the_received LAN_SYNC_TYPE_REPLY_RESOURCE (reply_kvs uri hash b r) (Some part)"
  let ?mem = "wire_bytes (reply_packet uri hash b r part) @ rest" and ?sz = "b_end b - b_start b"
  have rcv: "received h ?mem i nd = Some (Inr (Some ?q))"
    unfolding reply_packet_def by (rule received_packet [OF assms(1) kvs len])
  have q: "fst (queryXheader XHEADER_URI ?q) = uri" "fst (queryXheader XHEADER_CONTENT_RANGE ?q) = reply_range_text b r"
    "pkt_type ?q = LAN_SYNC_TYPE_REPLY_RESOURCE"
    using the_received_query [OF kvs len, where ty = LAN_SYNC_TYPE_REPLY_RESOURCE]
    by (simp_all add: reply_kvs_def xheader_names)
  have dat: "drop (unat (header_len ?q)) ?mem = part @ rest"
    using the_packet_wire(3) [OF kvs len] by (simp add: reply_packet_def payload_def)
  have cr: "ContentRange_of (reply_range_text b r) = Inr (reply_range b r)"
    by (rule ContentRange_parse_print [OF reply_range_print])
  have home: "lm_home (nd_rlm nd) \<noteq> []" and wr: "h_write h = full_write" using assms(2) by (simp_all add: can_store_def)
  have "unat (b_start b) + unat ?sz < 2 ^ 63" using pb(1,2) assms(6) by simp
  then have sv: "saveLocal (h_cwd h) (h_mkdir h) (h_open h) full_write uri (part @ rest) (b_start b) ?sz (nd_rlm nd)
      (nd_fs nd, nd_dirs nd) = Some (Inr (True, stored uri b part nd, dirs_of h uri nd))"
    using saveLocal_full [where can_open = "h_open h" and dirs = "nd_dirs nd"] assms(2,7) pb(4,5,6) dirs_for_mono
    by (simp add: can_store_def stored_def dirs_of_def parent_of_def Let_def)
  have uri: "uri \<noteq> []" using assms(3) by (simp add: clean_text_def)
  let ?nd = "nd\<lparr>nd_fs := stored uri b part nd, nd_dirs := dirs_of h uri nd, nd_rlm := rlm', nd_rsm := Manager m'\<rparr>"
  have crf: "cr_start_pos (reply_range b r) = b_start b" "cr_size (reply_range b r) = ?sz" "b_start b + ?sz = b_end b"
    by (simp_all add: reply_range_def ContentRange_new_def)
  have blk: "Block (b_start b) (b_end b) = b" by simp
  have peer: "ctx_getPeer i (nd_fw (nd\<lparr>nd_fs := f, nd_dirs := ds\<rparr>)) = Inr peer" for f ds
    using open_conn_ctx(1) [OF assms(1)] by (simp add: nd_fw_def)
  have "handleReplyResource h ?mem ?q i nd = Some (add_req_task ?nd)"
    using assms(8,9) home uri peer
    by (simp add: handleReplyResource_def q cr dat reply_range_print getRsSyncManager_def getRsLocalManager_def wr sv
        crf blk Let_def del: drop_append)
  then show ?thesis using rcv q(3)
    by (auto simp: recv_tcp_def LAN_SYNC_TYPE_GET_RESOURCE_def LAN_SYNC_TYPE_GET_TABLE_INDEX_def
        LAN_SYNC_TYPE_REPLY_TABLE_INDEX_def LAN_SYNC_TYPE_REPLY_RESOURCE_def)
qed

lemma store_block:
  assumes "open_conn h i peer nd" and "can_store h uri nd" and "clean_text uri" and "clean_text hash"
    and "proper_block b" and "unat (b_end b) < 2 ^ 63" and "length part = unat (b_end b - b_start b)"
    and "nd_rsm nd = Manager m"
    and "syncingRangeDoneAndValid (validRes (host_digester h (stored uri b part nd)) (h_cwd h) (h_tree h (stored uri b part nd))) peer uri b True
      (nd_rlm nd, m) = Inr (rlm', m')"
  shows "\<exists>ts. recv_tcp h i (wire_bytes (reply_packet uri hash b r part) @ rest) n nd =
    Some (Inr (nd\<lparr>nd_fs := stored uri b part nd, nd_dirs := dirs_of h uri nd, nd_rlm := rlm', nd_rsm := Manager m', nd_tasks := ts\<rparr>))"
  using store_block_then [OF assms, of r rest n]
    add_req_task_frame [of "nd\<lparr>nd_fs := stored uri b part nd, nd_dirs := dirs_of h uri nd, nd_rlm := rlm', nd_rsm := Manager m'\<rparr>" m'] by auto

section \<open>Properties\<close>

lemma sent_to_frame [simp]:
  "open_conn h i peer (sent_to q bs nd) = open_conn h i peer nd" "can_store h uri (sent_to q bs nd) = can_store h uri nd"
  "stored uri b part (sent_to q bs nd) = stored uri b part nd" "dirs_of h uri (sent_to q bs nd) = dirs_of h uri nd"
  "nd_rlm (sent_to q bs nd) = nd_rlm nd"
  "nd_rsm (sent_to q bs nd) = nd_rsm nd" "nd_fs (sent_to q bs nd) = nd_fs nd"
  by (simp_all add: open_conn_def can_store_def stored_def dirs_of_def parent_of_def sent_to_def set_fw_def nd_fw_def)

text \<open>
  C3: the transfer of one block, end to end, for a machine that reads and writes whole chunks
  (\<open>full_read\<close>, \<open>full_write\<close>) and a file whose directory is there or can be created. The request
  a node sends for a block of a resource, handled by a node that has listed the resource, is answered
  by one packet. Handling the answer stores the bytes of the block at its place in the requester's
  copy of the file, which is as long as it was or reaches to the end of the block, and keeps its
  bytes before (with zeros in a gap) and behind the block; no other file changes. The block, booked
  by the peer until then, is taken off the books, the blocks that were free stay free, and the books
  of no other resource change.
\<close>

theorem block_transfer:
  assumes "open_conn hc ic server c" and "can_store hc uri c" and "nd_rsm c = Manager m"
    and "open_conn hs is client s" and "holds_file hs uri hash r content s"
    and "clean_text uri" and "clean_text hash" and "proper_block b" and "unat (b_end b) \<le> length content"
    and "mgr_sorted m" and "range_known server b (uri_entry uri m)" and "host_law hc"
    and "scannable (nd_rlm c) (h_tree hc (stored uri b (block_of b content) c))"
  shows "\<exists>request reply c1 c2 file m'. sendRsReq uri (Some ic) b c = Inr c1 \<and>
    ctx_sent (nd_fw c1) = ctx_sent (nd_fw c) @ [(server, request)] \<and>
    recv_tcp hs is (request @ rest) n s = Some (Inr (sent_to client reply s)) \<and>
    recv_tcp hc ic (reply @ rest') n' c1 = Some (Inr c2) \<and>
    nd_fs c2 = (nd_fs c)(lm_home (nd_rlm c) @ uri \<mapsto> file) \<and>
    length file = max (length (file_content (nd_fs c) (lm_home (nd_rlm c) @ uri))) (unat (b_end b)) \<and>
    take (unat (b_start b)) file = take (unat (b_start b)) (file_content (nd_fs c) (lm_home (nd_rlm c) @ uri) @
      replicate (unat (b_start b) - length (file_content (nd_fs c) (lm_home (nd_rlm c) @ uri))) NUL) \<and>
    take (unat (b_end b - b_start b)) (drop (unat (b_start b)) file) = block_of b content \<and>
    drop (unat (b_end b)) file = drop (unat (b_end b)) (file_content (nd_fs c) (lm_home (nd_rlm c) @ uri)) \<and>
    nd_rsm c2 = Manager m' \<and>
    (\<forall>w. uri_parts w m = uri_parts w m' + (if w = uri then {#b#} else {#})) \<and>
    rs_block (uri_entry uri m') = rs_block (uri_entry uri m) \<and>
    (\<forall>w. w \<noteq> uri \<longrightarrow> str_find w (uriRs m') = str_find w (uriRs m))"
proof -
  note pb = proper_block_facts [OF assms(8)]
  let ?req = "wire_bytes (request_packet uri b)" and ?part = "block_of b content"
  let ?rep = "wire_bytes (reply_packet uri hash b r ?part)" and ?c1 = "sent_to server (wire_bytes (request_packet uri b)) c"
  let ?vr = "validRes (host_digester hc (stored uri b ?part c)) (h_cwd hc) (h_tree hc (stored uri b ?part c))"
  have len: "length ?part = unat (b_end b - b_start b)" by (rule length_block_of [OF assms(8,9)])
  have e: "unat (b_end b) < 2 ^ 63" using assms(5,9) by (simp add: holds_file_def)
  have send: "sendRsReq uri (Some ic) b c = Inr ?c1" by (rule sendRsReq_sends [OF assms(1,6) pb(5)])
  have sent: "ctx_sent (nd_fw ?c1) = ctx_sent (nd_fw c) @ [(server, ?req)]"
    by (simp add: sent_to_def set_fw_same)
  have served: "recv_tcp hs is (?req @ rest) n s = Some (Inr (sent_to client ?rep s))"
    by (rule serve_block [OF assms(4-9)])
  have vr: "\<exists>ok l'. ?vr uri hash (nd_rlm c) = Inr (ok, l')" for hash
    using validRes_result [OF host_digest_law [OF assms(12)] assms(13)] by blast
  obtain rlm' m' where finish: "syncingRangeDoneAndValid ?vr server uri b True (nd_rlm c, m) = Inr (rlm', m')"
    using range_done_total [where vr = "?vr" and l = "nd_rlm c", OF assms(11) vr] by blast
  note books = range_done_books [OF finish assms(10)] range_done_other [OF finish assms(10)] range_done_free [OF finish assms(10)]
  obtain ts where got: "recv_tcp hc ic (?rep @ rest') n' ?c1 = Some (Inr (?c1\<lparr>nd_fs := stored uri b ?part c,
      nd_dirs := dirs_of hc uri c, nd_rlm := rlm', nd_rsm := Manager m', nd_tasks := ts\<rparr>))"
    using store_block [of hc ic server ?c1 uri hash b ?part m rlm' m' r rest' n'] assms(1-3,6-8) e len finish by auto
  let ?old = "file_content (nd_fs c) (lm_home (nd_rlm c) @ uri)"
  let ?file = "splice ?old (unat (b_start b)) ?part"
  have result: "stored uri b ?part c = (nd_fs c)(lm_home (nd_rlm c) @ uri \<mapsto> ?file)"
    by (simp add: stored_def file_content_def Let_def)
  have ends: "unat (b_start b) + length ?part = unat (b_end b)" using len pb(1,2) by simp
  have shape: "length ?file = max (length ?old) (unat (b_end b))"
    "take (unat (b_start b)) ?file = take (unat (b_start b)) (?old @ replicate (unat (b_start b) - length ?old) NUL)"
    "take (unat (b_end b - b_start b)) (drop (unat (b_start b)) ?file) = ?part"
    "drop (unat (b_end b)) ?file = drop (unat (b_end b)) ?old"
    using splice_shape [where p = "unat (b_start b)" and old = ?old and bs = ?part] take_drop_splice [of ?part "unat (b_start b)" ?old] ends len
    by (simp_all add: length_splice)
  show ?thesis
    using send sent served got shape books assms(11)
    by (intro exI [of _ ?req] exI [of _ ?rep] exI [of _ ?c1] exI [of _ ?file] exI conjI) (assumption | simp add: result)+
qed

text \<open>A machine with one file \<open>/h/a\<close> on the server and nothing on the client.\<close>

definition sample_host :: host where
  "sample_host = \<lparr>h_sha3 = sample_digest, h_cwd = ''/'', h_tree = (\<lambda>fs. sample_tree), h_access = (\<lambda>_. True),
     h_read = (\<lambda>fs path. full_read (case fs path of None \<Rightarrow> [] | Some c \<Rightarrow> c)), h_write = full_write,
     h_mkdir = (\<lambda>_. True), h_open = (\<lambda>_ _. True), h_time = 0, h_draw = (\<lambda>_. 0), h_connect = (\<lambda>_. True),
     h_udp = (\<lambda>_. True), h_ntoa = quad_ntoa, h_aton = quad_aton, h_ports = []\<rparr>"

definition sample_resource :: resource where
  "sample_resource = mk_resource ''a'' ''/a'' ''/h/a'' ''00'' 5"

definition sample_node :: node where
  "sample_node = \<lparr>nd_trig = one_conn NetAddr_default,
     nd_rlm = \<lparr>lm_home = ''/h'', lm_table = [(''/a'', Some sample_resource)]\<rparr>,
     nd_rsm = NoManager, nd_fs = (\<lambda>p. if p = ''/h/a'' then Some ''hello'' else None), nd_dirs = {''/h''},
     nd_tasks = TaskManager_new, nd_config = config_init\<rparr>"

definition sample_rs :: "syncing_range list \<Rightarrow> sync_rs" where
  "sample_rs rs = \<lparr>rs_uri = ''/a'', rs_size = Some 5, rs_hash = ''00'', rs_block = [Block 2 5],
     rs_owner = Vec [NetAddr_default], rs_syncing = Vec rs, rs_success = False\<rparr>"

definition sample_client :: node where
  "sample_client = sample_node\<lparr>nd_fs := (\<lambda>_. None),
     nd_rsm := Manager \<lparr>uriRs = [(''/a'', sample_rs [SyncingRange_new NetAddr_default (Block 0 2) 0])]\<rparr>\<rparr>"

lemma sample_open: "open_conn sample_host 0 NetAddr_default sample_node"
  "open_conn sample_host 0 NetAddr_default sample_client"
  by (simp_all add: open_conn_def sample_client_def sample_node_def nd_fw_def sample_host_def)

lemma sample_c_string: "c_string ''a''" "c_string ''/a''" "c_string ''/h/a''" "c_string ''00''"
  by (simp_all add: c_string_def NAME_MAX_SIZE_def)

lemma sample_holds: "holds_file sample_host ''/a'' ''00'' sample_resource ''hello'' sample_node"
  by (simp add: holds_file_def sample_node_def sample_host_def sample_resource_def sample_c_string str_less_def)

lemma sample_parent: "parent_path (absolute ''/'' ''/h/a'') = ''/h''"
  by code_simp

lemma sample_store: "can_store sample_host ''/a'' sample_client"
  using sample_parent by (simp add: can_store_def parent_of_def sample_client_def sample_node_def sample_host_def)

lemma sample_host_law: "host_law sample_host"
  using full_read_law by (simp add: host_law_def sample_host_def sample_digest_def)

lemma sample_home_scannable:
  "scannable (nd_rlm sample_node) (h_tree sample_host fs)" "scannable (nd_rlm sample_client) (h_tree sample_host fs)"
  "home_files (nd_rlm sample_node) (h_tree sample_host fs) = [(''/h/d/b'', []), (''/h/a'', ''xy'')]"
  by (simp_all add: scannable_def home_files_def sample_client_def sample_node_def sample_host_def sample_tree_def
      path_join_def file_fits_def c_string_def NAME_MAX_SIZE_def)

lemma sample_block: "proper_block (Block 0 2)" "clean_text ''/a''" "clean_text ''00''"
  by (simp_all add: proper_block_def BLOCK_SIZE_def SIZE_1KByte_def clean_text_def)

lemma sample_done: "syncingRangeDoneAndValid v NetAddr_default ''/a'' (Block 0 2) True
    (l, \<lparr>uriRs = [(''/a'', sample_rs [SyncingRange_new NetAddr_default (Block 0 2) 0])]\<rparr>) =
    Inr (l, \<lparr>uriRs = [(''/a'', sample_rs [])]\<rparr>)"
  by (simp add: syncingRangeDoneAndValid_def rs_done_def erase_last_def uri_entry_eq sample_rs_def is_range_def
      SyncingRange_new_def block_eq_def set_entry_def str_map.irrefl Let_def)

theorem block_transfer_witness:
  "\<exists>request reply c1 c2 file m'. sendRsReq ''/a'' (Some 0) (Block 0 2) sample_client = Inr c1 \<and>
     recv_tcp sample_host 0 (request @ []) 0 sample_node = Some (Inr (sent_to NetAddr_default reply sample_node)) \<and>
     recv_tcp sample_host 0 (reply @ []) 0 c1 = Some (Inr c2) \<and>
     nd_fs c2 = [''/h/a'' \<mapsto> file] \<and> length file = 2 \<and> take 2 file = ''he'' \<and>
     nd_rsm c2 = Manager m' \<and> rs_block (uri_entry ''/a'' m') = [Block 2 5]"
proof -
  let ?m = "\<lparr>uriRs = [(''/a'', sample_rs [SyncingRange_new NetAddr_default (Block 0 2) 0])]\<rparr>"
  have m: "nd_rsm sample_client = Manager ?m"
    and n: "nd_rlm sample_client = nd_rlm sample_node" "lm_home (nd_rlm sample_node) = ''/h''" "nd_fs sample_client = (\<lambda>_. None)"
    by (simp_all add: sample_client_def sample_node_def)
  have known: "mgr_sorted ?m" "range_known NetAddr_default (Block 0 2) (uri_entry ''/a'' ?m)"
    "rs_block (uri_entry ''/a'' ?m) = [Block 2 5]"
    by (simp_all add: mgr_sorted_def range_known_def uri_entry_eq sample_rs_def is_range_def SyncingRange_new_def
        block_eq_def str_map.irrefl)
  have "block_of (Block 0 2) ''hello'' = ''he''" by (simp add: block_of_def)
  then show ?thesis
    using block_transfer [OF sample_open(2) sample_store m sample_open(1) sample_holds sample_block(2,3,1) _
        known(1,2) sample_host_law sample_home_scannable(2), of "[]" 0 "[]" 0] n known(3)
    by (fastforce simp: fun_upd_def file_content_def)
qed

text \<open>
  C33: a peer stops the program with one packet: a request for a resource without the range header,
  or a reply without the content range, makes the handler index an empty vector.
\<close>

theorem missing_range_faults:
  assumes "open_conn h i peer nd" and "\<forall>e \<in> set kvs. clean_kv e" and "xh_size kvs < 2 ^ 15"
    and "length (payload d) < 2 ^ 23"
  shows "(map_of (rev kvs) XHEADER_RANGE = None \<longrightarrow>
      recv_tcp h i (wire_bytes (the_packet LAN_SYNC_TYPE_GET_RESOURCE kvs d) @ rest) n nd = Some (Inl OutOfBounds)) \<and>
    (map_of (rev kvs) XHEADER_URI = Some uri \<longrightarrow> map_of (rev kvs) XHEADER_CONTENT_RANGE = None \<longrightarrow>
      recv_tcp h i (wire_bytes (the_packet LAN_SYNC_TYPE_REPLY_RESOURCE kvs d) @ rest) n nd = Some (Inl OutOfBounds))"
proof (intro conjI impI)
  note rcv = received_packet [OF assms] and q = the_received_query [OF assms(2-4)]
  show "recv_tcp h i (wire_bytes (the_packet LAN_SYNC_TYPE_GET_RESOURCE kvs d) @ rest) n nd = Some (Inl OutOfBounds)"
    if "map_of (rev kvs) XHEADER_RANGE = None"
    using that by (simp add: recv_tcp_def rcv q handleReqResource_def Range_of_Nil proto_consts)
  show "recv_tcp h i (wire_bytes (the_packet LAN_SYNC_TYPE_REPLY_RESOURCE kvs d) @ rest) n nd = Some (Inl OutOfBounds)"
    if "map_of (rev kvs) XHEADER_URI = Some uri" and "map_of (rev kvs) XHEADER_CONTENT_RANGE = None"
  proof -
    have "(XHEADER_URI, uri) \<in> set kvs" using map_of_SomeD [OF that(1)] by simp
    then have "uri \<noteq> []" using assms(2) by (auto simp: clean_kv_def sendable_def)
    then show ?thesis using that
      by (simp add: recv_tcp_def rcv q handleReplyResource_def ContentRange_of_Nil Let_def
          LAN_SYNC_TYPE_GET_RESOURCE_def LAN_SYNC_TYPE_GET_TABLE_INDEX_def
          LAN_SYNC_TYPE_REPLY_TABLE_INDEX_def LAN_SYNC_TYPE_REPLY_RESOURCE_def)
  qed
qed

theorem missing_range_faults_witness:
  "recv_tcp sample_host 0 (wire_bytes (the_packet LAN_SYNC_TYPE_GET_RESOURCE [] None)) 8 sample_node =
     Some (Inl OutOfBounds)"
  using missing_range_faults [OF sample_open(1), where kvs = "[]" and d = None and rest = "[]" and n = 8]
  by (simp add: payload_def)

text \<open>
  C99: a packet whose length field, read as it stands in memory, is below 8 ends the program: the
  constructor returns before it has set the type and the data pointer, which the log statement
  reads and the destructor frees. The empty buffer that \<open>udp_read_cb\<close> hands on when \<open>recvfrom\<close>
  fails is such a packet.
\<close>

theorem rejected_packet_faults:
  assumes "8 \<le> length mem" and "take 4 (drop 4 mem) = [c, NUL, NUL, NUL]" and "(of_char c :: nat) < 8"
  shows "recv_udp h i mem n nd = Some (Inl Uninitialised) \<and> recv_tcp h i mem n nd = Some (Inl Uninitialised)"
proof -
  obtain hd where hd: "load_header mem = Inr hd" "hd_total_len hd = of_le [c, NUL, NUL, NUL]"
    using assms(1,2) by (auto simp: load_header_def len_consts)
  have "unat (of_le [c, NUL, NUL, NUL] :: u32) = of_char c"
    by (subst unat_of_le) simp_all
  then have "unat (hd_total_len hd) < LEN_LAN_SYNC_HEADER_T" using hd(2) assms(3) by (simp add: len_consts)
  then have "LanSyncPkt_parse mem = Some (Inr Rejected)" using hd(1) by (simp add: LanSyncPkt_parse_def)
  then show ?thesis by (simp add: recv_udp_def recv_tcp_def received_def)
qed

theorem rejected_packet_faults_witness:
  "recv_udp sample_host 0 (replicate 4096 NUL) (2 ^ 32 - 1) sample_node = Some (Inl Uninitialised)"
proof -
  have "take 4 (drop 4 (replicate 4096 NUL)) = [NUL, NUL, NUL, NUL]"
    by (simp add: drop_replicate take_replicate numeral_eq_Suc)
  then show ?thesis
    using rejected_packet_faults [of "replicate 4096 NUL" NUL sample_host 0 "2 ^ 32 - 1" sample_node] by simp
qed

text \<open>The session index after a connection was closed.\<close>

definition closed_session :: "nat \<Rightarrow> net_addr \<Rightarrow> net_fw \<Rightarrow> bool" where
  "closed_session i peer fw \<longleftrightarrow>
     i \<in> set (elems (tcp_ctx fw)) \<and> distinct (elems (tcp_ctx fw)) \<and>
     (\<forall>j \<in> set (elems (tcp_ctx fw)). \<exists>c. ctx_heap fw j = Some c \<and>
        (s_addr (le_addr (ctx_peer c)) = s_addr (le_addr peer) \<longleftrightarrow> j = i))"

lemma closed_session_gone:
  assumes "closed_session i peer fw"
  shows "\<exists>fw' idx. event_cb i fw = Inr fw' \<and> getAllTcpSession fw' = Inr idx \<and>
    sm_find addr_less peer idx = None"
proof -
  obtain xs where xs: "tcp_ctx fw = Vec xs" using assms by (cases "tcp_ctx fw") (auto simp: closed_session_def)
  obtain c where c: "ctx_heap fw i = Some c" using assms by (auto simp: closed_session_def)
  let ?fw = "fw\<lparr>ctx_heap := (ctx_heap fw)(i \<mapsto> c\<lparr>ctx_active := False\<rparr>), tcp_ctx := Vec (remove1 i xs)\<rparr>"
  have ev: "event_cb i fw = Inr ?fw"
    using c xs by (simp add: event_cb_def ctx_setActive_def ctx_at_def)
  have live: "\<exists>a. ctx_getPeer j ?fw = Inr a \<and> s_addr (le_addr a) \<noteq> s_addr (le_addr peer)"
    if "j \<in> set (remove1 i xs)" for j
    using assms that xs by (fastforce simp: closed_session_def ctx_getPeer_def ctx_at_def)
  let ?step = "\<lambda>i idx. rbind (ctx_getPeer i ?fw) (\<lambda>a. Inr (sm_put addr_less a i idx))"
  have "\<exists>idx. rfold ?step (remove1 i xs) [] = Inr idx \<and> sm_find addr_less peer idx = None"
  proof (rule rfold_total)
    fix j and idx :: "(net_addr, nat) smap"
    assume "j \<in> set (remove1 i xs)" and idx: "sm_find addr_less peer idx = None"
    then obtain a where "ctx_getPeer j ?fw = Inr a" "s_addr (le_addr a) \<noteq> s_addr (le_addr peer)"
      using live by blast
    then show "\<exists>t. ?step j idx = Inr t \<and> sm_find addr_less peer t = None"
      using idx by (simp add: addr_map.find_put addr_map_eqv)
  qed simp
  then show ?thesis using ev by (auto simp: getAllTcpSession_def)
qed

lemma sm_find_map_values: "sm_find lt k (map (map_prod id f) m) = map_option f (sm_find lt k m)"
  by (induction lt k m rule: sm_find.induct) auto

text \<open>
  C34: closing a connection does not take the peer off the owners of its resources, so the next
  request task that draws it looks up a session that is not there and goes on with the null
  pointer the lookup has made.
\<close>

theorem request_to_closed_peer_faults:
  assumes "closed_session i peer (nd_fw nd)" and "nd_rsm nd = Manager m"
    and "vec_at (elems (rs_owner (uri_entry uri m))) (h_draw h (length (elems (rs_owner (uri_entry uri m))))) = Inr peer"
    and "length (elems (rs_owner (uri_entry uri m))) < 2 ^ 32"
    and "rs_block (uri_entry uri m) \<noteq> []" and "length (rs_block (uri_entry uri m)) < 2 ^ 32"
    and "length (elems (rs_syncing (uri_entry uri m))) < DOWNLOAD_LIMIT"
    and "b_start (last (rs_block (uri_entry uri m))) < b_end (last (rs_block (uri_entry uri m)))" and "clean_text uri"
  shows "\<exists>fw. event_cb i (nd_fw nd) = Inr fw \<and> ReqRsTask_run h uri (set_fw fw nd) = Inl NullDeref"
proof -
  let ?rs = "uri_entry uri m" and ?b = "last (rs_block (uri_entry uri m))"
  obtain fw idx where fw: "event_cb i (nd_fw nd) = Inr fw" "getAllTcpSession fw = Inr idx"
    "sm_find addr_less peer idx = None"
    using closed_session_gone [OF assms(1)] by blast
  have own: "unat (of_nat (length (elems (rs_owner ?rs))) :: u32) = length (elems (rs_owner ?rs))"
    using assms(4) by (rule unat_of_nat_u32)
  have mem: "peer \<in> set (elems (rs_owner ?rs))"
    using assms(3) by (auto simp: vec_at_def split: if_splits)
  then have ne: "(of_nat (length (elems (rs_owner ?rs))) :: u32) \<noteq> 0" using own by (auto dest: arg_cong [of _ _ unat])
  have blk: "(of_nat (length (rs_block ?rs)) :: u32) \<noteq> 0"
    using unat_of_nat_u32 [OF assms(6)] assms(5) by (auto dest: arg_cong [of _ _ unat])
  have syn: "\<not> of_nat DOWNLOAD_LIMIT \<le> (of_nat (length (elems (rs_syncing ?rs))) :: u32)"
    using assms(7) unat_of_nat_u32 [of "length (elems (rs_syncing ?rs))"]
    by (simp add: word_le_nat_alt DOWNLOAD_LIMIT_def)
  have be: "b_end ?b \<noteq> 0" "b_start ?b \<noteq> b_end ?b" using assms(8) by auto
  have null: "fst (sm_index addr_less None peer (map (map_prod id Some) idx)) = None"
    using fw(3) by (simp add: sm_index_def sm_find_map_values)
  obtain m' where req: "regReqSyncRsAuto peer uri (h_time h)
      (set_entry uri ?rs (set_entry uri ?rs (set_entry uri ?rs (set_entry uri ?rs m)))) = (?b, m')"
    using assms(5) mem by (auto simp: regReqSyncRsAuto_def rs_request_def Let_def list_ex_iff)
  have send: "sendRsReq uri None ?b nd' = Inl NullDeref" for nd'
    using request_written [OF assms(9) be(2)] by (simp add: sendRsReq_def range_text_print [OF be(2)])
  have "ReqRsTask_run h uri (set_fw fw nd) = Inl NullDeref"
    using fw(2) assms(2,3) req own ne blk syn be(1) null send
    by (auto simp: ReqRsTask_run_def set_fw_same getRsSyncManager_def set_fw_def nd_fw_def getOwnerSize_def
        getBlockSize_def getSyncingSize_def Let_def)
  with fw(1) show ?thesis by blast
qed

theorem request_to_closed_peer_faults_witness:
  "\<exists>fw. event_cb 0 (nd_fw sample_client) = Inr fw \<and> ReqRsTask_run sample_host ''/a'' (set_fw fw sample_client) = Inl NullDeref"
proof -
  have cs: "closed_session 0 NetAddr_default (nd_fw sample_client)"
    by (simp add: closed_session_def sample_client_def sample_node_def nd_fw_def one_conn_def ctx_new_def
        net_fw_init_def Let_def)
  have m: "nd_rsm sample_client = Manager \<lparr>uriRs = [(''/a'', sample_rs [SyncingRange_new NetAddr_default (Block 0 2) 0])]\<rparr>"
    by (simp add: sample_client_def)
  have e: "uri_entry ''/a'' \<lparr>uriRs = [(''/a'', sample_rs [SyncingRange_new NetAddr_default (Block 0 2) 0])]\<rparr> =
      sample_rs [SyncingRange_new NetAddr_default (Block 0 2) 0]"
    by (simp add: uri_entry_eq str_less_def)
  show ?thesis
    by (rule request_to_closed_peer_faults [OF cs m])
      (unfold e, simp_all add: sample_rs_def sample_host_def vec_at_def DOWNLOAD_LIMIT_def clean_text_def)
qed

lemma reply_types:
  "LAN_SYNC_TYPE_REPLY_TABLE_INDEX \<noteq> LAN_SYNC_TYPE_GET_TABLE_INDEX"
  "LAN_SYNC_TYPE_REPLY_TABLE_INDEX \<noteq> LAN_SYNC_TYPE_GET_RESOURCE"
  by (simp_all add: proto_consts)

lemma deref_all_Some: "deref_all (map Some ls) = Inr ls"
proof -
  have "rfold (\<lambda>r acc. case r of None \<Rightarrow> Inl NullDeref | Some x \<Rightarrow> Inr (acc @ [x])) (map Some ls) acc = Inr (acc @ ls)" for acc
    by (induction ls arbitrary: acc) auto
  then show ?thesis by (simp add: deref_all_def)
qed

lemma no_headers: "the_packet ty [] d =
    (case d of None \<Rightarrow> LanSyncPkt_new LAN_SYNC_VER_0_1 ty | Some bs \<Rightarrow> setData bs (LanSyncPkt_new LAN_SYNC_VER_0_1 ty))"
  by (simp add: the_packet_def with_headers_def Let_def split: option.splits)

definition table_reply :: "resource list \<Rightarrow> lan_sync_pkt" where
  "table_reply ls = the_packet LAN_SYNC_TYPE_REPLY_TABLE_INDEX [] (Some (concat (map res_bytes ls)))"

lemma table_reply_facts:
  assumes "\<forall>r \<in> set ls. proper r" and "length ls * SIZEOF_RESOURCE < 2 ^ 23"
  shows "length (concat (map res_bytes ls)) = SIZEOF_RESOURCE * length ls"
    and "length (payload (Some (concat (map res_bytes ls)))) < 2 ^ 23"
proof -
  show len: "length (concat (map res_bytes ls)) = SIZEOF_RESOURCE * length ls"
    by (rule length_concat_res) (use assms(1) proper_wf in blast)
  show "length (payload (Some (concat (map res_bytes ls)))) < 2 ^ 23"
    using assms(2) len by (simp add: payload_def mult.commute)
qed

lemma no_kvs: "\<forall>e \<in> set []. clean_kv e" "xh_size [] < 2 ^ 15"
  by simp_all

text \<open>The server: a request for the table is answered with the bytes of the table.\<close>

lemma table_served:
  assumes "open_conn h i client s" and "lm_home (nd_rlm s) \<noteq> []"
    and "getTable (host_digester h (nd_fs s)) (h_cwd h) (h_tree h (nd_fs s)) (nd_rlm s) = Inr (map Some ls, lm)"
    and "\<forall>r \<in> set ls. proper r" and "length ls * SIZEOF_RESOURCE < 2 ^ 23"
  shows "recv_tcp h i (wire_bytes (tick_pkt False) @ rest) n s =
    Some (Inr (sent_to client (wire_bytes (table_reply ls)) (s\<lparr>nd_rlm := lm\<rparr>)))"
proof -
  let ?arr = "concat (map res_bytes ls)"
  have arr: "vecToArr ls = Inr ?arr" using vecToArr_bytes [OF assms(4)] assms(5) by simp
  have "tick_pkt False = the_packet LAN_SYNC_TYPE_GET_TABLE_INDEX [] None"
    by (simp add: tick_pkt_def no_headers)
  then have rcv: "received h (wire_bytes (tick_pkt False) @ rest) i s =
      Some (Inr (Some (the_received LAN_SYNC_TYPE_GET_TABLE_INDEX [] None)))"
    using received_packet [OF assms(1) no_kvs, of None] by (simp add: payload_def)
  have ty: "pkt_type (the_received LAN_SYNC_TYPE_GET_TABLE_INDEX [] None) = LAN_SYNC_TYPE_GET_TABLE_INDEX"
    using the_received_query(2) [OF no_kvs, of None] by (simp add: payload_def)
  have wr: "LanSyncPkt_write (setData ?arr (LanSyncPkt_new LAN_SYNC_VER_0_1 LAN_SYNC_TYPE_REPLY_TABLE_INDEX)) =
      Inr (wire_bytes (table_reply ls))"
    using the_packet_wire(1) [OF no_kvs table_reply_facts(2) [OF assms(4,5)], where ty = LAN_SYNC_TYPE_REPLY_TABLE_INDEX]
    by (simp add: no_headers table_reply_def)
  have oc: "open_conn h i client (s\<lparr>nd_rlm := lm\<rparr>)" using assms(1) by (simp add: open_conn_def nd_fw_def)
  have "handleReqTableIndex h i s = Inr (sent_to client (wire_bytes (table_reply ls)) (s\<lparr>nd_rlm := lm\<rparr>))"
    using assms(2,3) open_conn_ctx(2) [OF oc]
    by (simp add: handleReqTableIndex_def getRsLocalManager_def deref_all_Some arr wr write_or_throw_def sent_to_def)
  then show ?thesis by (simp add: recv_tcp_def rcv ty)
qed

text \<open>The client: the bytes of the table are read back and handed to the manager.\<close>

lemma table_loaded:
  assumes "open_conn h i server c" and "nd_rsm c = Manager m"
    and "\<forall>r \<in> set ls. proper r" and "length ls * SIZEOF_RESOURCE < 2 ^ 23"
  shows "recv_tcp h i (wire_bytes (table_reply ls) @ rest) n c =
    Some (rbind (refreshSyncingRsByTbIdx h (nd_fs c) server ls (nd_rlm c, m)) (\<lambda>(rlm', m').
      add_req_task (c\<lparr>nd_rlm := rlm', nd_rsm := Manager m'\<rparr>)))"
proof -
  let ?arr = "concat (map res_bytes ls)"
  note len = table_reply_facts(1) [OF assms(3,4)] and small = table_reply_facts(2) [OF assms(3,4)]
  let ?q = "the_received LAN_SYNC_TYPE_REPLY_TABLE_INDEX [] (Some ?arr)"
  note rcv = received_packet [OF assms(1) no_kvs small, where ty = LAN_SYNC_TYPE_REPLY_TABLE_INDEX]
    and q = the_received_query(2,3) [OF no_kvs small, where ty = LAN_SYNC_TYPE_REPLY_TABLE_INDEX]
  have "unat (getDataLen ?q) = length ?arr"
  proof -
    have "pkt_wf (table_reply ls)" "data_of (table_reply ls) = ?arr"
      using the_packet_facts(1,2) [OF no_kvs small, where ty = LAN_SYNC_TYPE_REPLY_TABLE_INDEX]
      by (simp_all add: payload_def table_reply_def)
    then have "unat (total_len ?q) = unat (header_len ?q) + length ?arr"
      by (simp add: the_received_def pkt_wf_def table_reply_def)
    then have "total_len ?q = of_nat (unat (header_len ?q) + length ?arr)" by (rule word_eq_of_nat)
    then have "getDataLen ?q = of_nat (length ?arr)" by (simp add: getDataLen_def)
    moreover have "length ?arr < 2 ^ 32" using assms(4) len by (simp add: mult.commute)
    ultimately show ?thesis by (simp only: unat_of_nat_u32)
  qed
  then have n: "unat (getDataLen ?q) div SIZEOF_RESOURCE = length ls" using len by (simp add: SIZEOF_RESOURCE_def)
  have "\<forall>r \<in> set ls. res_wf r" using assms(3) proper_wf by blast
  then have "handleReplyTableIndex h ?q i c =
      rbind (refreshSyncingRsByTbIdx h (nd_fs c) server ls (nd_rlm c, m)) (\<lambda>(rlm', m').
        add_req_task (c\<lparr>nd_rlm := rlm', nd_rsm := Manager m'\<rparr>))"
    using load_table_bytes [of ls "[]"] q(2) assms(2) open_conn_ctx(1) [OF assms(1)]
    by (simp add: handleReplyTableIndex_def n payload_def getRsSyncManager_def Let_def)
  then show ?thesis using rcv q(1) reply_types by (simp add: recv_tcp_def table_reply_def)
qed



end
