(* ===== verification/Peer_Discovery.thy ===== *)
theory Peer_Discovery
  imports Block_Exchange Sync_Main
begin

text \<open>
  How two nodes find each other: the datagram of a discovery round, the answer that names the TCP
  port, the connection the answer makes, and the first request for the table over it.
\<close>

definition hello_packet :: lan_sync_pkt where
  "hello_packet = the_packet LAN_SYNC_TYPE_HELLO [] None"

definition ack_packet :: "u16 \<Rightarrow> lan_sync_pkt" where
  "ack_packet p = the_packet LAN_SYNC_TYPE_HELLO_ACK [(XHEADER_TCPPORT, dec_str (unat p))] None"

text \<open>A UDP context a peer at \<open>a\<close> reaches, from a socket address the C library can print and read.\<close>

definition udp_from :: "host \<Rightarrow> nat \<Rightarrow> sockaddr_in \<Rightarrow> net_addr \<Rightarrow> node \<Rightarrow> bool" where
  "udp_from h i src a nd \<longleftrightarrow>
     (\<exists>c. ctx_heap (nd_fw nd) i = Some c \<and> ctx_udp c) \<and> fromBe (h_aton h) (h_ntoa h) src = Inr a \<and>
     \<not> existIp (h_ports h) (s_addr (getBeAddr a))"

text \<open>The node once the context has the address of the sender.\<close>

definition heard_from :: "nat \<Rightarrow> net_addr \<Rightarrow> node \<Rightarrow> node" where
  "heard_from i a nd =
     set_fw ((nd_fw nd)\<lparr>ctx_heap := (ctx_heap (nd_fw nd))(i \<mapsto> (the (ctx_heap (nd_fw nd) i))\<lparr>ctx_peer := a\<rparr>)\<rparr>) nd"

lemma hello_is_tick: "hello_packet = tick_pkt True"
  by (simp add: hello_packet_def the_packet_def tick_pkt_def)

lemma port_kvs_ok: "\<forall>e \<in> set [(XHEADER_TCPPORT, dec_str (unat (p :: u16)))]. clean_kv e"
    "xh_size [(XHEADER_TCPPORT, dec_str (unat p))] < 2 ^ 10"
proof -
  have "length (dec_str (unat p)) \<le> 20"
    using unat_less_pow [of p] length_dec_str [of "unat p" 19] by simp
  then show "xh_size [(XHEADER_TCPPORT, dec_str (unat p))] < 2 ^ 10" by (simp add: XHEADER_TCPPORT_def)
  show "\<forall>e \<in> set [(XHEADER_TCPPORT, dec_str (unat p))]. clean_kv e"
    by (simp add: clean_kv_def sendable_def XHEADER_TCPPORT_def dec_str_no_sep dec_str_not_Nil)
qed

lemma datagram_handled:
  assumes "\<forall>e \<in> set kvs. clean_kv e" and "xh_size kvs < 2 ^ 10" and "udp_from h i src a nd"
    and "pkt = the_packet ty kvs None"
  shows "\<exists>rest. udp_input h i src (Some (wire_bytes pkt)) nd =
     returned (recv_udp h i (wire_bytes pkt @ rest) (of_nat (length (wire_bytes pkt))) (heard_from i a nd)) \<and>
     received h (wire_bytes pkt @ rest) i (heard_from i a nd) = Some (Inr (Some (the_received ty kvs None)))"
proof -
  let ?nd = "heard_from i a nd" and ?d = "wire_bytes pkt"
  let ?rest = "replicate (4096 - length ?d) NUL"
  have sz: "xh_size kvs < 2 ^ 15" using assms(2) by simp
  have p: "pkt = with_headers kvs (LanSyncPkt_new LAN_SYNC_VER_0_1 ty)"
    by (simp add: assms(4) the_packet_def)
  have "length ?d \<le> 4096 \<and> 8 \<le> length ?d"
    using with_headers_wf [OF assms(1) sz, of LAN_SYNC_VER_0_1 ty] assms(2)
    by (simp add: p wire_bytes_def data_of_def)
  then have len: "length ?d \<le> 4096" "?d \<noteq> []" by auto
  obtain c where c: "ctx_heap (nd_fw nd) i = Some c" "ctx_udp c"
    using assms(3) by (auto simp: udp_from_def)
  have fw: "ctx_heap (nd_fw ?nd) i = Some (c\<lparr>ctx_peer := a\<rparr>)"
    using c by (simp add: heard_from_def set_fw_same)
  have "udp_input h i src (Some ?d) nd = endpoint_recv h i (?d @ ?rest) (of_nat (length ?d)) ?nd"
    using c assms(3) len
    by (cases ?d) (simp_all add: udp_input_def udp_read_cb_def udp_from_def ctx_setNetAddr_def ctx_at_def
        heard_from_def Let_def)
  also have "\<dots> = returned (recv_udp h i (?d @ ?rest) (of_nat (length ?d)) ?nd)"
    using fw c by (simp add: endpoint_recv_def getNetworkEndpoint_def ctx_at_def LogicUdp_recv_def)
  finally have one: "udp_input h i src (Some ?d) nd = \<dots>" .
  have "received h (?d @ ?rest) i ?nd = Some (Inr (Some (the_received ty kvs None)))"
    using fw assms(3) the_packet_wire(2) [OF assms(1) sz, of None ty ?rest]
    by (simp add: received_def assms(4) payload_def ctx_getPeer_def ctx_at_def udp_from_def)
  with one show ?thesis by blast
qed

text \<open>A node that listens for TCP connections on port \<open>p\<close>.\<close>

definition listens_on :: "u16 \<Rightarrow> node \<Rightarrow> bool" where
  "listens_on p nd \<longleftrightarrow> (\<exists>cfg. config_query CONFIG_KEY_PROTO_SYNC_SERVER_TCP_PORT (nd_config nd) = Inr (dec_str (unat p), cfg))"

lemma hello_answered:
  assumes "udp_from h i src a nd" and "listens_on p nd"
  shows "\<exists>nd'. udp_input h i src (Some (wire_bytes hello_packet)) nd = Inr nd' \<and>
    ctx_sent (nd_fw nd') = ctx_sent (nd_fw nd) @ [(a, wire_bytes (ack_packet p))] \<and>
    ctx_heap (nd_fw nd') = ctx_heap (nd_fw (heard_from i a nd)) \<and> ctx_fresh (nd_fw nd') = ctx_fresh (nd_fw nd) \<and>
    same_disk nd nd'"
proof -
  let ?nd = "heard_from i a nd" and ?kvs = "[(XHEADER_TCPPORT, dec_str (unat p))]"
  obtain cfg where cfg: "config_query CONFIG_KEY_PROTO_SYNC_SERVER_TCP_PORT (nd_config ?nd) = Inr (dec_str (unat p), cfg)"
    using assms(2) by (auto simp: listens_on_def heard_from_def set_fw_def)
  obtain rest where rest: "udp_input h i src (Some (wire_bytes hello_packet)) nd =
      returned (recv_udp h i (wire_bytes hello_packet @ rest) (of_nat (length (wire_bytes hello_packet))) ?nd)"
    and rcv: "received h (wire_bytes hello_packet @ rest) i ?nd = Some (Inr (Some (the_received LAN_SYNC_TYPE_HELLO [] None)))"
    using datagram_handled [of "[]" h i src a nd hello_packet LAN_SYNC_TYPE_HELLO] assms(1) by (auto simp: hello_packet_def)
  have ty: "pkt_type (the_received LAN_SYNC_TYPE_HELLO [] None) = LAN_SYNC_TYPE_HELLO"
    by (rule the_received_query) (simp_all add: payload_def)
  have "LanSyncPkt_write (addXheader XHEADER_TCPPORT (dec_str (unat p))
      (LanSyncPkt_new LAN_SYNC_VER_0_1 LAN_SYNC_TYPE_HELLO_ACK)) = Inr (wire_bytes (ack_packet p))"
    using the_packet_wire(1) [of ?kvs None LAN_SYNC_TYPE_HELLO_ACK] port_kvs_ok [of p]
    by (simp add: ack_packet_def the_packet_def with_headers_def payload_def)
  moreover obtain c where "ctx_heap (nd_fw ?nd) i = Some c" "ctx_udp c" "ctx_peer c = a"
    using assms(1) by (auto simp: udp_from_def heard_from_def set_fw_same)
  ultimately have "handleHello i ?nd = Inr (set_fw ((nd_fw ?nd)\<lparr>ctx_sent := ctx_sent (nd_fw ?nd) @ [(a, wire_bytes (ack_packet p))]\<rparr>)
      (?nd\<lparr>nd_config := cfg\<rparr>))"
    using cfg by (simp add: handleHello_def write_or_throw_def ctx_write_def ctx_at_def nd_fw_def)
  then have "udp_input h i src (Some (wire_bytes hello_packet)) nd = Inr (set_fw ((nd_fw ?nd)\<lparr>ctx_sent :=
      ctx_sent (nd_fw ?nd) @ [(a, wire_bytes (ack_packet p))]\<rparr>) (?nd\<lparr>nd_config := cfg\<rparr>))"
    using rest rcv ty by (simp add: recv_udp_def)
  then show ?thesis by (simp add: set_fw_same heard_from_def) (simp add: set_fw_def same_disk_def)
qed

text \<open>
  The address the client connects to, and a client that has no connection to it yet and gets one.
\<close>

definition tcp_target :: "u16 \<Rightarrow> net_addr \<Rightarrow> net_addr" where
  "tcp_target p a = setPort (uint p) a"

definition can_connect :: "host \<Rightarrow> net_addr \<Rightarrow> node \<Rightarrow> bool" where
  "can_connect h t nd \<longleftrightarrow>
     h_connect h t \<and> s_addr (le_addr t) \<noteq> 0 \<and> str_find (addr_str (h_ntoa h) t) (tr_tcp (nd_trig nd)) = None"

lemma ack_connects:
  assumes "udp_from h i src a nd" and "can_connect h (tcp_target p a) nd" and "tr_mods (nd_trig nd) = wired_mods"
    and "sm_sorted str_less (tr_tcp (nd_trig nd))"
  shows "\<exists>nd'. udp_input h i src (Some (wire_bytes (ack_packet p))) nd = Inr nd' \<and>
    tr_tcp (nd_trig nd') = str_put (addr_str (h_ntoa h) (tcp_target p a)) (Some (ctx_fresh (nd_fw nd))) (tr_tcp (nd_trig nd)) \<and>
    tr_udp (nd_trig nd') = tr_udp (nd_trig nd) \<and>
    tr_mods (nd_trig nd') = wired_mods \<and> ctx_sent (nd_fw nd') = ctx_sent (nd_fw nd) \<and>
    ctx_heap (nd_fw nd') = (ctx_heap (nd_fw (heard_from i a nd)))
      (ctx_fresh (nd_fw nd) \<mapsto> \<lparr>ctx_peer = tcp_target p a, ctx_active = True, ctx_udp = False\<rparr>) \<and>
    elems (tcp_ctx (nd_fw nd')) = elems (tcp_ctx (nd_fw nd)) @ [ctx_fresh (nd_fw nd)] \<and> same_disk nd nd'"
proof -
  let ?nd = "heard_from i a nd" and ?kvs = "[(XHEADER_TCPPORT, dec_str (unat p))]" and ?t = "tcp_target p a"
  let ?pkt = "the_received LAN_SYNC_TYPE_HELLO_ACK ?kvs None"
  have ok: "\<forall>e \<in> set ?kvs. clean_kv e" "xh_size ?kvs < 2 ^ 10" "xh_size ?kvs < 2 ^ 15"
    using port_kvs_ok [of p] by auto
  obtain rest where rest: "udp_input h i src (Some (wire_bytes (ack_packet p))) nd =
      returned (recv_udp h i (wire_bytes (ack_packet p) @ rest) (of_nat (length (wire_bytes (ack_packet p)))) ?nd)"
    and rcv: "received h (wire_bytes (ack_packet p) @ rest) i ?nd = Some (Inr (Some ?pkt))"
    using datagram_handled [OF ok(1,2) assms(1) refl, of LAN_SYNC_TYPE_HELLO_ACK] by (auto simp: ack_packet_def)
  have q: "fst (queryXheader XHEADER_TCPPORT ?pkt) = dec_str (unat p)" "pkt_type ?pkt = LAN_SYNC_TYPE_HELLO_ACK"
    using the_received_query(1) [OF ok(1,3), of None XHEADER_TCPPORT LAN_SYNC_TYPE_HELLO_ACK]
      the_received_query(2) [OF ok(1,3), of None LAN_SYNC_TYPE_HELLO_ACK] by (simp_all add: payload_def)
  have peer: "ctx_getPeer i (nd_fw ?nd) = Inr a"
    by (simp add: heard_from_def set_fw_same ctx_getPeer_def ctx_at_def)
  have tr: "tr_tcp (nd_trig ?nd) = tr_tcp (nd_trig nd)" "tr_mods (nd_trig ?nd) = wired_mods"
    "tr_fw (nd_trig ?nd) = nd_fw ?nd" "tr_udp (nd_trig ?nd) = tr_udp (nd_trig nd)"
    using assms(3) by (simp_all add: heard_from_def set_fw_def nd_fw_def)
  define fw' where "fw' = snd (ctx_new False ?t (nd_fw ?nd))"
  have new: "ctx_new False ?t (nd_fw ?nd) = (ctx_fresh (nd_fw ?nd), fw')" by (simp add: fw'_def ctx_new_def Let_def)
  have fresh: "ctx_fresh (nd_fw ?nd) = ctx_fresh (nd_fw nd)" by (simp add: heard_from_def set_fw_same)
  let ?m = "str_put (addr_str (h_ntoa h) ?t) (Some (ctx_fresh (nd_fw nd))) (tr_tcp (nd_trig nd))"
  have add: "addConn (h_ntoa h) (h_connect h ?t) False ?t (nd_trig ?nd) =
      Inr (True, (nd_trig ?nd)\<lparr>tr_tcp := ?m, tr_fw := fw'\<rparr>)"
    using assms(2) new tr fresh
    by (simp add: addConn_def can_connect_def conns_def set_conns_def sm_index_def getAddr_def setupConn_def
        TcpCliConnSetUp_setupConn_def connectWithTcp_def)
  have "mod_conn_send (h_ntoa h) (h_connect h ?t) Service MODULE_NAME_PERIOD_REQ_TB_IDX
      MODULE_CONN_URI_PERIOD_REQ_TB_IDX_ADD (AddrPtr ?t) (nd_trig ?nd) =
      Inr ((nd_trig ?nd)\<lparr>tr_tcp := ?m, tr_fw := fw'\<rparr>)"
    using add tr wired_tel(3) by (simp add: mod_conn_send_def SyncReqTbIdxTrigger_recv_def data_addr_def)
  then have "handleHelloAck h ?pkt i ?nd = Inr (?nd\<lparr>nd_trig := (nd_trig ?nd)\<lparr>tr_tcp := ?m, tr_fw := fw'\<rparr>\<rparr>)"
    using q(1) peer by (simp add: handleHelloAck_def Let_def tcp_target_def)
  then have "udp_input h i src (Some (wire_bytes (ack_packet p))) nd =
      Inr (?nd\<lparr>nd_trig := (nd_trig ?nd)\<lparr>tr_tcp := ?m, tr_fw := fw'\<rparr>\<rparr>)"
    using rest rcv q(2) by (simp add: recv_udp_def LAN_SYNC_TYPE_HELLO_def LAN_SYNC_TYPE_HELLO_ACK_def)
  moreover have "ctx_sent fw' = ctx_sent (nd_fw nd)"
    "ctx_heap fw' = (ctx_heap (nd_fw ?nd))(ctx_fresh (nd_fw nd) \<mapsto> \<lparr>ctx_peer = ?t, ctx_active = True, ctx_udp = False\<rparr>)"
    "elems (tcp_ctx fw') = elems (tcp_ctx (nd_fw nd)) @ [ctx_fresh (nd_fw nd)]"
    by (simp_all add: fw'_def ctx_new_def Let_def heard_from_def set_fw_same)
  moreover have "nd_fw (n\<lparr>nd_trig := ts\<rparr>) = tr_fw ts" for n ts by (simp add: nd_fw_def)
  moreover have "same_disk nd (?nd\<lparr>nd_trig := ts\<rparr>)" for ts by (simp add: same_disk_def heard_from_def set_fw_def)
  ultimately show ?thesis using tr(2,4) by simp
qed

section \<open>Properties\<close>

text \<open>
  C9: two nodes find each other. A HELLO that reaches a node with a TCP port is answered, to the
  address it came from, by a packet that names the port; the sender connects to that port of the
  node the answer came from; and the next round of its table trigger, if its other connections
  work, sends the request for the table over the new connection too.
\<close>

theorem peers_find_each_other:
  assumes "udp_from hs i src client server" and "listens_on p server"
    and "udp_from hc j src' srv requester" and "can_connect hc (tcp_target p srv) requester"
    and "tr_mods (nd_trig requester) = wired_mods" and "sm_sorted str_less (tr_tcp (nd_trig requester))"
    and "\<forall>e \<in> set (tr_tcp (nd_trig requester)). \<exists>k. snd e = Some k \<and> ctx_ready (nd_fw requester) k"
  shows "\<exists>server' requester' ts.
    udp_input hs i src (Some (wire_bytes (tick_pkt True))) server = Inr server' \<and>
    ctx_sent (nd_fw server') = ctx_sent (nd_fw server) @ [(client, wire_bytes (ack_packet p))] \<and>
    udp_input hc j src' (Some (wire_bytes (ack_packet p))) requester = Inr requester' \<and>
    trigger False (exec_of False (h_ntoa hc)) (nd_trig requester') = Some (Inr ts) \<and>
    (tcp_target p srv, wire_bytes (tick_pkt False)) \<in> set (drop (length (ctx_sent (nd_fw requester))) (ctx_sent (tr_fw ts)))"
proof -
  obtain server' where server: "udp_input hs i src (Some (wire_bytes (tick_pkt True))) server = Inr server'"
    "ctx_sent (nd_fw server') = ctx_sent (nd_fw server) @ [(client, wire_bytes (ack_packet p))]"
    using hello_answered [OF assms(1,2)] by (auto simp: hello_is_tick)
  let ?k = "ctx_fresh (nd_fw requester)" and ?t = "tcp_target p srv"
  obtain nd where nd: "udp_input hc j src' (Some (wire_bytes (ack_packet p))) requester = Inr nd"
    and tcp: "tr_tcp (nd_trig nd) = str_put (addr_str (h_ntoa hc) ?t) (Some ?k) (tr_tcp (nd_trig requester))"
    and mods: "tr_mods (nd_trig nd) = wired_mods" and sent: "ctx_sent (nd_fw nd) = ctx_sent (nd_fw requester)"
    and heap: "ctx_heap (nd_fw nd) = (ctx_heap (nd_fw (heard_from j srv requester)))
      (?k \<mapsto> \<lparr>ctx_peer = ?t, ctx_active = True, ctx_udp = False\<rparr>)"
    using ack_connects [OF assms(3-6)] by blast
  have keep: "ctx_ready (nd_fw nd) k" if "ctx_ready (nd_fw requester) k" for k
    using that by (auto simp: ctx_ready_def heap heard_from_def set_fw_same split: option.splits)
  have new: "ctx_ready (nd_fw nd) ?k" by (simp add: ctx_ready_def heap)
  have "snd ` set (tr_tcp (nd_trig nd)) \<subseteq> insert (Some ?k) (snd ` set (tr_tcp (nd_trig requester)))"
    unfolding tcp by (rule values_sm_put)
  then have "\<forall>e \<in> set (tr_tcp (nd_trig nd)). snd e = Some ?k \<or> snd e \<in> snd ` set (tr_tcp (nd_trig requester))"
    by blast
  then have "\<forall>e \<in> set (tr_tcp (nd_trig nd)). \<exists>k. snd e = Some k \<and> ctx_ready (nd_fw nd) k"
    using assms(7) keep new by fastforce
  moreover have sorted: "sm_sorted str_less (conns False (nd_trig nd))" using assms(6) by (simp add: conns_def tcp)
  ultimately have tick: "trigger False (exec_of False (h_ntoa hc)) (nd_trig nd) =
      Some (Inr (add_sent (tick_log False (nd_fw nd) (tr_tcp (nd_trig nd))) (nd_trig nd)))"
    using trigger_outcome [OF sorted mods, of "h_ntoa hc"] by (simp add: conns_def nd_fw_def)
  have "(addr_str (h_ntoa hc) ?t, Some ?k) \<in> set (tr_tcp (nd_trig nd))"
    unfolding tcp by (rule str_map.find_Some_in) simp
  then have "(?t, wire_bytes (tick_pkt False)) \<in> set (tick_log False (nd_fw nd) (tr_tcp (nd_trig nd)))"
    by (force simp: tick_log_def heap)
  moreover have "ctx_sent (tr_fw (add_sent out (nd_trig nd))) = ctx_sent (nd_fw requester) @ out" for out
    using sent by (simp add: add_sent_def nd_fw_def)
  ultimately show ?thesis using server nd tick by auto
qed

definition sample_addr :: "u32 \<Rightarrow> u16 \<Rightarrow> net_addr" where
  "sample_addr ip port = \<lparr>le_addr = \<lparr>sin_family = AF_INET, sin_port = port, s_addr = ip\<rparr>\<rparr>"

definition sample_udp_node :: node where
  "sample_udp_node = sample_node\<lparr>nd_trig := \<lparr>tr_fw = snd (ctx_new True NetAddr_default net_fw_init),
       tr_udp = [], tr_tcp = [], tr_mods = wired_mods\<rparr>,
     nd_config := \<lparr>config_at = ''c'', config_p = [(CONFIG_KEY_PROTO_SYNC_SERVER_TCP_PORT, dec_str (unat (8080 :: u16)))]\<rparr>\<rparr>"

lemma sample_udp_fw:
  "nd_fw sample_udp_node = snd (ctx_new True NetAddr_default net_fw_init)" "tr_tcp (nd_trig sample_udp_node) = []"
  "tr_mods (nd_trig sample_udp_node) = wired_mods" "ctx_sent (nd_fw sample_udp_node) = []"
  by (simp_all add: sample_udp_node_def nd_fw_def ctx_new_def net_fw_init_def Let_def)

lemma sample_heard: "udp_from sample_host 0 (getBeAddr (sample_addr ip port)) (sample_addr ip port) sample_udp_node"
  using quad.fromBe_getBeAddr [of "sample_addr ip port"] sample_udp_fw(1)
  by (auto simp: udp_from_def sample_host_def sample_addr_def ctx_new_def net_fw_init_def Let_def)

theorem peers_find_each_other_witness:
  "\<exists>server' requester' ts.
    udp_input sample_host 0 (getBeAddr (sample_addr 1 9)) (Some (wire_bytes (tick_pkt True))) sample_udp_node = Inr server' \<and>
    udp_input sample_host 0 (getBeAddr (sample_addr 2 9)) (Some (wire_bytes (ack_packet 8080))) sample_udp_node = Inr requester' \<and>
    trigger False (exec_of False quad_ntoa) (nd_trig requester') = Some (Inr ts) \<and>
    (sample_addr 2 8080, wire_bytes (tick_pkt False)) \<in> set (ctx_sent (tr_fw ts))"
proof -
  have p: "listens_on 8080 sample_udp_node"
    by (simp add: listens_on_def sample_udp_node_def config_query_def prop_query_def sm_index_def str_map.irrefl)
  have t: "tcp_target 8080 (sample_addr 2 9) = sample_addr 2 8080"
    by (simp add: tcp_target_def setPort_def sample_addr_def)
  have c: "can_connect sample_host (tcp_target 8080 (sample_addr 2 9)) sample_udp_node"
    using sample_udp_fw(2) by (simp add: t can_connect_def sample_host_def) (simp add: sample_addr_def)
  have n: "h_ntoa sample_host = quad_ntoa" by (simp add: sample_host_def)
  from peers_find_each_other [OF sample_heard p sample_heard c sample_udp_fw(3), of 1 9]
  show ?thesis using sample_udp_fw unfolding t n by fastforce
qed

text \<open>
  C28: an answer takes a contact away. The callback writes the sender of every datagram into the
  context it arrived on, the contact of the discovery trigger too; so after the answer of one node to
  a \<open>HELLO\<close> the trigger greets that node on every round, and no longer the (broadcast) address the
  contact was made for.
\<close>

theorem answer_redirects_discovery:
  assumes "udp_from h i src a nd" and "can_connect h (tcp_target p a) nd" and "tr_mods (nd_trig nd) = wired_mods"
    and "sm_sorted str_less (tr_tcp (nd_trig nd))" and "sm_sorted str_less (tr_udp (nd_trig nd))"
    and "\<forall>e \<in> set (tr_udp (nd_trig nd)). \<exists>j c. snd e = Some j \<and> ctx_heap (nd_fw nd) j = Some c \<and> ctx_udp c"
    and "ctx_heap (nd_fw nd) (ctx_fresh (nd_fw nd)) = None"
  shows "\<exists>nd'. udp_input h i src (Some (wire_bytes (ack_packet p))) nd = Inr nd' \<and>
    trigger True (exec_of True (h_ntoa h)) (nd_trig nd') =
      Some (Inr ((nd_trig nd')\<lparr>tr_fw := (nd_fw nd')\<lparr>ctx_sent := ctx_sent (nd_fw nd) @
        map (\<lambda>(k, con). (if con = Some i then a else ctx_peer (the (ctx_heap (nd_fw nd) (the con))),
                        wire_bytes (tick_pkt True))) (tr_udp (nd_trig nd))\<rparr>\<rparr>))"
proof -
  obtain nd' where nd': "udp_input h i src (Some (wire_bytes (ack_packet p))) nd = Inr nd'"
    and parts: "tr_udp (nd_trig nd') = tr_udp (nd_trig nd)" "tr_mods (nd_trig nd') = wired_mods"
      "ctx_sent (nd_fw nd') = ctx_sent (nd_fw nd)"
    and new: "ctx_heap (nd_fw nd') = (ctx_heap (nd_fw (heard_from i a nd)))
      (ctx_fresh (nd_fw nd) \<mapsto> \<lparr>ctx_peer = tcp_target p a, ctx_active = True, ctx_udp = False\<rparr>)"
    using ack_connects [OF assms(1-4)] by blast
  have heap: "ctx_heap (nd_fw nd') j = Some (if j = i then c\<lparr>ctx_peer := a\<rparr> else c)"
    if "ctx_heap (nd_fw nd) j = Some c" for j c
    using that assms(7) by (auto simp: new heard_from_def set_fw_same)
  have ready: "\<forall>e \<in> set (tr_udp (nd_trig nd')). \<exists>j. snd e = Some j \<and> ctx_ready (tr_fw (nd_trig nd')) j"
  proof
    fix e assume "e \<in> set (tr_udp (nd_trig nd'))"
    then obtain j c where "snd e = Some j" and "ctx_heap (nd_fw nd) j = Some c" and "ctx_udp c"
      using assms(6) parts(1) by auto
    with heap [of j c] show "\<exists>j. snd e = Some j \<and> ctx_ready (tr_fw (nd_trig nd')) j"
      by (simp add: ctx_ready_def nd_fw_def)
  qed
  have "tick_log True (tr_fw (nd_trig nd')) es = map (\<lambda>(k, con). (if con = Some i then a
      else ctx_peer (the (ctx_heap (nd_fw nd) (the con))), wire_bytes (tick_pkt True))) es"
    if "set es \<subseteq> set (tr_udp (nd_trig nd))" for es
    using that
  proof (induction es)
    case (Cons e es)
    then obtain j c where "snd e = Some j" and "ctx_heap (nd_fw nd) j = Some c"
      using assms(6) by fastforce
    with Cons heap [of j c] show ?case by (cases e) (simp add: tick_log_def nd_fw_def)
  qed (simp add: tick_log_def)
  then have log: "tick_log True (tr_fw (nd_trig nd')) (tr_udp (nd_trig nd')) = map (\<lambda>(k, con). (if con = Some i then a
      else ctx_peer (the (ctx_heap (nd_fw nd) (the con))), wire_bytes (tick_pkt True))) (tr_udp (nd_trig nd))"
    using parts(1) by simp
  have "conns True (nd_trig nd') = tr_udp (nd_trig nd')" by (simp add: conns_def)
  then have "trigger True (exec_of True (h_ntoa h)) (nd_trig nd') =
      Some (Inr (add_sent (tick_log True (tr_fw (nd_trig nd')) (tr_udp (nd_trig nd'))) (nd_trig nd')))"
    using trigger_outcome [of True "nd_trig nd'" "h_ntoa h"] ready parts assms(5) by simp
  with nd' parts(3) show ?thesis unfolding log by (simp add: add_sent_def nd_fw_def)
qed

text \<open>A node with one contact, made for the address \<open>255\<close> at port 90.\<close>

definition sample_contact :: node where
  "sample_contact = sample_udp_node\<lparr>nd_trig := \<lparr>tr_fw = snd (ctx_new True (sample_addr 255 90) net_fw_init),
     tr_udp = [(''c'', Some 0)], tr_tcp = [], tr_mods = wired_mods\<rparr>\<rparr>"

theorem answer_redirects_discovery_witness:
  "\<exists>nd' ts. udp_input sample_host 0 (getBeAddr (sample_addr 2 9)) (Some (wire_bytes (ack_packet 8080))) sample_contact = Inr nd' \<and>
     trigger True (exec_of True quad_ntoa) (nd_trig nd') = Some (Inr ts) \<and>
     ctx_sent (tr_fw ts) = [(sample_addr 2 9, wire_bytes (tick_pkt True))]"
proof -
  have fw: "nd_fw sample_contact = snd (ctx_new True (sample_addr 255 90) net_fw_init)"
    "tr_mods (nd_trig sample_contact) = wired_mods" "tr_tcp (nd_trig sample_contact) = []"
    "tr_udp (nd_trig sample_contact) = [(''c'', Some 0)]" "h_ntoa sample_host = quad_ntoa"
    by (simp_all add: sample_contact_def nd_fw_def sample_host_def)
  have u: "udp_from sample_host 0 (getBeAddr (sample_addr 2 9)) (sample_addr 2 9) sample_contact"
    using quad.fromBe_getBeAddr [of "sample_addr 2 9"] fw(1)
    by (auto simp: udp_from_def sample_host_def sample_addr_def ctx_new_def net_fw_init_def Let_def)
  have c: "can_connect sample_host (tcp_target 8080 (sample_addr 2 9)) sample_contact"
    using fw(3) by (simp add: can_connect_def sample_host_def tcp_target_def setPort_def sample_addr_def)
  have s: "sm_sorted str_less (tr_tcp (nd_trig sample_contact))" "sm_sorted str_less (tr_udp (nd_trig sample_contact))"
    by (simp_all add: fw)
  have h: "\<forall>e \<in> set (tr_udp (nd_trig sample_contact)). \<exists>j c. snd e = Some j \<and>
      ctx_heap (nd_fw sample_contact) j = Some c \<and> ctx_udp c"
    and n: "ctx_heap (nd_fw sample_contact) (ctx_fresh (nd_fw sample_contact)) = None"
    and q: "ctx_sent (nd_fw sample_contact) = []"
    by (simp_all add: fw(1,4) ctx_new_def net_fw_init_def Let_def)
  show ?thesis
    using answer_redirects_discovery [OF u c fw(2) s h n] by (fastforce simp: fw(4,5) q)
qed

end
