(* ===== verification/Daemon_Run.thy ===== *)
theory Daemon_Run
  imports Startup Peer_Discovery
begin

text \<open>
  What holds while the program runs: the round of the discovery trigger after the start, the
  invariant of every reachable state, and what a step of the worker requests.
\<close>

section \<open>A start\<close>

definition sample_file :: string where
  "sample_file = ''proto.udp.server.port=90'' @ CHR 0x0A # ''proto.tcp.server.port=91'' @ CHR 0x0A #
     ''resource.home=/h'' @ CHR 0x0A # ''ip.discovery=10.0.0.1'' @ CHR 0x0A # ''log.level=info'' @ [CHR 0x0A]"

definition sample_env :: start_env where
  "sample_env = \<lparr>st_host = sample_host, st_parse = (\<lambda>d. Inr (False, d)), st_file = (\<lambda>_. Some sample_file),
     st_threads = 0, st_stack = [], st_ifs = [], st_udp_socket = True, st_tcp_socket = True,
     st_fs = (\<lambda>_. None), st_dirs = {''/h''}\<rparr>"

definition sample_settings :: "(string, string) smap" where
  "sample_settings = [(''ip.discovery'', ''10.0.0.1''), (''log.level'', ''info''), (''proto.tcp.server.port'', ''91''),
     (''proto.udp.server.port'', ''90''), (''resource.home'', ''/h'')]"

lemma sample_lines:
  "splitstr sample_file CHR 0x0A = [''proto.udp.server.port=90'', ''proto.tcp.server.port=91'', ''resource.home=/h'',
     ''ip.discovery=10.0.0.1'', ''log.level=info'']"
  by code_simp

lemma sample_parsed: "PropertiesParse_new (Some sample_file) = sample_settings"
  by (simp add: PropertiesParse_new_def sample_lines sample_settings_def LINE_LENGTH_def prop_line_def find_char_def
      trim_def str_less_def)

definition sample_config :: config_manager where
  "sample_config = \<lparr>config_at = ''//properties.properties'', config_p = sample_settings\<rparr>"

lemma sample_queries:
  "config_query ''ip.discovery'' sample_config = Inr (''10.0.0.1'', sample_config)"
  "config_query ''log.level'' sample_config = Inr (''info'', sample_config)"
  "config_query ''proto.tcp.server.port'' sample_config = Inr (''91'', sample_config)"
  "config_query ''proto.udp.server.port'' sample_config = Inr (''90'', sample_config)"
  "config_query ''resource.home'' sample_config = Inr (''/h'', sample_config)"
  by (simp_all add: config_query_def prop_query_def sm_index_def sample_config_def sample_settings_def str_less_def)

text \<open>The same machine with files.\<close>

definition sample_env_at :: "file_system \<Rightarrow> start_env" where
  "sample_env_at fs = sample_env\<lparr>st_fs := fs\<rparr>"

lemma sample_env_empty: "sample_env_at (\<lambda>_. None) = sample_env"
  by (simp add: sample_env_at_def sample_env_def)

lemma sample_load: "load_config (sample_env_at fs) (static_node (sample_env_at fs)) =
    Inr (ResourceManager_init ''/h'' ((static_node (sample_env_at fs))\<lparr>nd_config := sample_config\<rparr>))"
proof -
  have "config_reload ''//properties.properties'' (Some sample_file) (nd_config (static_node (sample_env_at fs))) =
      sample_config"
    by (simp add: config_reload_def sample_parsed sample_config_def static_node_def)
  moreover have "default_config_file (h_cwd sample_host) = ''//properties.properties''"
    by (simp add: default_config_file_def sample_host_def CONFIG_DEFAULT_NAME_def is_space_def)
  ultimately show ?thesis
    by (simp add: load_config_def sample_env_def sample_env_at_def CONFIG_KEY_RESOURCE_HOME_def sample_queries)
qed

lemma sample_quad: "quad_aton ''10.0.0.1'' = Some 16777226"
  by code_simp

lemma sample_numbers: "atoi ''90'' = Inr 90" "find_char CHR '':'' ''10.0.0.1'' = None" "atoi ''91'' = Inr 91"
  by (simp_all add: atoi_def is_space_def is_digit_def dec_val_def find_char_def)

definition sample_ip_no :: u32 where
  "sample_ip_no = ntohl 16777226"

lemma sample_ip_no: "sample_ip_no \<noteq> 0"
proof -
  have "(4 :: nat) = Suc (Suc (Suc (Suc 0)))" by simp
  then have "le_bytes 4 (0 :: u32) = replicate (Suc (Suc (Suc (Suc 0)))) (char_of (0 :: nat))" by (simp only: le_bytes.simps) simp
  then have "htonl 0 = 0" by (simp add: htonl_def)
  then show ?thesis using htonl_inject [of 16777226 0] by (simp add: sample_ip_no_def del: htonl_inject)
qed

lemma sample_target: "NetAddr_of quad_aton ''10.0.0.1'' = Inr (sample_addr sample_ip_no 0)"
  by (simp add: NetAddr_of_def sample_numbers sample_quad sample_addr_def sample_ip_no_def)

lemma sample_ip:
  assumes "nd_config nd = sample_config" and "tr_udp (nd_trig nd) = []" and "ctx_fresh (nd_fw nd) = 0"
  shows "\<exists>nd'. add_ip sample_host ''10.0.0.1'' nd = Inr nd' \<and> nd_config nd' = sample_config"
proof -
  have "discover_port nd = Inr (90, nd)"
    using assms(1) by (simp add: discover_port_def node_query_def CONFIG_KEY_PROTO_DISCOVER_SERVER_UDP_PORT_def
        sample_queries sample_numbers)
  moreover have "setPort 90 (sample_addr sample_ip_no 0) = sample_addr sample_ip_no 90"
    by (simp add: setPort_def sample_addr_def)
  moreover have "getAddr (sample_addr sample_ip_no 90) = le_addr (sample_addr sample_ip_no 90)"
    by (simp add: getAddr_def)
  ultimately show ?thesis using assms
    by (auto simp: add_ip_def sample_host_def sample_target discover_add_def addConn_def conns_def set_conns_def
        sm_index_def setupConn_def UdpCliConnSetUp_setupConn_def connectWithUdp_def ctx_new_def Let_def getPort_def
        sample_addr_def getAddr_def)
qed

lemma sample_listen: "\<exists>a. NetAddr_of (h_aton sample_host) (sb_str (sb_add v (sb_add '':'' []))) = Inr a" if "v = ''90'' \<or> v = ''91''"
  using that by (auto simp: NetAddr_of_def sb_str_def sb_add_def is_space_def find_char_def sample_numbers)

lemma sample_started_at: "\<exists>ms. main_start (sample_env_at fs) = Inr (Started ms)"
proof -
  define nd where "nd = ResourceManager_init ''/h'' ((static_node (sample_env_at fs))\<lparr>nd_config := sample_config\<rparr>)"
  have nd: "nd_config nd = sample_config" "tr_udp (nd_trig nd) = []" "ctx_fresh (nd_fw nd) = 0"
    by (simp_all add: nd_def ResourceManager_init_def static_node_def nd_fw_def net_fw_init_def)
  have level: "node_query CONFIG_KEY_LOG_LEVEL nd = Inr (''info'', nd)"
    by (simp add: node_query_def CONFIG_KEY_LOG_LEVEL_def nd(1) sample_queries)
  define nd1 where "nd1 = add_module DiscoverLogic nd"
  have keep: "nd_config (add_module m n) = nd_config n" "tr_udp (nd_trig (add_module m n)) = tr_udp (nd_trig n)"
    "nd_fw (add_module m n) = nd_fw n" for m n
    by (simp_all add: add_module_def nd_fw_def)
  obtain nd2 where ip: "add_ip sample_host ''10.0.0.1'' nd1 = Inr nd2" and c2: "nd_config nd2 = sample_config"
    using sample_ip [of nd1] nd keep by (auto simp: nd1_def)
  have list: "config_queryList CONFIG_KEY_DISCOVER_IPS sample_config = Inr ([''10.0.0.1''], sample_config)"
    by (simp add: config_queryList_def CONFIG_KEY_DISCOVER_IPS_def sample_queries find_char_def)
  have "nd_config nd1 = sample_config" by (simp add: nd1_def keep nd)
  then have same: "nd1\<lparr>nd_config := sample_config\<rparr> = nd1" by (cases nd1) simp
  have q: "config_queryList CONFIG_KEY_DISCOVER_IPS (nd_config nd1) = Inr ([''10.0.0.1''], sample_config)"
    using list by (simp add: nd1_def keep nd)
  obtain t1 where t1: "schedule discover_tr (TriggerWithEvent_new (Trigger_second 2) True) (timer_started (\<lambda>_. None)) = Inr t1"
    and b1: "tm_base t1" "tm_triggers t1 = [(discover_tr, Some discover_tr)]"
    by (simp add: schedule_def addTr_def timer_started_def TimerWithEvent_init_def sm_index_def tr_at_def ptr_less_def)
  obtain t2 where t2: "schedule sync_req_tr (TriggerWithEvent_new (Trigger_second 10) True) t1 = Inr t2"
    using b1 by (auto simp: schedule_def addTr_def sm_index_def tr_at_def discover_tr_def sync_req_tr_def ptr_less_def)
  have "\<exists>nd3. main_modules sample_host nd (timer_started (\<lambda>_. None)) [] = Inr (nd3, t2) \<and> nd_config nd3 = sample_config"
    using ip c2 t1 t2 q keep same
    by (simp add: main_modules_def DiscoveryTrigger_new_def SyncReqTbIdxTrigger_new_def nd1_def [symmetric])
  then obtain nd3 where m: "main_modules sample_host nd (timer_started (\<lambda>_. None)) [] = Inr (nd3, t2)"
    and c3: "nd_config nd3 = sample_config" by blast
  have "\<exists>a nd'. listen_addr sample_host key n = Inr (a, nd') \<and> nd_config nd' = sample_config"
    if "key = CONFIG_KEY_PROTO_DISCOVER_SERVER_UDP_PORT \<or> key = CONFIG_KEY_PROTO_SYNC_SERVER_TCP_PORT"
      and "nd_config n = sample_config" for key n
    using that sample_listen [of "''90''"] sample_listen [of "''91''"] by (auto simp: listen_addr_def node_query_def CONFIG_KEY_PROTO_DISCOVER_SERVER_UDP_PORT_def
        CONFIG_KEY_PROTO_SYNC_SERVER_TCP_PORT_def sample_queries)
  then obtain ua nd4 ta nd5 where "listen_addr sample_host CONFIG_KEY_PROTO_DISCOVER_SERVER_UDP_PORT nd3 = Inr (ua, nd4)"
    and "listen_addr sample_host CONFIG_KEY_PROTO_SYNC_SERVER_TCP_PORT nd4 = Inr (ta, nd5)"
    using c3 by metis
  moreover have "LocalPort_query [] [] = Inr []" by (simp add: LocalPort_query_def)
  moreover have "st_host (sample_env_at fs) = sample_host" "st_threads (sample_env_at fs) = 0"
    "st_stack (sample_env_at fs) = []" "st_ifs (sample_env_at fs) = []"
    by (simp_all add: sample_env_at_def sample_env_def)
  ultimately show ?thesis using level m sample_load by (simp add: main_start_def Let_def nd_def [symmetric])
qed

lemma sample_started: "\<exists>ms. main_start sample_env = Inr (Started ms)"
  using sample_started_at [of "\<lambda>_. None"] by (simp add: sample_env_empty)

lemma sample_targets: "discovery_targets sample_env = Inr [sample_addr sample_ip_no 90]"
proof -
  have c: "nd_config (ResourceManager_init ''/h'' (nd\<lparr>nd_config := sample_config\<rparr>)) = sample_config" for nd
    by (simp add: ResourceManager_init_def)
  have s: "setting ''ip.discovery'' sample_config = ''10.0.0.1''" "setting ''proto.udp.server.port'' sample_config = ''90''"
    by (simp_all add: setting_def prop_query_def sm_index_def sample_config_def sample_settings_def str_less_def)
  have "target_of_ip sample_host sample_config ''10.0.0.1'' = Inr (sample_addr sample_ip_no 90)"
    by (simp add: target_of_ip_def sample_host_def sample_target default_port_def s sample_numbers setPort_def getPort_def
        CONFIG_KEY_PROTO_DISCOVER_SERVER_UDP_PORT_def) (simp add: sample_addr_def)
  moreover have "listed_ips sample_config = [''10.0.0.1'']"
    by (simp add: listed_ips_def CONFIG_KEY_DISCOVER_IPS_def s find_char_def)
  moreover have "LocalPort_query [] [] = Inr []" by (simp add: LocalPort_query_def)
  moreover have "st_host sample_env = sample_host" "st_stack sample_env = []" "st_ifs sample_env = []"
    by (simp_all add: sample_env_def)
  ultimately show ?thesis by (simp add: discovery_targets_def sample_load [of "\<lambda>_. None", unfolded sample_env_empty] c rmap_def)
qed

section \<open>The first round\<close>

lemma contacts_round:
  assumes "contacts ntoa as ts" and "\<forall>a \<in> set as. s_addr (le_addr a) \<noteq> 0"
  shows "\<forall>e \<in> set (tr_udp ts). \<exists>i a. snd e = Some i \<and> a \<in> set as \<and> fst e = addr_str ntoa a \<and>
      ctx_heap (tr_fw ts) i = Some \<lparr>ctx_peer = a, ctx_active = True, ctx_udp = True\<rparr>"
    and "\<forall>a \<in> set as. \<exists>i. (addr_str ntoa a, Some i) \<in> set (tr_udp ts) \<and>
      ctx_heap (tr_fw ts) i = Some \<lparr>ctx_peer = a, ctx_active = True, ctx_udp = True\<rparr>"
proof -
  have sorted: "sm_sorted str_less (tr_udp ts)" using assms(1) by (simp add: contacts_def)
  show "\<forall>e \<in> set (tr_udp ts). \<exists>i a. snd e = Some i \<and> a \<in> set as \<and> fst e = addr_str ntoa a \<and>
      ctx_heap (tr_fw ts) i = Some \<lparr>ctx_peer = a, ctx_active = True, ctx_udp = True\<rparr>"
  proof
    fix e assume "e \<in> set (tr_udp ts)"
    then have f: "str_find (fst e) (tr_udp ts) = Some (snd e)"
      using str_map.find_map_of [OF sorted] str_map.sorted_distinct_keys [OF sorted]
      by (simp add: map_of_is_SomeI)
    then have "str_find (fst e) (tr_udp ts) \<noteq> None" by simp
    then have "fst e \<in> addr_str ntoa ` set as" using assms(1) unfolding contacts_def by blast
    then obtain a where "a \<in> set as" and "fst e = addr_str ntoa a" by blast
    with assms f show "\<exists>i a. snd e = Some i \<and> a \<in> set as \<and> fst e = addr_str ntoa a \<and>
        ctx_heap (tr_fw ts) i = Some \<lparr>ctx_peer = a, ctx_active = True, ctx_udp = True\<rparr>"
      by (force simp: contacts_def)
  qed
  show "\<forall>a \<in> set as. \<exists>i. (addr_str ntoa a, Some i) \<in> set (tr_udp ts) \<and>
      ctx_heap (tr_fw ts) i = Some \<lparr>ctx_peer = a, ctx_active = True, ctx_udp = True\<rparr>"
    using assms str_map.find_Some_in by (fastforce simp: contacts_def)
qed

lemma contacts_null:
  assumes "contacts ntoa as ts" and "a \<in> set as" and "s_addr (le_addr a) = 0"
  shows "(addr_str ntoa a, None) \<in> set (tr_udp ts)"
  using assms str_map.find_Some_in by (fastforce simp: contacts_def)

lemma distinct_map_key:
  assumes "distinct (map k xs)" and "\<forall>x \<in> set xs. k x = g (f x)"
  shows "distinct (map f xs)"
proof -
  have "map k xs = map g (map f xs)" using assms(2) by simp
  with assms(1) show ?thesis by (metis distinct_map)
qed

lemma contacts_tick:
  assumes "contacts ntoa as ts" and "\<forall>a \<in> set as. s_addr (le_addr a) \<noteq> 0"
  shows "distinct (tick_log True (tr_fw ts) (tr_udp ts))"
    and "set (tick_log True (tr_fw ts) (tr_udp ts)) = (\<lambda>a. (a, wire_bytes (tick_pkt True))) ` set as"
proof -
  let ?out = "\<lambda>e. (ctx_peer (the (ctx_heap (tr_fw ts) (the (snd e)))), wire_bytes (tick_pkt True))"
  note r = contacts_round [OF assms]
  have log: "tick_log True (tr_fw ts) es = map ?out es" if "set es \<subseteq> set (tr_udp ts)" for es
    using that r(1) by (induction es) (fastforce simp: tick_log_def)+
  have "distinct (map fst (tr_udp ts))"
    using assms(1) str_map.sorted_distinct_keys unfolding contacts_def by blast
  moreover have "\<forall>e \<in> set (tr_udp ts). fst e = addr_str ntoa (fst (?out e))" using r(1) by fastforce
  ultimately show "distinct (tick_log True (tr_fw ts) (tr_udp ts))"
    unfolding log [OF subset_refl] by (rule distinct_map_key [where g = "\<lambda>o'. addr_str ntoa (fst o')"])
  show "set (tick_log True (tr_fw ts) (tr_udp ts)) = (\<lambda>a. (a, wire_bytes (tick_pkt True))) ` set as"
    unfolding log [OF subset_refl] set_map
  proof (intro equalityI subsetI)
    fix x assume "x \<in> ?out ` set (tr_udp ts)"
    then obtain e where "e \<in> set (tr_udp ts)" and x: "x = ?out e" by blast
    with r(1) obtain i a where "snd e = Some i" and "a \<in> set as"
      and "ctx_heap (tr_fw ts) i = Some \<lparr>ctx_peer = a, ctx_active = True, ctx_udp = True\<rparr>" by blast
    with x show "x \<in> (\<lambda>a. (a, wire_bytes (tick_pkt True))) ` set as" by simp
  next
    fix x assume "x \<in> (\<lambda>a. (a, wire_bytes (tick_pkt True))) ` set as"
    then obtain a where "a \<in> set as" and x: "x = (a, wire_bytes (tick_pkt True))" by blast
    with r(2) obtain i where e: "(addr_str ntoa a, Some i) \<in> set (tr_udp ts)"
      and "ctx_heap (tr_fw ts) i = Some \<lparr>ctx_peer = a, ctx_active = True, ctx_udp = True\<rparr>" by blast
    with x have "x = ?out (addr_str ntoa a, Some i)" by simp
    then show "x \<in> ?out ` set (tr_udp ts)" using e by (rule image_eqI)
  qed
qed

text \<open>
  C12: whom the program greets. After a start that succeeds, the targets of the discovery trigger are
  the broadcast addresses of the interfaces and the addresses of \<open>ip.discovery\<close>, with the UDP port
  of the settings where none is given. The first round of the trigger sends one \<open>HELLO\<close> to each of
  them; if one of them has no IP address (a name instead of an address, an empty entry), the
  round ends the program.
\<close>

theorem discovery_round:
  assumes "main_start env = Inr (Started ms)" and "inet_text (h_aton (st_host env)) (h_ntoa (st_host env))"
  shows "\<exists>as. discovery_targets env = Inr as \<and>
    (if \<forall>a \<in> set as. s_addr (le_addr a) \<noteq> 0 then
       \<exists>out. timeout_cb (trigger_of (st_host env)) discover_tr (nd_trig (ms_node ms)) =
           Some (Inr ((nd_trig (ms_node ms))\<lparr>tr_fw := (nd_fw (ms_node ms))\<lparr>ctx_sent := ctx_sent (nd_fw (ms_node ms)) @ out\<rparr>\<rparr>)) \<and>
         distinct out \<and> set out = (\<lambda>a. (a, wire_bytes (tick_pkt True))) ` set as
     else \<exists>err. timeout_cb (trigger_of (st_host env)) discover_tr (nd_trig (ms_node ms)) = Some (Inl err))"
proof -
  let ?ts = "nd_trig (ms_node ms)" and ?ntoa = "h_ntoa (st_host env)"
  obtain as where t: "discovery_targets env = Inr as" and c: "contacts ?ntoa as ?ts" and mods: "tr_mods ?ts = wired_mods"
    using main_start_contacts(1) [OF assms] by blast
  have "conns True ?ts = tr_udp ?ts" by (simp add: conns_def)
  moreover have "sm_sorted str_less (conns True ?ts)" using c by (simp add: contacts_def conns_def)
  ultimately have o: "if \<forall>e \<in> set (tr_udp ?ts). \<exists>i. snd e = Some i \<and> ctx_ready (tr_fw ?ts) i
      then timeout_cb (trigger_of (st_host env)) discover_tr ?ts = Some (Inr (add_sent (tick_log True (tr_fw ?ts) (tr_udp ?ts)) ?ts))
      else \<exists>err. timeout_cb (trigger_of (st_host env)) discover_tr ?ts = Some (Inl err)"
    using trigger_outcome [of True ?ts ?ntoa] mods by (simp add: timeout_cb_def)
  show ?thesis
  proof (cases "\<forall>a \<in> set as. s_addr (le_addr a) \<noteq> 0")
    case True
    then have "\<forall>e \<in> set (tr_udp ?ts). \<exists>i. snd e = Some i \<and> ctx_ready (tr_fw ?ts) i"
      using contacts_round(1) [OF c] by (fastforce simp: ctx_ready_def)
    with o t True contacts_tick [OF c True] show ?thesis by (auto simp: add_sent_def nd_fw_def)
  next
    case False
    then have "\<not> (\<forall>e \<in> set (tr_udp ?ts). \<exists>i. snd e = Some i \<and> ctx_ready (tr_fw ?ts) i)"
      using contacts_null [OF c] by fastforce
    with o t False show ?thesis by auto
  qed
qed

theorem discovery_round_witness:
  "\<exists>ms ts. main_start sample_env = Inr (Started ms) \<and>
     timeout_cb (trigger_of sample_host) discover_tr (nd_trig (ms_node ms)) = Some (Inr ts) \<and>
     (sample_addr sample_ip_no 90, wire_bytes (tick_pkt True)) \<in> set (ctx_sent (tr_fw ts))"
proof -
  obtain ms where ms: "main_start sample_env = Inr (Started ms)" using sample_started by blast
  have host: "st_host sample_env = sample_host" "h_aton sample_host = quad_aton" "h_ntoa sample_host = quad_ntoa"
    by (simp_all add: sample_env_def sample_host_def)
  have t: "discovery_targets sample_env = Inr [sample_addr sample_ip_no 90]" by (rule sample_targets)
  have "s_addr (le_addr (sample_addr sample_ip_no 90)) \<noteq> 0" by (simp add: sample_addr_def sample_ip_no)
  then show ?thesis
    using discovery_round [OF ms, unfolded host t, OF quad.inet_text_axioms] ms by auto
qed

end
