(* ===== verification/Daemon_Safety.thy ===== *)
theory Daemon_Safety
  imports Daemon_Run
begin

text \<open>
  What holds in every state the running program can reach, which steps change the books of the
  synchronisation manager, and where the requests of the worker go.
\<close>

section \<open>Sessions\<close>

text \<open>
  The index \<open>getAllTcpSession\<close> makes is ordered by the IP alone: of several connections to one
  host it keeps the one opened last.
\<close>

definition session_to :: "net_addr \<Rightarrow> net_fw \<Rightarrow> nat option" where
  "session_to peer fw = List.find (\<lambda>i. case ctx_heap fw i of None \<Rightarrow> False
     | Some c \<Rightarrow> s_addr (le_addr (ctx_peer c)) = s_addr (le_addr peer)) (rev (elems (tcp_ctx fw)))"

lemma sessions_found:
  assumes "getAllTcpSession fw = Inr idx"
  shows "sm_find addr_less peer idx = session_to peer fw"
proof -
  let ?f = "\<lambda>i idx. rbind (ctx_getPeer i fw) (\<lambda>a. Inr (sm_put addr_less a i idx))"
  have "sm_find addr_less peer idx = List.find (\<lambda>i. case ctx_heap fw i of None \<Rightarrow> False
      | Some c \<Rightarrow> s_addr (le_addr (ctx_peer c)) = s_addr (le_addr peer)) (rev xs)"
    if "rfold ?f xs [] = Inr idx" for xs idx
    using that
  proof (induction xs arbitrary: idx rule: rev_induct)
    case (snoc i xs)
    then obtain idx1 c where "rfold ?f xs [] = Inr idx1" and "ctx_heap fw i = Some c"
      and "idx = sm_put addr_less (ctx_peer c) i idx1"
      by (auto simp: rfold_append rbind_Inr_iff ctx_getPeer_def ctx_at_def split: option.splits)
    with snoc.IH show ?case by (auto simp: addr_map_eqv)
  qed simp
  with assms show ?thesis by (simp add: getAllTcpSession_def session_to_def)
qed

lemma session_to_ctx:
  "session_to peer fw = Some i \<Longrightarrow>
   \<exists>c. ctx_heap fw i = Some c \<and> s_addr (le_addr (ctx_peer c)) = s_addr (le_addr peer) \<and> i \<in> set (elems (tcp_ctx fw))"
  by (auto simp: session_to_def find_Some_iff split: option.splits) (metis nth_mem set_rev length_rev)

section \<open>What the worker does\<close>

text \<open>A request is refused, and then nothing changes, or takes a free block.\<close>

lemma request_cases:
  assumes "mgr_exclusive m" and "regReqSyncRsAuto peer uri now m = (b, m')"
  shows "b = Block 0 0 \<and> mgr_status m' = mgr_status m \<or>
    mgr_status m uri b = Free \<and> mgr_status m' = (mgr_status m)(uri := (mgr_status m uri)(b := Fetching peer))"
proof -
  obtain rs where r: "rs_request peer now (uri_entry uri m) = (b, rs)" and m': "m' = set_entry uri rs m"
    using assms(2) by (auto simp: regReqSyncRsAuto_def split: prod.splits)
  have "length (rs_block rs) < length (rs_block (uri_entry uri m)) \<or> b = Block 0 0"
    using r by (auto simp: rs_request_def Let_def split: if_split_asm)
  with status_request [OF mgr_exclusive_entry [OF assms(1)] r] m' show ?thesis
    by (auto simp: mgr_status_set) (simp_all add: mgr_status_def)
qed

lemma sendRsReq_packet:
  assumes "sendRsReq uri ctx b nd = Inr nd'"
  shows "\<exists>i c hdr bs. ctx = Some i \<and> ctx_heap (nd_fw nd) i = Some c \<and>
    Range_to_string (Range_new (b_start b) (b_end b - b_start b)) = Inr hdr \<and>
    LanSyncPkt_write (addXheader XHEADER_RANGE hdr (addXheader XHEADER_URI uri
      (LanSyncPkt_new LAN_SYNC_VER_0_1 LAN_SYNC_TYPE_GET_RESOURCE))) = Inr bs \<and>
    nd_rsm nd' = nd_rsm nd \<and> ctx_sent (nd_fw nd') = ctx_sent (nd_fw nd) @ [(ctx_peer c, bs)]"
proof -
  obtain i bs' fw c where i: "ctx = Some i" and c: "ctx_heap (nd_fw nd) i = Some c" "ctx_udp c \<or> ctx_active c"
    using sendRsReq_sent [OF assms] by (auto simp: ctx_write_def ctx_at_def rbind_Inr_iff split: option.splits if_split_asm)
  from i assms obtain hdr bs
    where t: "Range_to_string (Range_new (b_start b) (b_end b - b_start b)) = Inr hdr"
    and w: "LanSyncPkt_write (addXheader XHEADER_RANGE hdr (addXheader XHEADER_URI uri
      (LanSyncPkt_new LAN_SYNC_VER_0_1 LAN_SYNC_TYPE_GET_RESOURCE))) = Inr bs"
    by (auto simp: sendRsReq_def rbind_Inr_iff)
  have "ctx_write i bs (nd_fw nd) = Inr (True, (nd_fw nd)\<lparr>ctx_sent := ctx_sent (nd_fw nd) @ [(ctx_peer c, bs)]\<rparr>)"
    using c by (auto simp: ctx_write_def ctx_at_def)
  with i t w c assms have "nd' = set_fw ((nd_fw nd)\<lparr>ctx_sent := ctx_sent (nd_fw nd) @ [(ctx_peer c, bs)]\<rparr>) nd"
    by (simp add: sendRsReq_def ctx_getPeer_def ctx_at_def)
  with i t w c show ?thesis by (simp add: set_fw_def nd_fw_def)
qed

text \<open>
  One run of the task: the manager's queries, and then at most one request. \<open>asked\<close> says what the
  request does to the books and what is sent.
\<close>

definition asked :: "string \<Rightarrow> node \<Rightarrow> node \<Rightarrow> bool" where
  "asked uri nd nd' \<longleftrightarrow>
     (\<exists>b peer. board_of nd uri b = Free \<and>
        board_of nd' = (board_of nd)(uri := (board_of nd uri)(b := Fetching peer)) \<and>
        (if b_end b = 0 then nd_fw nd' = nd_fw nd
         else \<exists>i c hdr bs. session_to peer (nd_fw nd) = Some i \<and> ctx_heap (nd_fw nd) i = Some c \<and>
           Range_to_string (Range_new (b_start b) (b_end b - b_start b)) = Inr hdr \<and>
           LanSyncPkt_write (addXheader XHEADER_RANGE hdr (addXheader XHEADER_URI uri
             (LanSyncPkt_new LAN_SYNC_VER_0_1 LAN_SYNC_TYPE_GET_RESOURCE))) = Inr bs \<and>
           ctx_sent (nd_fw nd') = ctx_sent (nd_fw nd) @ [(ctx_peer c, bs)]))"

lemma board_of_Manager [simp]:
  "board_of (nd\<lparr>nd_rsm := Manager m\<rparr>) = mgr_status m" "nd_fw (nd\<lparr>nd_rsm := r\<rparr>) = nd_fw nd"
  "nd_rsm nd = Manager m \<Longrightarrow> board_of nd = mgr_status m"
  by (simp_all add: board_of_def nd_fw_def)

lemma request_asked:
  assumes "mgr_exclusive m" and "nd_rsm nd = Manager m'" and "mgr_status m = mgr_status m'"
    and r: "regReqSyncRsAuto peer uri now m = (b, m4)"
    and t: "(if b_end b \<noteq> 0 then sendRsReq uri (session_to peer (nd_fw nd)) b (nd\<lparr>nd_rsm := Manager m4\<rparr>)
      else Inr (nd\<lparr>nd_rsm := Manager m4\<rparr>)) = Inr nd'"
  shows "board_of nd' = board_of nd \<and> nd_fw nd' = nd_fw nd \<or> asked uri nd nd'"
proof -
  note bm = board_of_Manager(3) [OF assms(2)]
  from request_cases [OF assms(1) r] show ?thesis
  proof
    assume "b = Block 0 0 \<and> mgr_status m4 = mgr_status m"
    with t assms(3) show ?thesis by (auto simp: bm)
  next
    assume free: "mgr_status m uri b = Free \<and> mgr_status m4 = (mgr_status m)(uri := (mgr_status m uri)(b := Fetching peer))"
    have "asked uri nd nd'"
    proof (cases "b_end b = 0")
      case True
      with free t assms(3) show ?thesis
        unfolding asked_def by (intro exI [of _ b] exI [of _ peer]) (auto simp: bm)
    next
      case False
      with t have "sendRsReq uri (session_to peer (nd_fw nd)) b (nd\<lparr>nd_rsm := Manager m4\<rparr>) = Inr nd'" by simp
      from sendRsReq_packet [OF this] free assms(3) False show ?thesis
        unfolding asked_def by (intro exI [of _ b] exI [of _ peer]) (auto simp: bm)
    qed
    then show ?thesis ..
  qed
qed

lemma task_run_cases:
  assumes "ReqRsTask_run h uri nd = Inr nd'" and "node_inv nd"
  shows "board_of nd' = board_of nd \<and> nd_fw nd' = nd_fw nd \<or> asked uri nd nd'"
proof -
  obtain idx m where idx: "getAllTcpSession (nd_fw nd) = Inr idx" and m: "nd_rsm nd = Manager m"
    using assms(1) by (auto simp: ReqRsTask_run_def rbind_Inr_iff dest: getRsSyncManager_Manager)
  define m3 where "m3 = set_entry uri (uri_entry uri m) (set_entry uri (uri_entry uri m)
    (set_entry uri (uri_entry uri m) (set_entry uri (uri_entry uri m) m)))"
  have m3: "mgr_status m3 = mgr_status m" by (simp add: m3_def mgr_status_set mgr_status_def fun_eq_iff)
  have e3: "mgr_exclusive m3" using assms(2) m by (simp add: m3_def node_inv_def mgr_exclusive_set mgr_exclusive_entry)
  from assms(1) idx m consider "nd' = nd\<lparr>nd_rsm := Manager m3\<rparr>"
    | peer where "(case regReqSyncRsAuto peer uri (h_time h) m3 of (b, m4) \<Rightarrow>
        (let nd' = nd\<lparr>nd_rsm := Manager m4\<rparr> in
         if b_end b \<noteq> 0 then sendRsReq uri (fst (sm_index addr_less None peer (map (map_prod id Some) idx))) b nd'
         else Inr nd')) = Inr nd'"
    by (auto simp: ReqRsTask_run_def getRsSyncManager_def getOwnerSize_def getBlockSize_def getSyncingSize_def
        Let_def m3_def [symmetric] rbind_Inr_iff split: if_split_asm)
  then show ?thesis
  proof cases
    case 1
    then show ?thesis using m3 m by simp
  next
    case (2 peer)
    obtain b m4 where r: "regReqSyncRsAuto peer uri (h_time h) m3 = (b, m4)" by (rule prod.exhaust)
    have "fst (sm_index addr_less None peer (map (map_prod id Some) idx)) = session_to peer (nd_fw nd)"
      using sessions_found [OF idx, of peer] by (simp add: sm_index_def sm_find_map_values split: option.splits)
    with 2 r show ?thesis by (intro request_asked [OF e3 m m3 r]) (auto simp: Let_def)
  qed
qed

section \<open>Steps that leave the books alone\<close>

definition same_rsm :: "node \<Rightarrow> node \<Rightarrow> bool" where
  "same_rsm nd nd' \<longleftrightarrow> nd_rsm nd' = nd_rsm nd"

interpretation srm: closed_rel same_rsm
  by unfold_locales (auto simp: same_rsm_def)

lemma set_fw_rsm [simp]: "nd_rsm (set_fw fw nd) = nd_rsm nd"
  by (simp add: set_fw_def)

lemma write_rsm: "write_or_throw i bs nd = Inr nd' \<Longrightarrow> nd_rsm nd' = nd_rsm nd"
  by (auto simp: write_or_throw_def rbind_Inr_iff split: if_split_asm)

lemma recv_udp_rsm: "recv_udp h i mem n nd = Some (Inr nd') \<Longrightarrow> nd_rsm nd' = nd_rsm nd"
  by (auto simp: recv_udp_def handleHello_def handleHelloAck_def Let_def rbind_Inr_iff dest!: write_rsm
      split: option.split_asm sum.split_asm if_split_asm)

lemma ctx_setNetAddr_endpoint:
  assumes "ctx_setNetAddr i a fw = Inr fw'" and "ctx_at i fw = Inr c" and "ctx_udp c"
  shows "getNetworkEndpoint i fw' = Inr Logic_Udp"
proof -
  have "ctx_heap fw' i = Some (c\<lparr>ctx_peer := a\<rparr>)"
    using assms by (auto simp: ctx_setNetAddr_def ctx_at_def rbind_Inr_iff split: option.splits)
  then show ?thesis using assms(3) by (simp add: getNetworkEndpoint_def ctx_at_def)
qed

lemma udp_input_rsm:
  assumes "udp_input h i src dg nd = Inr nd'" and "ctx_at i (nd_fw nd) = Inr c" and "ctx_udp c"
  shows "nd_rsm nd' = nd_rsm nd"
proof -
  have "returned r = Inr x \<longleftrightarrow> r = Some (Inr x)" for r :: "node res option" and x
    by (cases r) simp_all
  moreover have "nd_fw (set_fw fw nd) = fw" for fw by (simp add: set_fw_def nd_fw_def)
  ultimately show ?thesis using assms ctx_setNetAddr_endpoint [OF _ assms(2,3)]
    by (auto simp: udp_input_def udp_read_cb_def endpoint_recv_def rbind_Inr_iff LogicUdp_recv_def Let_def
        dest!: recv_udp_rsm split: option.split_asm if_split_asm list.split_asm)
qed

lemma quiet_steps:
  assumes "dm_step h e d d'" and "\<forall>i seg. e \<noteq> Bytes i seg" and "e \<noteq> Worker Finish"
  shows "nd_rsm (dm_node d') = nd_rsm (dm_node d)"
  using assms by (cases rule: dm_step.cases) (auto dest: udp_input_rsm)

section \<open>Properties\<close>

text \<open>
  C10: in every state the running program reaches, whatever its peers send and in whatever order
  the events come: the TCP connections are distinct, alive and active, so that the index of the
  sessions is built and every session in it can be written to; the modules of the mediator are in
  place; no two queued tasks have the same identifier; and no block of a resource is both free and
  being fetched, or fetched twice.
\<close>

theorem daemon_invariant:
  assumes "dm_reach env d"
  shows "distinct (elems (tcp_ctx (nd_fw (dm_node d)))) \<and>
    (\<exists>idx. getAllTcpSession (nd_fw (dm_node d)) = Inr idx \<and>
       (\<forall>a i. sm_find addr_less a idx = Some i \<longrightarrow>
          i \<in> set (elems (tcp_ctx (nd_fw (dm_node d)))) \<and> ctx_ready (nd_fw (dm_node d)) i)) \<and>
    tr_mods (nd_trig (dm_node d)) = wired_mods \<and>
    distinct (map task_id (tasks (nd_tasks (dm_node d)))) \<and>
    (\<forall>m uri. nd_rsm (dm_node d) = Manager m \<longrightarrow> exclusive (uri_entry uri m))"
proof -
  have inv: "node_inv (dm_node d)" using assms by (rule reach_inv)
  then have "fw_inv (nd_fw (dm_node d))" by (simp add: node_inv_def trig_inv_def nd_fw_def)
  moreover have "\<forall>m uri. nd_rsm (dm_node d) = Manager m \<longrightarrow> exclusive (uri_entry uri m)"
    using inv mgr_exclusive_entry by (auto simp: node_inv_def)
  ultimately show ?thesis using inv sessions_ready by (simp add: node_inv_def queue_inv_def fw_inv_def)
qed

theorem daemon_invariant_witness:
  "\<exists>ms idx. main_start sample_env = Inr (Started ms) \<and> getAllTcpSession (nd_fw (ms_node ms)) = Inr idx"
  using sample_started daemon_invariant [OF dm_reach.start] by fastforce

text \<open>
  The whole program implements the abstract machine of blocks. The books start with nothing to
  fetch; every event changes them by steps of the machine; and only packets that arrive on a TCP
  connection and the end of a task change them at all. That a connection closes does not: what was
  requested from its peer stays on the books as being fetched.
\<close>

theorem daemon_refines_board:
  assumes "dm_reach env d" and "dm_step h e d d'"
  shows "(\<exists>ops. board_steps ops (board_of (dm_node d)) (board_of (dm_node d'))) \<and>
    ((\<forall>i seg. e \<noteq> Bytes i seg) \<and> e \<noteq> Worker Finish \<longrightarrow> board_of (dm_node d') = board_of (dm_node d)) \<and>
    (\<forall>ms. main_start env = Inr (Started ms) \<longrightarrow> board_of (ms_node ms) = (\<lambda>_ _. Gone))"
  using reach_inv [OF assms(1)] dm_step_moves [OF assms(2)] quiet_steps [OF assms(2)] main_start_result(1)
  by (auto simp: moves_def board_of_def)

theorem daemon_refines_board_witness:
  "\<exists>d d'. dm_reach sample_env d \<and> dm_step sample_host (Accept (getBeAddr (sample_addr 1 9))) d d' \<and>
     board_of (dm_node d') = board_of (dm_node d)"
proof -
  obtain ms where ms: "main_start sample_env = Inr (Started ms)" using sample_started by blast
  let ?d = "\<lparr>dm_node = ms_node ms, dm_bufs = (\<lambda>_. [])\<rparr>"
  have "\<exists>i fw. tcp_accept quad_aton quad_ntoa (getBeAddr (sample_addr 1 9)) (nd_fw (ms_node ms)) = Inr (i, fw)"
    using quad.fromBe_getBeAddr [of "sample_addr 1 9"] by (simp add: tcp_accept_def sample_addr_def)
  then obtain d' where s: "dm_step sample_host (Accept (getBeAddr (sample_addr 1 9))) ?d d'"
    using dm_step.accept [of sample_host _ ?d] by (fastforce simp: sample_host_def)
  then show ?thesis using daemon_refines_board [OF dm_reach.start [OF ms] s] dm_reach.start [OF ms] by blast
qed

text \<open>
  C13: what the worker asks for. When it runs a task in a state that satisfies the invariant, either
  nothing is sent and the books stay as they are, or exactly one free block of one resource is put
  on the books of one peer; the request for this block, and nothing else, is sent over the
  last connection with the IP address of that peer (an empty block is not sent at all).
\<close>

theorem worker_requests_free_block:
  assumes "node_inv (dm_node d)" and "dm_step h (Worker Finish) d d'"
  shows "board_of (dm_node d') = board_of (dm_node d) \<and> nd_fw (dm_node d') = nd_fw (dm_node d) \<or>
    (\<exists>uri b peer. board_of (dm_node d) uri b = Free \<and>
      board_of (dm_node d') = (board_of (dm_node d))(uri := (board_of (dm_node d) uri)(b := Fetching peer)) \<and>
      (if b_end b = 0 then nd_fw (dm_node d') = nd_fw (dm_node d)
       else \<exists>i c hdr bs. session_to peer (nd_fw (dm_node d)) = Some i \<and> ctx_heap (nd_fw (dm_node d)) i = Some c \<and>
         Range_to_string (Range_new (b_start b) (b_end b - b_start b)) = Inr hdr \<and>
         LanSyncPkt_write (addXheader XHEADER_RANGE hdr (addXheader XHEADER_URI uri
           (LanSyncPkt_new LAN_SYNC_VER_0_1 LAN_SYNC_TYPE_GET_RESOURCE))) = Inr bs \<and>
         ctx_sent (nd_fw (dm_node d')) = ctx_sent (nd_fw (dm_node d)) @ [(ctx_peer c, bs)]))"
proof -
  have "\<exists>(t :: string abs_task) nd m. ReqRsTask_run h (task_body t) (dm_node d) = Inr nd \<and> dm_node d' = nd\<lparr>nd_tasks := m\<rparr>"
    using assms(2)
  proof (cases rule: dm_step.cases)
    case (run t nd m)
    then have "dm_node d' = nd\<lparr>nd_tasks := m\<rparr>" by simp
    with run show ?thesis by blast
  qed simp
  then obtain t :: "string abs_task" and nd m where r: "ReqRsTask_run h (task_body t) (dm_node d) = Inr nd"
    and d': "dm_node d' = nd\<lparr>nd_tasks := m\<rparr>" by blast
  have "board_of (dm_node d') = board_of nd" "nd_fw (dm_node d') = nd_fw nd"
    by (simp_all add: d' board_of_def nd_fw_def)
  with task_run_cases [OF r assms(1)] show ?thesis unfolding asked_def by metis
qed

definition sample_daemon :: daemon where
  "sample_daemon = \<lparr>dm_node = sample_client\<lparr>nd_tasks := TaskManager_new\<lparr>tm_worker :=
     Running \<lparr>task_id = ''/a'', task_body = ''/a''\<rparr>\<rparr>\<rparr>, dm_bufs = (\<lambda>_. [])\<rparr>"

definition sample_books :: sync_manager where
  "sample_books = \<lparr>uriRs = [(''/a'', sample_rs [SyncingRange_new NetAddr_default (Block 0 2) 0])]\<rparr>"

lemma sample_books_entry:
  "uri_entry uri sample_books =
     (if uri = ''/a'' then sample_rs [SyncingRange_new NetAddr_default (Block 0 2) 0] else SyncRs_default)"
  by (simp add: sample_books_def uri_entry_eq str_map.eqv_def [symmetric]) (simp add: str_less_def)

lemma sample_rs_sel [simp]:
  "rs_block (sample_rs rs) = [Block 2 5]" "rs_owner (sample_rs rs) = Vec [NetAddr_default]" "rs_syncing (sample_rs rs) = Vec rs"
  by (simp_all add: sample_rs_def)

lemma sample_books_exclusive: "mgr_exclusive sample_books"
proof -
  have "mgr_sorted sample_books" by (simp add: sample_books_def mgr_sorted_def)
  moreover have "exclusive SyncRs_default" by (simp add: exclusive_def SyncRs_default_def)
  ultimately show ?thesis by (simp add: mgr_exclusive_def sample_books_entry exclusive_def)
qed

lemma sample_daemon_parts:
  "nd_rsm (dm_node sample_daemon) = Manager sample_books" "nd_trig (dm_node sample_daemon) = one_conn NetAddr_default"
  "nd_tasks (dm_node sample_daemon) =
     TaskManager_new\<lparr>tm_worker := Running \<lparr>task_id = ''/a'', task_body = ''/a''\<rparr>\<rparr>"
  by (simp_all add: sample_daemon_def sample_client_def sample_node_def sample_books_def)

lemma sample_daemon_inv: "node_inv (dm_node sample_daemon)"
proof -
  have "trig_inv (one_conn NetAddr_default)" "tr_mods (one_conn NetAddr_default) = wired_mods"
    by (simp_all add: trig_inv_def fw_inv_def one_conn_def ctx_new_def net_fw_init_def Let_def)
  then show ?thesis
    by (simp add: node_inv_def sample_daemon_parts sample_books_exclusive queue_inv_def TaskManager_new_def)
qed

lemma sample_daemon_runs: "\<exists>d'. dm_step sample_host (Worker Finish) sample_daemon d'"
proof -
  let ?nd = "dm_node sample_daemon"
  let ?m = "snd (regReqSyncRsAuto NetAddr_default ''/a'' 0 sample_books)"
  have idx: "getAllTcpSession (nd_fw ?nd) = Inr [(NetAddr_default, 0)]"
    by (simp add: nd_fw_def sample_daemon_parts getAllTcpSession_def one_conn_def ctx_new_def net_fw_init_def Let_def
        ctx_getPeer_def ctx_at_def)
  have "open_conn sample_host 0 NetAddr_default (?nd\<lparr>nd_rsm := Manager m\<rparr>)" for m
    using sample_open(2) by (simp add: open_conn_def sample_daemon_def nd_fw_def)
  then have send: "sendRsReq ''/a'' (Some 0) (Block 2 5) (?nd\<lparr>nd_rsm := Manager m\<rparr>) = Inr (sent_to NetAddr_default
      (wire_bytes (request_packet ''/a'' (Block 2 5))) (?nd\<lparr>nd_rsm := Manager m\<rparr>))" for m
    by (rule sendRsReq_sends) (simp_all add: clean_text_def)
  have same: "set_entry ''/a'' (sample_rs [SyncingRange_new NetAddr_default (Block 0 2) 0]) sample_books = sample_books"
    by (simp add: set_entry_def sample_books_def str_less_def)
  obtain m where "regReqSyncRsAuto NetAddr_default ''/a'' 0 sample_books = (Block 2 5, m)"
    by (simp add: regReqSyncRsAuto_def sample_books_entry rs_request_def Let_def)
  then have "ReqRsTask_run sample_host ''/a'' ?nd = Inr (sent_to NetAddr_default
      (wire_bytes (request_packet ''/a'' (Block 2 5))) (?nd\<lparr>nd_rsm := Manager m\<rparr>))"
    using send by (simp add: ReqRsTask_run_def idx sample_daemon_parts getRsSyncManager_def getOwnerSize_def getBlockSize_def
        getSyncingSize_def Let_def sample_books_entry same DOWNLOAD_LIMIT_def vec_at_def sample_host_def sm_index_def addr_less_def word_le_nat_alt)
  moreover have "nd_tasks (sent_to p bs (?nd\<lparr>nd_rsm := r\<rparr>)) = nd_tasks ?nd" for p bs r
    by (simp add: sent_to_def set_fw_def)
  ultimately obtain nd where r: "ReqRsTask_run sample_host (task_body \<lparr>task_id = ''/a'', task_body = ''/a''\<rparr>) ?nd = Inr nd"
    and t: "nd_tasks nd = nd_tasks ?nd" by simp
  have w: "tm_worker (nd_tasks ?nd) = Running \<lparr>task_id = ''/a'', task_body = ''/a''\<rparr>"
    by (simp add: sample_daemon_parts)
  then have "tm_worker (nd_tasks nd) = Running \<lparr>task_id = ''/a'', task_body = ''/a''\<rparr>" by (simp add: t)
  from dm_step.run [OF w r tm_step.finish [OF this]] show ?thesis by blast
qed

theorem worker_requests_free_block_witness:
  "\<exists>d'. dm_step sample_host (Worker Finish) sample_daemon d' \<and>
     (board_of (dm_node d') = board_of (dm_node sample_daemon) \<or>
      (\<exists>uri b peer. board_of (dm_node sample_daemon) uri b = Free \<and>
         board_of (dm_node d') uri b = Fetching peer))"
proof -
  obtain d' where s: "dm_step sample_host (Worker Finish) sample_daemon d'" using sample_daemon_runs by blast
  from worker_requests_free_block [OF sample_daemon_inv s] s show ?thesis by (metis fun_upd_same)
qed

text \<open>
  C27: a block can be lost between two connections. Two nodes that have found each other have two
  connections, with the same IP and different ports; the request for a block goes over the one that was
  opened last, and when this is not the one of the owner that is on the books, the answer, which comes
  over the same connection, settles nothing: the block stays on the books as being fetched.
\<close>

theorem reply_of_other_session_ignored:
  assumes "mgr_exclusive m" and "mgr_status m uri b = Fetching peer" and "getAllTcpSession fw = Inr idx"
    and "session_to peer fw = Some i" and "ctx_heap fw i = Some c" and "ctx_peer c \<noteq> peer"
  shows "sm_find addr_less peer idx = Some i \<and>
    (\<exists>m'. syncingRangeDoneAndValid vr (ctx_peer c) uri b valid (l, m) = Inr (l, m') \<and> mgr_status m' = mgr_status m)"
proof -
  let ?rs = "uri_entry uri m"
  have "status ?rs b = Fetching peer" using assms(2) by (simp add: mgr_status_def)
  then obtain rng where "List.find (\<lambda>r. sr_block r = b) (elems (rs_syncing ?rs)) = Some rng" and p: "sr_peer rng = peer"
    by (auto simp: status_def split: if_split_asm option.split_asm)
  then have rng: "rng \<in> set (elems (rs_syncing ?rs))" "sr_block rng = b" "sr_peer rng = peer"
    by (auto simp: find_Some_iff)
  have "distinct (map sr_block (elems (rs_syncing ?rs)))"
    using mgr_exclusive_entry [OF assms(1)] by (simp add: exclusive_def)
  then have other: "\<not> is_range (ctx_peer c) b r" if "r \<in> set (elems (rs_syncing ?rs))" for r
    using rng that assms(6) by (auto simp: distinct_map inj_on_def)
  have "rs_syncing ?rs \<noteq> NullVec" using rng(1) by auto
  then obtain found where f: "erase_last (is_range (ctx_peer c) b) (rs_syncing ?rs) = Inr found"
    using erase_last_total by blast
  have "found = None"
    using f other erase_last_Some [of "is_range (ctx_peer c) b" "rs_syncing ?rs"] by (cases found) fastforce+
  then have "syncingRangeDoneAndValid vr (ctx_peer c) uri b valid (l, m) = Inr (l, set_entry uri ?rs m)"
    using f by (simp add: syncingRangeDoneAndValid_def rs_done_def)
  moreover have "mgr_status (set_entry uri ?rs m) = mgr_status m" by (simp add: mgr_status_set)
  ultimately show ?thesis using sessions_found [OF assms(3)] assms(4) by simp
qed

text \<open>Two connections to one host: the books name port 8, the later connection has port 9.\<close>

definition sample_sessions :: net_fw where
  "sample_sessions = snd (ctx_new False (sample_addr 1 9) (snd (ctx_new False (sample_addr 1 8) net_fw_init)))"

definition sample_claimed :: sync_manager where
  "sample_claimed = set_entry ''/a'' (sample_rs [SyncingRange_new (sample_addr 1 8) (Block 0 2) 0]) sync_manager_init"

theorem reply_of_other_session_ignored_witness:
  "\<exists>m'. syncingRangeDoneAndValid always_valid (sample_addr 1 9) ''/a'' (Block 0 2) True ((), sample_claimed) = Inr ((), m') \<and>
     mgr_status m' ''/a'' (Block 0 2) = Fetching (sample_addr 1 8)"
proof -
  have ex: "mgr_exclusive sample_claimed"
    by (simp add: sample_claimed_def mgr_exclusive_set exclusive_def)
  have st: "mgr_status sample_claimed ''/a'' (Block 0 2) = Fetching (sample_addr 1 8)"
    by (simp add: sample_claimed_def mgr_status_set status_def)
  have heap: "ctx_heap sample_sessions 1 = Some \<lparr>ctx_peer = sample_addr 1 9, ctx_active = True, ctx_udp = False\<rparr>"
    "ctx_heap sample_sessions 0 = Some \<lparr>ctx_peer = sample_addr 1 8, ctx_active = True, ctx_udp = False\<rparr>"
    "elems (tcp_ctx sample_sessions) = [0, 1]"
    by (simp_all add: sample_sessions_def ctx_new_def net_fw_init_def Let_def)
  then have to: "session_to (sample_addr 1 8) sample_sessions = Some 1"
    by (simp add: session_to_def) (simp add: sample_addr_def)
  have "\<exists>idx. getAllTcpSession sample_sessions = Inr idx"
    using heap by (simp add: getAllTcpSession_def ctx_getPeer_def ctx_at_def)
  then obtain idx where idx: "getAllTcpSession sample_sessions = Inr idx" by blast
  have ne: "ctx_peer \<lparr>ctx_peer = sample_addr 1 9, ctx_active = True, ctx_udp = False\<rparr> \<noteq> sample_addr 1 8"
    by (simp add: sample_addr_def)
  show ?thesis
    using reply_of_other_session_ignored [OF ex st idx to heap(1) ne, of always_valid True "()"] st by auto
qed

text \<open>
  C38: an empty file is never fetched. Its one block is empty; the first task that runs for it books
  the block on the owner and, the end of the block being 0, sends nothing, so that no answer will
  ever settle it; every later task finds no free block and does nothing.
\<close>

theorem empty_file_never_fetched:
  assumes "regSyncRs peer uri hash 0 m = Inr (True, m')" and "str_find uri (uriRs m) = None"
    and "nd_rsm nd = Manager m'" and "getAllTcpSession (nd_fw nd) = Inr idx" and "h_draw h 1 = 0"
  shows "\<exists>nd1. ReqRsTask_run h uri nd = Inr nd1 \<and> nd_fw nd1 = nd_fw nd \<and>
    board_of nd uri (Block 0 0) = Free \<and> board_of nd1 uri (Block 0 0) = Fetching peer \<and>
    (\<forall>h'. \<exists>nd2. ReqRsTask_run h' uri nd1 = Inr nd2 \<and> nd_fw nd2 = nd_fw nd1 \<and> board_of nd2 = board_of nd1)"
proof -
  let ?rs = "SyncRs_new uri 0 hash peer"
  have m': "m' = assign_entry uri ?rs m" using assms(1,2) by (simp add: regSyncRs_def)
  have "uri_entry uri m = SyncRs_default" using assms(2) by (simp add: uri_entry_eq)
  then have e: "uri_entry uri m' = ?rs" unfolding m'
    by (simp add: assign_entry_def rs_assign_def SyncRs_default_def SyncRs_new_def push_back_def)
  have blocks: "rs_block ?rs = [Block 0 0]" "elems (rs_syncing ?rs) = []" "elems (rs_owner ?rs) = [peer]"
    by (simp_all add: SyncRs_new_def initial_blocks_def BLOCK_SIZE_eq)
  let ?booked = "?rs\<lparr>rs_block := [], rs_syncing := push_back (rs_syncing ?rs) (SyncingRange_new peer (Block 0 0) (h_time h))\<rparr>"
  obtain m1 where req: "regReqSyncRsAuto peer uri (h_time h) (set_entry uri ?rs
      (set_entry uri ?rs (set_entry uri ?rs (set_entry uri ?rs m')))) = (Block 0 0, m1)" and e1: "uri_entry uri m1 = ?booked"
    by (simp add: regReqSyncRsAuto_def rs_request_def blocks Let_def)
  let ?nd1 = "nd\<lparr>nd_rsm := Manager m1\<rparr>"
  have run: "ReqRsTask_run h uri nd = Inr ?nd1"
    using assms(3-5) e req
    by (simp add: ReqRsTask_run_def getRsSyncManager_def getOwnerSize_def getBlockSize_def getSyncingSize_def Let_def
        blocks DOWNLOAD_LIMIT_def vec_at_def)
  have "\<exists>nd2. ReqRsTask_run h' uri ?nd1 = Inr nd2 \<and> nd_fw nd2 = nd_fw ?nd1 \<and> board_of nd2 = board_of ?nd1" for h'
    using assms(4) e1
    by (simp add: ReqRsTask_run_def getRsSyncManager_def getOwnerSize_def getBlockSize_def getSyncingSize_def Let_def
        mgr_status_set) (simp add: mgr_status_def [abs_def] fun_eq_iff)
  moreover have "board_of nd uri (Block 0 0) = Free" "board_of ?nd1 uri (Block 0 0) = Fetching peer"
    using assms(3) e e1
    by (simp_all add: board_of_def mgr_status_def fresh_status_def initial_blocks_def BLOCK_SIZE_eq) (simp add: status_def blocks)
  ultimately show ?thesis using run by (intro exI [of _ ?nd1]) simp
qed

theorem empty_file_never_fetched_witness:
  "\<exists>m nd1. regSyncRs NetAddr_default ''/b'' ''00'' 0 sample_books = Inr (True, m) \<and>
     ReqRsTask_run sample_host ''/b'' (sample_client\<lparr>nd_rsm := Manager m\<rparr>) = Inr nd1 \<and>
     board_of nd1 ''/b'' (Block 0 0) = Fetching NetAddr_default"
proof -
  have f: "str_find ''/b'' (uriRs sample_books) = None" by (simp add: sample_books_def str_less_def)
  then obtain m where reg: "regSyncRs NetAddr_default ''/b'' ''00'' 0 sample_books = Inr (True, m)"
    by (simp add: regSyncRs_def)
  let ?nd = "sample_client\<lparr>nd_rsm := Manager m\<rparr>"
  have "getAllTcpSession (nd_fw ?nd) = Inr [(NetAddr_default, 0)]"
    by (simp add: nd_fw_def sample_client_def sample_node_def getAllTcpSession_def one_conn_def ctx_new_def net_fw_init_def
        Let_def ctx_getPeer_def ctx_at_def)
  moreover have "h_draw sample_host 1 = 0" by (simp add: sample_host_def)
  ultimately have "\<exists>nd1. ReqRsTask_run sample_host ''/b'' ?nd = Inr nd1 \<and> board_of nd1 ''/b'' (Block 0 0) = Fetching NetAddr_default"
    using empty_file_never_fetched [OF reg f, of ?nd "[(NetAddr_default, 0)]" sample_host] by auto
  with reg show ?thesis by blast
qed

end
