(* ===== verification/Two_Nodes.thy ===== *)
theory Two_Nodes
  imports Daemon_Safety
begin

text \<open>
  Two daemons and the TCP connection between them: the bytes one side writes are on their way to
  the other until they are delivered, in segments of any size. A step is a step of one side; the
  answers of its machine may differ from step to step, within a set of machines.
\<close>

section \<open>Input on a connection\<close>

lemma endpoint_tcp: "open_conn h i peer nd \<Longrightarrow> endpoint_recv h i mem n nd = returned (recv_tcp h i mem n nd)"
  by (simp add: endpoint_recv_def getNetworkEndpoint_def open_conn_def ctx_at_def LogicTcp_recv_def)

lemma frame_small: "pkt_frame p \<Longrightarrow> p \<noteq> [] \<and> length p < 2 ^ 31 \<and> length p < 2 ^ 32"
  by (auto simp: pkt_frame_def len_consts)

lemma count_nonempty: "xs \<noteq> [] \<Longrightarrow> length xs < 2 ^ 32 \<Longrightarrow>
    (of_nat (length xs) :: u32) \<noteq> 0 \<and> unat (of_nat (length xs) :: u32) = length xs"
  using unat_of_nat_u32 [of "length xs"] by (metis length_0_conv unat_0)

text \<open>The callback waits while the packet is incomplete, and handles it when it is complete.\<close>

lemma tcp_input_part:
  assumes "pkt_frame (p @ q)" and "q \<noteq> []"
  shows "tcp_input h i p nd = Inr (p, nd)"
proof (cases "p = []")
  case False
  have l: "length p < 2 ^ 32" using frame_small [OF assms(1)] by simp
  show ?thesis
    using read_round_stop [of p "replicate (length p) NUL" isExtraAllDataNow] isExtra_part [OF assms] l
      count_nonempty [OF False l]
    by (simp add: tcp_input_def read_cb_def del: read_rounds.simps)
qed (simp add: tcp_input_def read_cb_def)

lemma tcp_input_whole:
  assumes "open_conn h i peer nd" and "pkt_frame p"
    and "\<And>rest. recv_tcp h i (p @ rest) (of_nat (length p)) nd = Some (Inr nd')"
  shows "tcp_input h i p nd = Inr ([], nd')"
proof -
  note l = frame_small [OF assms(2)]
  have need: "isExtraAllDataNow (p @ tail) (of_nat (length p)) = Inr (of_nat (length p))" for tail
    using isExtra_whole [OF assms(2)] l by simp
  have r: "endpoint_recv h i (take (length p) p @ tail) (of_nat (length p)) nd = Inr nd'" for tail
    using endpoint_tcp [OF assms(1)] assms(3) by simp
  have none: "isExtraAllDataNow ([] @ tail) (of_nat (length [])) = Inr 0" for tail
    by (simp add: isExtraAllDataNow_def len_consts)
  obtain head' where "read_rounds isExtraAllDataNow (endpoint_recv h i) (Suc READ_LIMIT) (replicate (length p) NUL) p nd =
      rbind (Inr nd') (\<lambda>s'. read_rounds isExtraAllDataNow (endpoint_recv h i) READ_LIMIT head' (drop (length p) p) s')"
    using read_round_go [of p "replicate (length p) NUL" isExtraAllDataNow "length p" "endpoint_recv h i" nd "Inr nd'" READ_LIMIT]
      need r l by auto
  then show ?thesis
    using read_round_stop [of "[]" head' isExtraAllDataNow "endpoint_recv h i" READ_LIMIT nd'] none count_nonempty [of p] l
    by (simp add: tcp_input_def read_cb_def del: read_rounds.simps)
qed

text \<open>The same as a step of the daemon, for a packet \<open>w\<close> of which \<open>rest\<close> is still to come.\<close>

lemma bytes_step:
  assumes "open_conn h i peer (dm_node d)" and "pkt_frame w" and "dm_bufs d i @ seg @ rest = w"
    and "\<And>rest. recv_tcp h i (w @ rest) (of_nat (length w)) (dm_node d) = Some (Inr nd')"
  shows "dm_step h (Bytes i seg) d d' \<longleftrightarrow>
    d' = (if rest = [] then d\<lparr>dm_node := nd', dm_bufs := (dm_bufs d)(i := [])\<rparr>
          else d\<lparr>dm_bufs := (dm_bufs d)(i := dm_bufs d i @ seg)\<rparr>)"
proof -
  have c: "ctx_at i (nd_fw (dm_node d)) = Inr \<lparr>ctx_peer = peer, ctx_active = True, ctx_udp = False\<rparr>"
    using assms(1) by (simp add: open_conn_def ctx_at_def)
  have "tcp_input h i (dm_bufs d i @ seg) (dm_node d) =
      Inr (if rest = [] then ([], nd') else (dm_bufs d i @ seg, dm_node d))"
    using tcp_input_whole [OF assms(1,2,4)] tcp_input_part [of "dm_bufs d i @ seg" rest] assms(2,3) by auto
  then show ?thesis using c dm_step.bytes [of i d _ h seg]
    by (auto elim!: dm_stepE split: if_split_asm)
qed

text \<open>Several packets at once: each is handled in the state the one before has left.\<close>

fun handled :: "(bytes \<Rightarrow> u64 \<Rightarrow> 's \<Rightarrow> 's res) \<Rightarrow> bytes list \<Rightarrow> 's \<Rightarrow> 's \<Rightarrow> bool" where
  "handled recv [] s s' \<longleftrightarrow> s' = s"
| "handled recv (p # ps) s s' \<longleftrightarrow>
     (\<exists>s1. (\<forall>tail. recv (p @ tail) (of_nat (length p)) s = Inr s1) \<and> handled recv ps s1 s')"

lemma handled_append: "handled recv (ps @ qs) s s' \<longleftrightarrow> (\<exists>s1. handled recv ps s s1 \<and> handled recv qs s1 s')"
  by (induction ps arbitrary: s) auto

lemma handled_rounds:
  assumes "\<forall>p \<in> set ps. pkt_frame p" and "stream.partial part" and "length (concat ps @ part) < 2 ^ 32"
    and "length (concat ps @ part) \<le> length head" and "length ps \<le> n" and "handled recv ps s s'"
  shows "read_rounds isExtraAllDataNow recv n head (concat ps @ part) s = Inr (part, s')"
  using assms
proof (induction ps arbitrary: n head s)
  case Nil
  then show ?case
    using read_round_stop [of part head isExtraAllDataNow recv n s] stream.need_partial [OF Nil.prems(2)]
    by (simp del: read_rounds.simps)
next
  case (Cons p ps)
  obtain m where n: "n = Suc m" "length ps \<le> m" using Cons.prems(5) by (cases n) auto
  obtain s1 where s1: "\<And>tail. recv (p @ tail) (of_nat (length p)) s = Inr s1" "handled recv ps s1 s'"
    using Cons.prems(6) by auto
  let ?X = "concat (p # ps) @ part"
  have p: "pkt_frame p" "0 < length p" "length p < 2 ^ 31" "length p \<le> length ?X"
    using Cons.prems(1) frame_small [of p] by auto
  have need: "isExtraAllDataNow (?X @ tail) (of_nat (length ?X)) = Inr (of_nat (length p))" for tail
    using isExtra_whole [OF p(1,4) Cons.prems(3), of "concat ps @ part @ tail"] by simp
  have "recv (take (length p) ?X @ tail) (of_nat (length p)) s = Inr s1" for tail using s1(1) by simp
  then obtain head' where "length head' = length head"
    "read_rounds isExtraAllDataNow recv (Suc m) head ?X s = rbind (Inr s1) (\<lambda>s'. read_rounds isExtraAllDataNow recv m head' (drop (length p) ?X) s')"
    using read_round_go [where need = isExtraAllDataNow and recv = recv and n = m, OF Cons.prems(3,4) need p(2,3,4)] by blast
  then show ?case using Cons.IH [where n = m and head = head' and s = s1] Cons.prems n s1(2) by (simp del: read_rounds.simps)
qed

lemma tcp_input_frames:
  assumes "\<forall>p \<in> set ps. pkt_frame p" and "stream.partial part" and "length (concat ps @ part) < 2 ^ 32"
    and "length ps \<le> READ_LIMIT + 1" and "handled (endpoint_recv h i) ps nd nd'" and "concat ps @ part \<noteq> []"
  shows "tcp_input h i (concat ps @ part) nd = Inr (part, nd')"
  using handled_rounds [OF assms(1-3) _ assms(4,5), of "replicate (length (concat ps @ part)) NUL"]
    count_nonempty [OF assms(6,3)]
  by (simp add: tcp_input_def read_cb_def del: read_rounds.simps)

text \<open>
  A segment of a stream of packets: it completes some of them, which are handled, and what remains
  in the buffer is the beginning of the next one.
\<close>

lemma frames_step:
  assumes "open_conn h i peer (dm_node d)" and "\<forall>p \<in> set ws. pkt_frame p" and "length ws \<le> READ_LIMIT + 1"
    and "length (concat ws) < 2 ^ 32" and "dm_bufs d i @ seg @ rest = concat ws" and "seg \<noteq> []"
    and "\<And>k. k \<le> length ws \<Longrightarrow> \<exists>nd'. handled (endpoint_recv h i) (take k ws) (dm_node d) nd' \<and> Q k nd'"
  shows "\<exists>k part nd'. k \<le> length ws \<and> stream.partial part \<and> part @ rest = concat (drop k ws) \<and> Q k nd' \<and>
    (\<forall>d'. dm_step h (Bytes i seg) d d' \<longleftrightarrow> d' = d\<lparr>dm_node := nd', dm_bufs := (dm_bufs d)(i := part)\<rparr>)"
proof -
  have "stream.partial []" by (simp add: stream.partial_def)
  moreover have "(dm_bufs d i @ seg) @ rest = concat ws @ []" using assms(5) by simp
  ultimately obtain k0 part where part: "dm_bufs d i @ seg = concat (take k0 ws) @ part" "stream.partial part"
    "part @ rest = concat (drop k0 ws)"
    using stream.split_stream [OF assms(2)] by (metis append_Nil2)
  define k where "k = min k0 (length ws)"
  have k: "k \<le> length ws" "take k ws = take k0 ws" "drop k ws = drop k0 ws" by (auto simp: k_def min_def)
  obtain nd' where nd': "handled (endpoint_recv h i) (take k ws) (dm_node d) nd'" "Q k nd'"
    using assms(7) k(1) by blast
  have len: "length (concat (take k ws) @ part) < 2 ^ 32"
    using assms(4) unfolding assms(5) [symmetric] k(2) part(1) [symmetric] by simp
  have "tcp_input h i (dm_bufs d i @ seg) (dm_node d) = Inr (part, nd')"
    unfolding part(1) k(2) [symmetric]
    by (rule tcp_input_frames [OF _ part(2) len _ nd'(1)])
      (use assms(2,3,6) part(1) k(2) in \<open>auto dest: in_set_takeD simp del: append_is_Nil_conv\<close>)
  moreover have "ctx_at i (nd_fw (dm_node d)) = Inr \<lparr>ctx_peer = peer, ctx_active = True, ctx_udp = False\<rparr>"
    using assms(1) by (simp add: open_conn_def ctx_at_def)
  ultimately have "dm_step h (Bytes i seg) d d' \<longleftrightarrow> d' = d\<lparr>dm_node := nd', dm_bufs := (dm_bufs d)(i := part)\<rparr>" for d'
    using dm_step.bytes [of i d _ h seg] by (auto elim!: dm_stepE)
  then show ?thesis using k part(2,3) nd'(2) by (intro exI [of _ k] exI [of _ part] exI [of _ nd']) simp
qed

section \<open>The two sides\<close>

text \<open>The context and the address of the other side, on each side.\<close>

record link =
  lk_cctx :: nat
  lk_server :: net_addr
  lk_sctx :: nat
  lk_client :: net_addr

record net =
  nt_client :: daemon
  nt_server :: daemon
  nt_up :: bytes
  nt_down :: bytes

text \<open>What a step has written to a peer.\<close>

definition emitted :: "net_addr \<Rightarrow> daemon \<Rightarrow> daemon \<Rightarrow> bytes" where
  "emitted peer d d' =
     concat (map snd (filter (\<lambda>e. fst e = peer)
       (drop (length (ctx_sent (nd_fw (dm_node d)))) (ctx_sent (nd_fw (dm_node d'))))))"

inductive net_step :: "(host \<Rightarrow> bool) \<Rightarrow> (host \<Rightarrow> bool) \<Rightarrow> link \<Rightarrow> net \<Rightarrow> net \<Rightarrow> bool" for Hc Hs lk where
  client_works: "Hc h \<Longrightarrow> dm_step h (Worker x) (nt_client s) d \<Longrightarrow>
    net_step Hc Hs lk s (s\<lparr>nt_client := d, nt_up := nt_up s @ emitted (lk_server lk) (nt_client s) d\<rparr>)"
| server_works: "Hs h \<Longrightarrow> dm_step h (Worker x) (nt_server s) d \<Longrightarrow>
    net_step Hc Hs lk s (s\<lparr>nt_server := d, nt_down := nt_down s @ emitted (lk_client lk) (nt_server s) d\<rparr>)"
| to_server: "Hs h \<Longrightarrow> nt_up s = seg @ rest \<Longrightarrow> seg \<noteq> [] \<Longrightarrow> dm_step h (Bytes (lk_sctx lk) seg) (nt_server s) d \<Longrightarrow>
    net_step Hc Hs lk s (s\<lparr>nt_server := d, nt_up := rest,
      nt_down := nt_down s @ emitted (lk_client lk) (nt_server s) d\<rparr>)"
| to_client: "Hc h \<Longrightarrow> nt_down s = seg @ rest \<Longrightarrow> seg \<noteq> [] \<Longrightarrow> dm_step h (Bytes (lk_cctx lk) seg) (nt_client s) d \<Longrightarrow>
    net_step Hc Hs lk s (s\<lparr>nt_client := d, nt_down := rest,
      nt_up := nt_up s @ emitted (lk_server lk) (nt_client s) d\<rparr>)"

inductive_cases net_stepE: "net_step Hc Hs lk s s'"

text \<open>
  \<open>dm_step\<close> has a step only where the code does not fault. A state is safe when every event the
  network and the workers can bring is handled without a fault.
\<close>

definition net_safe :: "(host \<Rightarrow> bool) \<Rightarrow> (host \<Rightarrow> bool) \<Rightarrow> link \<Rightarrow> net \<Rightarrow> bool" where
  "net_safe Hc Hs lk s \<longleftrightarrow>
     (\<forall>h seg rest. Hs h \<longrightarrow> nt_up s = seg @ rest \<longrightarrow> seg \<noteq> [] \<longrightarrow>
        (\<exists>d. dm_step h (Bytes (lk_sctx lk) seg) (nt_server s) d)) \<and>
     (\<forall>h seg rest. Hc h \<longrightarrow> nt_down s = seg @ rest \<longrightarrow> seg \<noteq> [] \<longrightarrow>
        (\<exists>d. dm_step h (Bytes (lk_cctx lk) seg) (nt_client s) d)) \<and>
     (\<forall>h t. Hc h \<longrightarrow> tm_worker (nd_tasks (dm_node (nt_client s))) = Running t \<longrightarrow>
        (\<exists>d. dm_step h (Worker Finish) (nt_client s) d)) \<and>
     (\<forall>h t. Hs h \<longrightarrow> tm_worker (nd_tasks (dm_node (nt_server s))) = Running t \<longrightarrow>
        (\<exists>d. dm_step h (Worker Finish) (nt_server s) d))"

lemma emitted_same: "ctx_sent (nd_fw (dm_node d')) = ctx_sent (nd_fw (dm_node d)) \<Longrightarrow> emitted peer d d' = []"
  by (simp add: emitted_def)

lemma emitted_sent: "ctx_sent (nd_fw (dm_node d')) = ctx_sent (nd_fw (dm_node d)) @ [(peer, bs)] \<Longrightarrow> emitted peer d d' = bs"
  by (simp add: emitted_def)

text \<open>A worker that is not running a task: it tests the flag, waits, and takes the first task.\<close>

definition idle :: "'p task_manager \<Rightarrow> bool" where
  "idle m \<longleftrightarrow> \<not> stopFlg m \<and> (tm_worker m = AtTest \<or> tm_worker m = InWait)"

lemma idle_step:
  assumes "idle (nd_tasks (dm_node d))"
  shows "dm_step h (Worker x) d d' \<longleftrightarrow>
    x = Test \<and> tm_worker (nd_tasks (dm_node d)) = AtTest \<and>
      d' = d\<lparr>dm_node := (dm_node d)\<lparr>nd_tasks := (nd_tasks (dm_node d))\<lparr>tm_worker := InWait\<rparr>\<rparr>\<rparr> \<or>
    x = Take \<and> tm_worker (nd_tasks (dm_node d)) = InWait \<and>
      (\<exists>t ts. tasks (nd_tasks (dm_node d)) = t # ts \<and>
        d' = d\<lparr>dm_node := (dm_node d)\<lparr>nd_tasks := (nd_tasks (dm_node d))\<lparr>tasks := ts, tm_worker := Running t\<rparr>\<rparr>\<rparr>)"
  using assms dm_step.turn [of x d _ h]
  by (auto simp: idle_def elim!: dm_stepE tm_stepE intro: tm_step.go tm_step.take)

lemma running_step:
  assumes "tm_worker (nd_tasks (dm_node d)) = Running t" and "ReqRsTask_run h (task_body t) (dm_node d) = Inr nd"
    and "nd_tasks nd = nd_tasks (dm_node d)"
  shows "dm_step h (Worker x) d d' \<longleftrightarrow> x = Finish \<and>
    d' = d\<lparr>dm_node := nd\<lparr>nd_tasks := (nd_tasks nd)\<lparr>tm_worker := AtTest, tm_log := tm_log (nd_tasks nd) @ [t]\<rparr>\<rparr>\<rparr>"
  using assms dm_step.run [OF assms(1,2)]
  by (auto elim!: dm_stepE tm_stepE intro: tm_step.finish)

section \<open>Systems that run through stages\<close>

text \<open>
  Every step from a stage leads to a stage, and something gets less with it; only the final stage
  may have no step. Then every run ends, and ends in the final stage.
\<close>

locale staged =
  fixes step :: "'s \<Rightarrow> 's \<Rightarrow> bool" and at :: "'st \<Rightarrow> 's \<Rightarrow> bool" and left :: "'st \<Rightarrow> 's \<Rightarrow> 'm"
    and less :: "('m \<times> 'm) set" and final :: 'st
  assumes wf_less: "wf less"
    and turn: "at st s \<Longrightarrow> step s s' \<Longrightarrow> \<exists>st'. at st' s' \<and> (left st' s', left st s) \<in> less"
    and moves: "at st s \<Longrightarrow> st \<noteq> final \<Longrightarrow> \<exists>s'. step s s'"
begin

lemma reached: "step\<^sup>*\<^sup>* s s' \<Longrightarrow> at st s \<Longrightarrow> \<exists>st'. at st' s'"
  by (induction rule: rtranclp_induct) (use turn in blast)+

lemma run_ends:
  assumes "at st s"
  shows "\<not> (\<exists>run. run 0 = s \<and> (\<forall>i. step (run i) (run (Suc i))))"
proof
  assume "\<exists>run. run 0 = s \<and> (\<forall>i. step (run i) (run (Suc i)))"
  then obtain run where run: "run 0 = s" "\<And>i. step (run i) (run (Suc i))" by blast
  have "\<not> (\<exists>i. at st (run i) \<and> left st (run i) = m)" for m st
    using wf_less
  proof (induction m arbitrary: st rule: wf_induct_rule)
    case (less m)
    then show ?case using turn [OF _ run(2)] by blast
  qed
  then show False using assms run(1) by blast
qed

lemma stuck_final: "at st s \<Longrightarrow> \<not> (\<exists>s'. step s s') \<Longrightarrow> at final s"
  using moves by blast

lemma comes_to_end: "at st s \<Longrightarrow> \<exists>s'. step\<^sup>*\<^sup>* s s' \<and> \<not> (\<exists>s''. step s' s'')"
proof -
  have "left st s = m \<Longrightarrow> at st s \<Longrightarrow> \<exists>s'. step\<^sup>*\<^sup>* s s' \<and> \<not> (\<exists>s''. step s' s'')" for m
    using wf_less
  proof (induction m arbitrary: st s rule: wf_induct_rule)
    case (less m)
    show ?case
    proof (cases "\<exists>s'. step s s'")
      case True
      then obtain s' st' where "step s s'" "at st' s'" "(left st' s', m) \<in> less"
        using turn [OF less.prems(2)] less.prems(1) by blast
      then show ?thesis using less.IH [of "left st' s'" st' s'] by (meson converse_rtranclp_into_rtranclp)
    qed blast
  qed
  then show "at st s \<Longrightarrow> ?thesis" by blast
qed

end

end
