(* ===== verification/File_Sync.thy ===== *)
theory File_Sync
  imports Two_Nodes
begin

text \<open>
  What a client fetches of a file: its blocks from the last to the first, the packets that ask for a
  block and bring it, and what the file looks like when the blocks from some point on are there.
\<close>

section \<open>The blocks of a file\<close>

text \<open>Where the \<open>k\<close>-th of the blocks begins.\<close>

definition mark :: "u64 \<Rightarrow> block list \<Rightarrow> nat \<Rightarrow> nat" where
  "mark a bs k = (if k = 0 then unat a else unat (b_end (bs ! (k - 1))))"

lemma tiles_mark:
  assumes "tiles bs a e" and "k < length bs"
  shows "unat (b_start (bs ! k)) = mark a bs k" and "proper_block (bs ! k)" and "b_end (bs ! k) \<le> e"
proof -
  have "unat (b_start (bs ! k)) = mark a bs k \<and> proper_block (bs ! k) \<and> b_end (bs ! k) \<le> e"
    using assms
  proof (induction bs arbitrary: a k)
    case (Cons c bs)
    show ?case
    proof (cases k)
      case 0
      then show ?thesis using Cons.prems tiles_le by (auto simp: mark_def proper_block_def)
    next
      case (Suc j)
      then have "unat (b_start (bs ! j)) = mark (b_end c) bs j \<and> proper_block (bs ! j) \<and> b_end (bs ! j) \<le> e"
        using Cons.prems by (intro Cons.IH) auto
      moreover have "mark (b_end c) bs j = mark a (c # bs) (Suc j)"
        using Suc Cons.prems by (cases j) (auto simp: mark_def)
      ultimately show ?thesis using Suc by simp
    qed
  qed simp
  then show "unat (b_start (bs ! k)) = mark a bs k" "proper_block (bs ! k)" "b_end (bs ! k) \<le> e" by simp_all
qed

lemma mark_Suc: "mark a bs (Suc k) = unat (b_end (bs ! k))"
  by (simp add: mark_def)

lemma mark_end: "tiles bs a e \<Longrightarrow> mark a bs (length bs) = unat e"
proof (induction bs arbitrary: a)
  case (Cons c bs)
  then have "mark (b_end c) bs (length bs) = unat e" by simp
  then show ?case by (cases bs) (auto simp: mark_def)
qed (simp add: mark_def)

lemma tiles_length: "tiles bs a e \<Longrightarrow> length bs \<le> unat e - unat a"
proof (induction bs arbitrary: a)
  case (Cons c bs)
  then have t: "tiles bs (b_end c) e" and "a < b_end c" by auto
  with Cons.IH [OF t] tiles_le [OF t] show ?case by (simp add: word_less_nat_alt word_le_nat_alt)
qed simp

text \<open>The client's copy, when the content from byte \<open>k\<close> on is there.\<close>

definition fetched_from :: "nat \<Rightarrow> bytes \<Rightarrow> bytes \<Rightarrow> bool" where
  "fetched_from k content file \<longleftrightarrow> length file \<le> length content \<and> drop k file = drop k content"

lemma fetched_all: "fetched_from 0 content file \<longleftrightarrow> file = content"
  by (auto simp: fetched_from_def)

lemma fetched_start: "length file \<le> length content \<Longrightarrow> fetched_from (length content) content file"
  by (simp add: fetched_from_def)

lemma fetched_block:
  assumes "fetched_from (unat (b_end b)) content file" and "proper_block b" and "unat (b_end b) \<le> length content"
  shows "fetched_from (unat (b_start b)) content (splice file (unat (b_start b)) (block_of b content))"
proof -
  note pb = proper_block_facts [OF assms(2)]
  let ?s = "unat (b_start b)" and ?part = "block_of b content"
  have len: "length ?part = unat (b_end b) - ?s" using length_block_of [OF assms(2,3)] pb(1) by simp
  have "drop ?s (splice file ?s ?part) = ?part @ drop (unat (b_end b)) file"
    using len pb(2) by (simp add: splice_def)
  also have "\<dots> = ?part @ drop (unat (b_end b)) content" using assms(1) by (simp add: fetched_from_def)
  also have "\<dots> = take (unat (b_end b) - ?s) (drop ?s content) @ drop (unat (b_end b) - ?s) (drop ?s content)"
    using pb(1,2) by (simp add: block_of_def)
  finally have "drop ?s (splice file ?s ?part) = drop ?s content" by (simp only: append_take_drop_id)
  then show ?thesis
    using assms(1,3) len pb(2) by (simp add: fetched_from_def length_splice)
qed

section \<open>A file to fetch\<close>

text \<open>What is synchronised, and where from.\<close>

record job =
  jb_uri :: string
  jb_hash :: string
  jb_res :: resource
  jb_content :: bytes
  jb_blocks :: "block list"
  jb_home :: string
  jb_fs :: file_system

definition job_path :: "job \<Rightarrow> string" where
  "job_path j = jb_home j @ jb_uri j"

definition file_at :: "file_system \<Rightarrow> string \<Rightarrow> bytes" where
  "file_at fs path = (case fs path of None \<Rightarrow> [] | Some c \<Rightarrow> c)"

definition job_ok :: "job \<Rightarrow> bool" where
  "job_ok j \<longleftrightarrow> clean_text (jb_uri j) \<and> clean_text (jb_hash j) \<and> length (jb_content j) < 2 ^ 32 \<and>
     tiles (jb_blocks j) 0 (of_nat (length (jb_content j))) \<and> jb_blocks j \<noteq> [] \<and>
     length (file_at (jb_fs j) (job_path j)) \<le> length (jb_content j)"

text \<open>A request for a block of it, and the answer.\<close>

definition request_wire :: "job \<Rightarrow> block \<Rightarrow> bytes" where
  "request_wire j b = wire_bytes (request_packet (jb_uri j) b)"

definition reply_wire :: "job \<Rightarrow> block \<Rightarrow> bytes" where
  "reply_wire j b = wire_bytes (reply_packet (jb_uri j) (jb_hash j) b (jb_res j) (block_of b (jb_content j)))"

section \<open>The packets\<close>

lemma job_block:
  assumes "job_ok j" and "k < length (jb_blocks j)"
  shows "proper_block (jb_blocks j ! k)" and "unat (b_end (jb_blocks j ! k)) \<le> length (jb_content j)"
    and "length (jb_blocks j) < 2 ^ 32" and "clean_text (jb_uri j)" and "clean_text (jb_hash j)"
    and "unat (b_end (jb_blocks j ! k)) < 2 ^ 63"
proof -
  have t: "tiles (jb_blocks j) 0 (of_nat (length (jb_content j)))" and small: "length (jb_content j) < 2 ^ 32"
    using assms(1) by (simp_all add: job_ok_def)
  have u: "unat (of_nat (length (jb_content j)) :: u64) = length (jb_content j)"
    using small by (intro unat_of_nat_u64) simp
  note m = tiles_mark [OF t assms(2)]
  show "proper_block (jb_blocks j ! k)" by (rule m)
  show le: "unat (b_end (jb_blocks j ! k)) \<le> length (jb_content j)"
    using m(3) u by (simp add: word_le_nat_alt)
  show "length (jb_blocks j) < 2 ^ 32" using tiles_length [OF t] u small by simp
  show "unat (b_end (jb_blocks j ! k)) < 2 ^ 63" using le small by simp
  show "clean_text (jb_uri j)" "clean_text (jb_hash j)" using assms(1) by (simp_all add: job_ok_def)
qed

lemma request_frame:
  assumes "job_ok j" and "k < length (jb_blocks j)"
  shows "pkt_frame (request_wire j (jb_blocks j ! k))"
proof -
  note jb = job_block [OF assms] and pb = proper_block_facts [OF job_block(1) [OF assms]]
  have p: "length (payload None) < 2 ^ 23" by (simp add: payload_def)
  note f = the_packet_facts [OF request_kvs_ok [OF jb(4) pb(5)] p, where ty = LAN_SYNC_TYPE_GET_RESOURCE]
  show ?thesis
    unfolding request_wire_def request_packet_def by (rule frame_of_wire [OF f(1,3)]) (use f(6) in simp)
qed

lemma reply_frame:
  assumes "job_ok j" and "k < length (jb_blocks j)"
  shows "pkt_frame (reply_wire j (jb_blocks j ! k))"
proof -
  note jb = job_block [OF assms] and pb = proper_block_facts [OF job_block(1) [OF assms]]
  have "length (payload (Some (block_of (jb_blocks j ! k) (jb_content j)))) < 2 ^ 23"
    using length_block_of [OF jb(1,2)] pb(3) by (simp add: payload_def)
  note f = the_packet_facts [OF reply_kvs_ok [OF jb(4,5)] this, where ty = LAN_SYNC_TYPE_REPLY_RESOURCE]
  note small = less_trans [OF f(6), of "2 ^ 31"]
  show ?thesis
    unfolding reply_wire_def reply_packet_def by (rule frame_of_wire [OF f(1,3) small]) simp
qed

text \<open>The server answers a request.\<close>

lemma request_served:
  assumes "job_ok j" and "open_conn h i peer nd" and "holds_file h (jb_uri j) (jb_hash j) (jb_res j) (jb_content j) nd"
    and "k < length (jb_blocks j)"
  shows "recv_tcp h i (request_wire j (jb_blocks j ! k) @ rest) n nd =
    Some (Inr (sent_to peer (reply_wire j (jb_blocks j ! k)) nd))"
  using serve_block [OF assms(2,3)] job_block [OF assms(1,4)] by (simp add: request_wire_def reply_wire_def)

section \<open>The client's copy\<close>

lemma stored_progress:
  assumes "job_ok j" and "lm_home (nd_rlm nd) = jb_home j" and "k < length (jb_blocks j)"
    and "fetched_from (mark 0 (jb_blocks j) (Suc k)) (jb_content j) (file_at (nd_fs nd) (job_path j))"
  shows "stored (jb_uri j) (jb_blocks j ! k) (block_of (jb_blocks j ! k) (jb_content j)) nd p =
      (if p = job_path j then Some (file_at (stored (jb_uri j) (jb_blocks j ! k)
         (block_of (jb_blocks j ! k) (jb_content j)) nd) p) else nd_fs nd p)"
    and "fetched_from (mark 0 (jb_blocks j) k) (jb_content j) (file_at (stored (jb_uri j) (jb_blocks j ! k)
      (block_of (jb_blocks j ! k) (jb_content j)) nd) (job_path j))"
proof -
  have t: "tiles (jb_blocks j) 0 (of_nat (length (jb_content j)))" using assms(1) by (simp add: job_ok_def)
  have "lm_home (nd_rlm nd) @ jb_uri j = job_path j" using assms(2) by (simp add: job_path_def)
  then have st: "stored (jb_uri j) (jb_blocks j ! k) part nd = (nd_fs nd)(job_path j \<mapsto>
      splice (file_at (nd_fs nd) (job_path j)) (unat (b_start (jb_blocks j ! k))) part)" for part
    by (simp add: stored_def file_at_def Let_def)
  then show "stored (jb_uri j) (jb_blocks j ! k) (block_of (jb_blocks j ! k) (jb_content j)) nd p =
      (if p = job_path j then Some (file_at (stored (jb_uri j) (jb_blocks j ! k)
         (block_of (jb_blocks j ! k) (jb_content j)) nd) p) else nd_fs nd p)"
    by (simp add: file_at_def)
  show "fetched_from (mark 0 (jb_blocks j) k) (jb_content j) (file_at (stored (jb_uri j) (jb_blocks j ! k)
      (block_of (jb_blocks j ! k) (jb_content j)) nd) (job_path j))"
    using fetched_block [OF _ job_block(1,2) [OF assms(1,3)]] assms(4) tiles_mark(1) [OF t assms(3)]
    by (simp add: mark_Suc st) (simp add: file_at_def)
qed

lemma scannable_home: "lm_home lm' = lm_home lm \<Longrightarrow> scannable lm' tree = scannable lm tree"
  by (simp add: scannable_def home_files_def)

lemma start_mark:
  assumes "job_ok j"
  shows "mark 0 (jb_blocks j) (length (jb_blocks j)) = length (jb_content j)"
proof -
  have "unat (of_nat (length (jb_content j)) :: u64) = length (jb_content j)"
    using assms by (intro unat_of_nat_u64) (simp add: job_ok_def)
  then show ?thesis
    using assms mark_end [of "jb_blocks j" 0 "of_nat (length (jb_content j))"] by (simp add: job_ok_def)
qed

section \<open>What is left to do\<close>

text \<open>Turns of an idle worker, and the order on the counts of what is left.\<close>

definition turns :: "daemon \<Rightarrow> nat" where
  "turns d = (if tm_worker (nd_tasks (dm_node d)) = AtTest then 1 else 0)"

definition less4 :: "((nat \<times> nat \<times> nat \<times> nat) \<times> (nat \<times> nat \<times> nat \<times> nat)) set" where
  "less4 = less_than <*lex*> less_than <*lex*> less_than <*lex*> less_than"

lemma wf_less4: "wf less4"
  by (auto simp: less4_def)

definition sample_link :: link where
  "sample_link = \<lparr>lk_cctx = 0, lk_server = NetAddr_default, lk_sctx = 0, lk_client = NetAddr_default\<rparr>"

end
