(* ===== verification/Late_Task.thy ===== *)
theory Late_Task
  imports File_Sync
begin

text \<open>
  What the queue of the worker and the books do to each other when a client fetches more than one
  resource: every answer queues tasks for every resource on the books, and a task that runs after its
  resource is complete brings a default entry back.
\<close>

section \<open>What an answer queues\<close>

lemma syncing_small: "n < DOWNLOAD_LIMIT \<Longrightarrow> (of_nat n :: u32) < of_nat DOWNLOAD_LIMIT"
  using unat_of_nat_u32 [of n] by (simp add: word_less_nat_alt DOWNLOAD_LIMIT_def)

lemma add_req_task_queues:
  assumes "nd_rsm nd = Manager m"
  shows "\<exists>new. add_req_task nd = Inr (nd\<lparr>nd_tasks := (nd_tasks nd)\<lparr>tasks := tasks (nd_tasks nd) @ new\<rparr>\<rparr>) \<and>
    distinct (map task_id new) \<and> (\<forall>t \<in> set new. task_body t = task_id t \<and> task_id t \<in> sm_keys (uriRs m)) \<and>
    (\<forall>uri rs. str_find uri (uriRs m) = Some rs \<longrightarrow> length (elems (rs_syncing rs)) < DOWNLOAD_LIMIT \<longrightarrow>
       uri \<in> task_id ` set (tasks (nd_tasks nd) @ new))"
proof -
  let ?step = "\<lambda>nd (uri, rs). (case getSyncingSize uri m of (n, rsm') \<Rightarrow>
      if n < of_nat DOWNLOAD_LIMIT
      then nd\<lparr>nd_tasks := snd (addTask \<lparr>task_id = uri, task_body = uri\<rparr> (nd_tasks nd))\<rparr> else nd)"
  let ?ts = "\<lambda>new. (nd_tasks nd)\<lparr>tasks := tasks (nd_tasks nd) @ new\<rparr>"
  have "\<exists>new. foldl ?step nd es = nd\<lparr>nd_tasks := ?ts new\<rparr> \<and>
      distinct (map task_id new) \<and> (\<forall>t \<in> set new. task_body t = task_id t \<and> task_id t \<in> sm_keys es) \<and>
      (\<forall>e \<in> set es. fst (getSyncingSize (fst e) m) < of_nat DOWNLOAD_LIMIT \<longrightarrow> fst e \<in> task_id ` set (tasks (?ts new)))"
    for es :: "(string, sync_rs) smap"
  proof (induction es rule: rev_induct)
    case Nil
    show ?case by (rule exI [of _ "[]"]) simp
  next
    case (snoc e es)
    then obtain new where new: "foldl ?step nd es = nd\<lparr>nd_tasks := ?ts new\<rparr>" "distinct (map task_id new)"
      "\<forall>t \<in> set new. task_body t = task_id t \<and> task_id t \<in> sm_keys es"
      "\<forall>e \<in> set es. fst (getSyncingSize (fst e) m) < of_nat DOWNLOAD_LIMIT \<longrightarrow> fst e \<in> task_id ` set (tasks (?ts new))" by blast
    let ?t = "\<lparr>task_id = fst e, task_body = fst e\<rparr> :: string abs_task"
    have keys: "sm_keys es \<subseteq> sm_keys (es @ [e])" "fst e \<in> sm_keys (es @ [e])" by (auto simp: sm_keys_def)
    show ?case
    proof (cases "fst (getSyncingSize (fst e) m) < of_nat DOWNLOAD_LIMIT \<and> fst e \<notin> task_id ` set (tasks (?ts new))")
      case True
      then have "foldl ?step nd (es @ [e]) = nd\<lparr>nd_tasks := ?ts (new @ [?t])\<rparr>"
        using new(1) by (simp add: case_prod_beta addTask_def list_ex_id del: set_append)
      then show ?thesis using new(2-4) keys True by (intro exI [of _ "new @ [?t]"]) auto
    next
      case False
      then have "foldl ?step nd (es @ [e]) = nd\<lparr>nd_tasks := ?ts new\<rparr>"
        using new(1) by (auto simp: case_prod_beta addTask_def list_ex_id simp del: set_append)
      then show ?thesis using new(2-4) keys False by (intro exI [of _ new]) auto
    qed
  qed
  then obtain new where new: "foldl ?step nd (uriRs m) = nd\<lparr>nd_tasks := ?ts new\<rparr>" "distinct (map task_id new)"
    "\<forall>t \<in> set new. task_body t = task_id t \<and> task_id t \<in> sm_keys (uriRs m)"
    "\<forall>e \<in> set (uriRs m). fst (getSyncingSize (fst e) m) < of_nat DOWNLOAD_LIMIT \<longrightarrow> fst e \<in> task_id ` set (tasks (?ts new))"
    by blast
  have "uri \<in> task_id ` set (tasks (?ts new))"
    if "str_find uri (uriRs m) = Some rs" "length (elems (rs_syncing rs)) < DOWNLOAD_LIMIT" for uri rs
  proof -
    have "(uri, rs) \<in> set (uriRs m)" using that(1) by (rule str_map.find_Some_in)
    moreover have "fst (getSyncingSize uri m) < of_nat DOWNLOAD_LIMIT"
      using that syncing_small by (simp add: getSyncingSize_def uri_entry_eq)
    ultimately show ?thesis using new(4) by force
  qed
  with new(1-3) assms show ?thesis
    by (intro exI [of _ new]) (simp add: add_req_task_def getRsSyncManager_def getAllUriRs_def)
qed

lemma add_req_task_ids:
  assumes "nd_rsm nd = Manager m"
  shows "\<exists>ts. add_req_task nd = Inr (nd\<lparr>nd_tasks := ts\<rparr>) \<and> task_id ` set (tasks (nd_tasks nd)) \<subseteq> task_id ` set (tasks ts) \<and>
    (\<forall>uri rs. str_find uri (uriRs m) = Some rs \<longrightarrow> length (elems (rs_syncing rs)) < DOWNLOAD_LIMIT \<longrightarrow>
       uri \<in> task_id ` set (tasks ts))"
proof -
  obtain new where new: "add_req_task nd = Inr (nd\<lparr>nd_tasks := (nd_tasks nd)\<lparr>tasks := tasks (nd_tasks nd) @ new\<rparr>\<rparr>)"
    "\<forall>uri rs. str_find uri (uriRs m) = Some rs \<longrightarrow> length (elems (rs_syncing rs)) < DOWNLOAD_LIMIT \<longrightarrow>
       uri \<in> task_id ` set (tasks (nd_tasks nd) @ new)"
    using add_req_task_queues [OF assms] by blast
  show ?thesis
    by (rule exI [of _ "(nd_tasks nd)\<lparr>tasks := tasks (nd_tasks nd) @ new\<rparr>"]) (use new in \<open>simp add: image_Un\<close>)
qed

section \<open>A task that comes too late\<close>

text \<open>The last range of a resource is settled: the entry goes. Any other range: the entry stays.\<close>

lemma last_range_settled:
  assumes "mgr_sorted m" and "str_find uri (uriRs m) = Some rs" and "rs_block rs = []" and "rs_syncing rs = Vec [rng]"
    and "is_range peer b rng" and "vr uri (rs_hash rs) l = Inr (ok, l')"
  shows "\<exists>m'. syncingRangeDoneAndValid vr peer uri b True (l, m) = Inr (l', m') \<and> str_find uri (uriRs m') = None"
proof -
  have e: "uri_entry uri m = rs" using assms(2) by (simp add: uri_entry_eq)
  have "erase_last (is_range peer b) (rs_syncing rs) = Inr (Some (rng, Vec []))"
    using assms(4,5) by (simp add: erase_last_def)
  let ?rs = "rs\<lparr>rs_syncing := Vec [], rs_success := True\<rparr>"
  from rs_done_found [OF \<open>erase_last (is_range peer b) (rs_syncing rs) = Inr (Some (rng, Vec []))\<close>] assms(3)
  have "rs_done peer b rs = Inr (?rs, True)" by simp
  then have "syncingRangeDoneAndValid vr peer uri b True (l, m) =
      Inr (l', m\<lparr>uriRs := str_erase uri (uriRs (set_entry uri ?rs m))\<rparr>)"
    using assms(6) by (simp add: syncingRangeDoneAndValid_def e)
  moreover have "sm_sorted str_less (uriRs (set_entry uri ?rs m))"
    using mgr_sorted_set [OF assms(1)] by (simp add: mgr_sorted_def)
  then have "str_find uri (str_erase uri (uriRs (set_entry uri ?rs m))) = None" by simp
  ultimately show ?thesis by simp
qed

lemma other_range_settled:
  assumes "mgr_sorted m" and "str_find uri (uriRs m) = Some rs" and "rs_block rs \<noteq> []"
    and "rng \<in> set (elems (rs_syncing rs))" and "is_range peer b rng"
  shows "\<exists>rs'. syncingRangeDoneAndValid vr peer uri b True (l, m) = Inr (l, set_entry uri rs' m)"
proof -
  have e: "uri_entry uri m = rs" using assms(2) by (simp add: uri_entry_eq)
  have "rs_syncing rs \<noteq> NullVec" using assms(4) by auto
  from erase_last_found [where P = "is_range peer b", OF this assms(4,5)]
  obtain r w where "erase_last (is_range peer b) (rs_syncing rs) = Inr (Some (r, w))" by blast
  from rs_done_found [OF this] assms(3) have "rs_done peer b rs = Inr (rs\<lparr>rs_syncing := w\<rparr>, False)" by simp
  then show ?thesis using e by (auto simp: syncingRangeDoneAndValid_def)
qed

lemma late_run:
  assumes "nd_rsm nd = Manager m" and "str_find uri (uriRs m) = None" and "getAllTcpSession (nd_fw nd) = Inr idx"
  shows "\<exists>m'. ReqRsTask_run h uri nd = Inr (nd\<lparr>nd_rsm := Manager m'\<rparr>) \<and> regSyncRs p uri hash sz m' = Inl Uninitialised"
proof -
  have e: "uri_entry uri m = SyncRs_default" using assms(2) by (simp add: uri_entry_eq)
  have "elems (rs_owner SyncRs_default) = []" by (simp add: SyncRs_default_def)
  then have "ReqRsTask_run h uri nd = Inr (nd\<lparr>nd_rsm := Manager (set_entry uri SyncRs_default (set_entry uri SyncRs_default
      (set_entry uri SyncRs_default (set_entry uri SyncRs_default m))))\<rparr>)"
    using assms(1,3) e
    by (simp add: ReqRsTask_run_def getRsSyncManager_def getOwnerSize_def getBlockSize_def getSyncingSize_def Let_def)
  moreover have "regSyncRs p uri hash sz (set_entry uri SyncRs_default m') = Inl Uninitialised" for m'
    by (simp add: regSyncRs_def updateSyncRs_def SyncRs_default_def)
  ultimately show ?thesis by blast
qed

section \<open>Properties\<close>

text \<open>
  C37: two resources at a time are one too many. While the last block of one resource is on its way, the
  answer for a block of another one queues a task for the first one again; then its block arrives,
  the file is complete and its entry goes; and the queued task, when it runs, enters it once more, with
  an indeterminate size, which the next table that announces a new version of the file reads.
\<close>

theorem late_task_poisons_books:
  assumes "open_conn h i peer nd" and "nd_rsm nd = Manager m" and "mgr_sorted m" and "getAllTcpSession (nd_fw nd) = Inr idx"
    and "can_store h other nd" and "can_store h uri nd" and "uri \<noteq> other" and "host_law h"
    and "scannable (nd_rlm nd) (h_tree h (stored uri b part (nd\<lparr>nd_fs := stored other b' part' nd\<rparr>)))"
    and "str_find other (uriRs m) = Some rs'" and "rs_block rs' \<noteq> []" and "rng' \<in> set (elems (rs_syncing rs'))"
    and "is_range peer b' rng'" and "str_find uri (uriRs m) = Some rs" and "rs_block rs = []" and "rs_syncing rs = Vec [rng]"
    and "is_range peer b rng" and "clean_text uri" and "clean_text other" and "clean_text hash" and "clean_text hash'"
    and "proper_block b" and "proper_block b'" and "unat (b_end b) < 2 ^ 63" and "unat (b_end b') < 2 ^ 63"
    and "length part = unat (b_end b - b_start b)" and "length part' = unat (b_end b' - b_start b')"
  shows "\<exists>nd1 nd2 m2 m3.
    recv_tcp h i (wire_bytes (reply_packet other hash' b' r' part') @ rest) n nd = Some (Inr nd1) \<and>
    recv_tcp h i (wire_bytes (reply_packet uri hash b r part) @ rest) n nd1 = Some (Inr nd2) \<and>
    uri \<in> task_id ` set (tasks (nd_tasks nd2)) \<and> nd_rsm nd2 = Manager m2 \<and> str_find uri (uriRs m2) = None \<and>
    ReqRsTask_run h uri nd2 = Inr (nd2\<lparr>nd_rsm := Manager m3\<rparr>) \<and> regSyncRs p uri new_hash sz m3 = Inl Uninitialised"
proof -
  let ?vr = "\<lambda>nd. validRes (host_digester h nd) (h_cwd h) (h_tree h nd)"
  let ?fs1 = "stored other b' part' nd"
  obtain rs1 where set1: "syncingRangeDoneAndValid (?vr ?fs1) peer other b' True (nd_rlm nd, m) = Inr (nd_rlm nd, set_entry other rs1 m)"
    using other_range_settled [OF assms(3,10-13), where vr = "?vr ?fs1" and l = "nd_rlm nd"] by blast
  let ?m1 = "set_entry other rs1 m"
  let ?nd1 = "nd\<lparr>nd_fs := ?fs1, nd_dirs := dirs_of h other nd, nd_rsm := Manager ?m1\<rparr>"
  obtain ts where ts: "add_req_task ?nd1 = Inr (?nd1\<lparr>nd_tasks := ts\<rparr>)" and queued: "uri \<in> task_id ` set (tasks ts)"
    using add_req_task_ids [of ?nd1 ?m1] assms(7,14,16) by (auto simp: DOWNLOAD_LIMIT_def)
  let ?nd1' = "?nd1\<lparr>nd_tasks := ts\<rparr>"
  have one: "recv_tcp h i (wire_bytes (reply_packet other hash' b' r' part') @ rest) n nd = Some (Inr ?nd1')"
    using store_block_then [OF assms(1,5,19,21,23,25,27,2) set1] ts by simp
  have oc: "open_conn h i peer ?nd1'" and cs: "can_store h uri ?nd1'"
    using assms(1) can_store_grow [OF assms(6), of ?nd1'] dirs_of_grow by (simp_all add: open_conn_def nd_fw_def)
  let ?fs2 = "stored uri b part ?nd1'"
  have scan: "scannable (nd_rlm nd) (h_tree h ?fs2)" using assms(9) by (simp add: stored_def)
  obtain ok lm where v: "?vr ?fs2 uri (rs_hash rs) (nd_rlm nd) = Inr (ok, lm)"
    using validRes_result [OF host_digest_law [OF assms(8)] scan] by blast
  have "mgr_sorted ?m1" "str_find uri (uriRs ?m1) = Some rs" using assms(3,7,14) by simp_all
  from last_range_settled [where vr = "?vr ?fs2", OF this assms(15,16,17) v] obtain m2
    where set2: "syncingRangeDoneAndValid (?vr ?fs2) peer uri b True (nd_rlm nd, ?m1) = Inr (lm, m2)"
      and gone: "str_find uri (uriRs m2) = None" by blast
  let ?nd2 = "?nd1'\<lparr>nd_fs := ?fs2, nd_dirs := dirs_of h uri ?nd1', nd_rlm := lm, nd_rsm := Manager m2\<rparr>"
  obtain ts2 where ts2: "add_req_task ?nd2 = Inr (?nd2\<lparr>nd_tasks := ts2\<rparr>)" and keep: "uri \<in> task_id ` set (tasks ts2)"
    using add_req_task_ids [of ?nd2 m2] queued by auto
  let ?nd2' = "?nd2\<lparr>nd_tasks := ts2\<rparr>"
  have two: "recv_tcp h i (wire_bytes (reply_packet uri hash b r part) @ rest) n ?nd1' = Some (Inr ?nd2')"
    using store_block_then [OF oc cs assms(18,20,22,24,26), of ?m1 lm m2 r rest n] set2 ts2 by simp
  have nd2: "nd_rsm ?nd2' = Manager m2" "getAllTcpSession (nd_fw ?nd2') = Inr idx" "uri \<in> task_id ` set (tasks (nd_tasks ?nd2'))"
    using assms(4) keep by (simp_all add: nd_fw_def)
  obtain m3 where run: "ReqRsTask_run h uri ?nd2' = Inr (?nd2'\<lparr>nd_rsm := Manager m3\<rparr>)"
    and fault: "regSyncRs p uri new_hash sz m3 = Inl Uninitialised"
    using late_run [OF nd2(1) gone nd2(2)] by blast
  show ?thesis
    by (intro exI [of _ ?nd1'] exI [of _ ?nd2'] exI [of _ m2] exI [of _ m3] conjI) (rule one two nd2 gone run fault)+
qed

text \<open>A client that fetches \<open>/a\<close>, of which a block is free, and the last block of \<open>/b\<close>.\<close>

definition two_books :: sync_manager where
  "two_books = \<lparr>uriRs = [(''/a'', sample_rs [SyncingRange_new NetAddr_default (Block 0 2) 0]),
     (''/b'', (sample_rs [SyncingRange_new NetAddr_default (Block 0 2) 0])\<lparr>rs_block := []\<rparr>)]\<rparr>"

theorem late_task_poisons_books_witness:
  "\<exists>nd1 nd2 m2 m3.
    recv_tcp sample_host 0 (wire_bytes (reply_packet ''/a'' ''00'' (Block 0 2) sample_resource ''he'') @ []) 0
      (sample_client\<lparr>nd_rsm := Manager two_books\<rparr>) = Some (Inr nd1) \<and>
    recv_tcp sample_host 0 (wire_bytes (reply_packet ''/b'' ''00'' (Block 0 2) sample_resource ''he'') @ []) 0 nd1 = Some (Inr nd2) \<and>
    ''/b'' \<in> task_id ` set (tasks (nd_tasks nd2)) \<and> nd_rsm nd2 = Manager m2 \<and> str_find ''/b'' (uriRs m2) = None \<and>
    ReqRsTask_run sample_host ''/b'' nd2 = Inr (nd2\<lparr>nd_rsm := Manager m3\<rparr>) \<and>
    regSyncRs NetAddr_default ''/b'' ''11'' 9 m3 = Inl Uninitialised"
proof -
  let ?nd = "sample_client\<lparr>nd_rsm := Manager two_books\<rparr>"
  have oc: "open_conn sample_host 0 NetAddr_default ?nd" using sample_open(2) by (simp add: open_conn_def nd_fw_def)
  have m: "nd_rsm ?nd = Manager two_books" by simp
  have sorted: "mgr_sorted two_books" by (simp add: mgr_sorted_def two_books_def str_less_def)
  have idx: "getAllTcpSession (nd_fw ?nd) = Inr [(NetAddr_default, 0)]"
    by (simp add: nd_fw_def sample_client_def sample_node_def getAllTcpSession_def one_conn_def ctx_new_def net_fw_init_def
        Let_def ctx_getPeer_def ctx_at_def)
  have "parent_path (absolute ''/'' ''/h/b'') = ''/h''" by code_simp
  then have cs: "can_store sample_host ''/a'' ?nd" "can_store sample_host ''/b'' ?nd"
    using sample_store by (simp_all add: can_store_def parent_of_def sample_client_def sample_node_def sample_host_def)
  have home: "lm_home (nd_rlm ?nd) = ''/h''" by (simp add: sample_client_def sample_node_def)
  have scan: "scannable (nd_rlm ?nd) (h_tree sample_host fs)" for fs
    using sample_scannable scannable_home [of "nd_rlm ?nd" "RsLocalManager_new ''/h''"] home
    by (simp add: sample_host_def RsLocalManager_new_def)
  have find: "str_find ''/a'' (uriRs two_books) = Some (sample_rs [SyncingRange_new NetAddr_default (Block 0 2) 0])"
    "str_find ''/b'' (uriRs two_books) = Some ((sample_rs [SyncingRange_new NetAddr_default (Block 0 2) 0])\<lparr>rs_block := []\<rparr>)"
    by (simp_all add: two_books_def str_less_def)
  have ne: "''/b'' \<noteq> ''/a''" by simp
  have cl: "clean_text ''/b''" by (simp add: clean_text_def)
  show ?thesis
    by (rule late_task_poisons_books [where rng' = "SyncingRange_new NetAddr_default (Block 0 2) 0"
          and rng = "SyncingRange_new NetAddr_default (Block 0 2) 0", OF oc m sorted idx cs ne sample_host_law scan find(1) _ _ _ find(2) _ _ _ cl sample_block(2,3,3,1,1)])
      (simp_all add: sample_rs_def)
qed

end
