(* ===== verification/Batch_Sync.thy ===== *)
theory Batch_Sync
  imports File_Sync Late_Task
begin

text \<open>
  The synchronisation of any number of files over one connection: the worker asks for blocks of all of
  them, up to five blocks of each at a time, while answers to earlier requests are on their way. The
  invariant ties the books, the files, the queue and the bytes under way on both sides together;
  every handler keeps it.
\<close>

section \<open>What is fetched, and what is on its way\<close>

text \<open>
  A callback handles 1025 packets at most and leaves the rest in its buffer, so the files are
  limited to as many as can have five blocks each under way within this number. Entries of empty
  files are apart: they get into the books, and nothing of them is ever under way.
\<close>

record plan =
  pl_jobs :: "job list"
  pl_void :: "resource set"
  pl_home :: string
  pl_fs :: file_system

abbreviation jobs :: "plan \<Rightarrow> job set" where
  "jobs pl \<equiv> set (pl_jobs pl)"

definition void_uris :: "plan \<Rightarrow> string set" where
  "void_uris pl = {u. \<exists>r \<in> pl_void pl. arr_str (r_uri r) = Inr u}"

definition plan_ok :: "plan \<Rightarrow> bool" where
  "plan_ok pl \<longleftrightarrow> jb_uri ` jobs pl \<inter> void_uris pl = {} \<and> distinct (map jb_uri (pl_jobs pl)) \<and> length (pl_jobs pl) * DOWNLOAD_LIMIT \<le> READ_LIMIT + 1 \<and>
     (\<forall>j \<in> jobs pl. job_ok j \<and> jb_home j = pl_home pl \<and> jb_fs j = pl_fs pl)"

text \<open>
  How many blocks of each file are free, the blocks asked for, and those the server has answered for,
  each in the order of the connection.
\<close>

record flow =
  fl_free :: "job \<Rightarrow> nat"
  fl_asks :: "(job \<times> nat) list"
  fl_answers :: "(job \<times> nat) list"

definition on_way :: "job \<Rightarrow> flow \<Rightarrow> nat list" where
  "on_way j f = map snd (filter (\<lambda>x. fst x = j) (fl_answers f @ fl_asks f))"

definition missing :: "job \<Rightarrow> flow \<Rightarrow> nat" where
  "missing j f = fl_free f j + length (on_way j f)"

text \<open>The blocks of a file are asked for from the last to the first.\<close>

definition flow_ok :: "plan \<Rightarrow> flow \<Rightarrow> bool" where
  "flow_ok pl f \<longleftrightarrow> fst ` set (fl_answers f @ fl_asks f) \<subseteq> jobs pl \<and> (\<forall>j. j \<notin> jobs pl \<longrightarrow> fl_free f j = 0) \<and>
     (\<forall>j \<in> jobs pl. missing j f \<le> length (jb_blocks j) \<and> on_way j f = rev [fl_free f j ..< missing j f] \<and>
        missing j f \<le> fl_free f j + DOWNLOAD_LIMIT)"

text \<open>The steps of the flow: a block is asked for, some requests are answered, an answer is stored.\<close>

definition asks_for :: "job \<Rightarrow> flow \<Rightarrow> flow" where
  "asks_for j f = f\<lparr>fl_free := (fl_free f)(j := fl_free f j - 1), fl_asks := fl_asks f @ [(j, fl_free f j - 1)]\<rparr>"

definition answered :: "nat \<Rightarrow> flow \<Rightarrow> flow" where
  "answered k f = f\<lparr>fl_asks := drop k (fl_asks f), fl_answers := fl_answers f @ take k (fl_asks f)\<rparr>"

definition arrived :: "nat \<Rightarrow> flow \<Rightarrow> flow" where
  "arrived k f = f\<lparr>fl_answers := drop k (fl_answers f)\<rparr>"

lemma on_way_asks_for [simp]: "on_way i (asks_for j f) = (if i = j then on_way i f @ [fl_free f j - 1] else on_way i f)"
  by (simp add: on_way_def asks_for_def)

lemma missing_asks_for [simp]: "0 < fl_free f j \<Longrightarrow> missing i (asks_for j f) = missing i f"
  unfolding missing_def by (simp add: asks_for_def) (simp add: on_way_def)

lemma on_way_answered [simp]: "on_way i (answered k f) = on_way i f" "missing i (answered k f) = missing i f"
  "fl_free (answered k f) = fl_free f"
proof -
  show way: "on_way i (answered k f) = on_way i f"
    by (simp add: on_way_def answered_def flip: filter_append map_append)
  show "fl_free (answered k f) = fl_free f" by (simp add: answered_def)
  then show "missing i (answered k f) = missing i f" using way by (simp add: missing_def)
qed

lemma on_way_arrived:
  assumes "fl_answers f = (j, n) # xs"
  shows "on_way i (arrived 1 f) = (if i = j then tl (on_way i f) else on_way i f)" and "on_way j f = n # on_way j (arrived 1 f)"
    and "missing i (arrived 1 f) = (if i = j then missing i f - 1 else missing i f)" and "fl_free (arrived k f) = fl_free f"
  using assms by (auto simp: on_way_def arrived_def missing_def)

lemma arrived_Suc: "arrived (Suc k) f = arrived k (arrived 1 f)"
  by (simp add: arrived_def drop_Suc tl_drop)

lemma answered_flow_ok: "flow_ok pl f \<Longrightarrow> flow_ok pl (answered k f)"
proof -
  assume ok: "flow_ok pl f"
  have eq: "set (fl_answers (answered k f) @ fl_asks (answered k f)) = set (fl_answers f @ fl_asks f)"
    using set_append [of "take k (fl_asks f)" "drop k (fl_asks f)"] by (auto simp: answered_def dest: in_set_takeD in_set_dropD)
  from ok show ?thesis unfolding flow_ok_def on_way_answered eq .
qed

lemma asks_for_flow_ok:
  assumes "flow_ok pl f" and "j \<in> jobs pl" and "0 < fl_free f j" and "length (on_way j f) < DOWNLOAD_LIMIT"
  shows "flow_ok pl (asks_for j f)"
proof -
  obtain k where k: "fl_free f j = Suc k" using assms(3) gr0_conv_Suc by blast
  have "Suc k \<le> missing j f" by (simp add: missing_def k)
  then have "rev [Suc k ..< missing j f] @ [k] = rev [k ..< missing j f]" by (subst (2) upt_conv_Cons) simp_all
  then show ?thesis using assms k
    unfolding flow_ok_def by (auto simp: missing_asks_for) (auto simp: asks_for_def)
qed

lemma arrived_flow_ok:
  assumes "flow_ok pl f" and "fl_answers f = (j, n) # xs"
  shows "flow_ok pl (arrived 1 f)" and "j \<in> jobs pl" and "n = missing j (arrived 1 f)" and "n < length (jb_blocks j)"
    and "fl_free f j \<le> n" and "missing j f = Suc n"
proof -
  note w = on_way_arrived [OF assms(2)]
  show j: "j \<in> jobs pl" using assms by (force simp: flow_ok_def)
  have o: "on_way j f = rev [fl_free f j ..< missing j f]" and le: "missing j f \<le> length (jb_blocks j)"
    using assms(1) j by (simp_all add: flow_ok_def)
  have "fl_free f j < missing j f" using w(2) by (simp add: missing_def)
  then obtain m where m: "missing j f = Suc m" "fl_free f j \<le> m" using less_imp_Suc_add by (metis less_Suc_eq_le Suc_pred less_nat_zero_code not_gr_zero)
  then have e: "n # on_way j (arrived 1 f) = m # rev [fl_free f j ..< m]" using o w(2) by simp
  then show "n = missing j (arrived 1 f)" using w(3) [of j] m(1) by simp
  show "n < length (jb_blocks j)" "fl_free f j \<le> n" "missing j f = Suc n" using e m le by simp_all
  have "fst ` set (fl_answers (arrived 1 f) @ fl_asks (arrived 1 f)) \<subseteq> jobs pl"
    using assms unfolding flow_ok_def by (simp add: arrived_def)
  moreover have "missing i (arrived 1 f) \<le> length (jb_blocks i) \<and>
      on_way i (arrived 1 f) = rev [fl_free f i ..< missing i (arrived 1 f)] \<and> missing i (arrived 1 f) \<le> fl_free f i + DOWNLOAD_LIMIT"
    if "i \<in> jobs pl" for i
  proof (cases "i = j")
    case True
    have "missing j f \<le> fl_free f j + DOWNLOAD_LIMIT" using assms(1) j by (simp add: flow_ok_def)
    then show ?thesis using e m(1) le w(2) w(3) [of j] True by simp
  next
    case False
    then show ?thesis using assms(1) that w(1) [of i] w(3) [of i] by (simp add: flow_ok_def)
  qed
  ultimately show "flow_ok pl (arrived 1 f)" using assms(1) unfolding flow_ok_def w(4) by simp
qed

section \<open>The client\<close>

text \<open>
  Its machines store what they are told to and draw the one owner there is; whatever has arrived of
  the files, a validation can look through the home.
\<close>

definition part_of :: "plan \<Rightarrow> file_system \<Rightarrow> bool" where
  "part_of pl fs \<longleftrightarrow> (\<forall>p. p \<notin> job_path ` jobs pl \<longrightarrow> fs p = pl_fs pl p) \<and>
     (\<forall>j \<in> jobs pl. length (file_at fs (job_path j)) \<le> length (jb_content j))"

definition client_can :: "(host \<Rightarrow> bool) \<Rightarrow> link \<Rightarrow> plan \<Rightarrow> node \<Rightarrow> bool" where
  "client_can Hc lk pl nd \<longleftrightarrow>
     (\<forall>h. Hc h \<longrightarrow> open_conn h (lk_cctx lk) (lk_server lk) nd \<and> h_draw h 1 = 0 \<and> host_law h \<and>
        (\<forall>j \<in> jobs pl. can_store h (jb_uri j) nd) \<and>
        (\<forall>fs. part_of pl fs \<longrightarrow> scannable (nd_rlm nd) (h_tree h fs))) \<and>
     elems (tcp_ctx (nd_fw nd)) = [lk_cctx lk] \<and> lm_home (nd_rlm nd) = pl_home pl"

lemma part_of_start: "plan_ok pl \<Longrightarrow> part_of pl (pl_fs pl)"
  by (auto simp: part_of_def plan_ok_def job_ok_def)

text \<open>
  The books: the entry of a file has its free blocks and its ranges under way, all from the one
  server. A file that is complete has no entry, or one that a late task has made up; a single file
  has no late tasks.
\<close>

definition job_entry :: "link \<Rightarrow> plan \<Rightarrow> job \<Rightarrow> flow \<Rightarrow> sync_rs option \<Rightarrow> bool" where
  "job_entry lk pl j f e \<longleftrightarrow>
     (if missing j f = 0 then e = None \<or> e = Some SyncRs_default \<and> pl_jobs pl \<noteq> [j]
      else \<exists>rs. e = Some rs \<and> rs_block rs = take (fl_free f j) (jb_blocks j) \<and> elems (rs_owner rs) = [lk_server lk] \<and>
        map sr_block (elems (rs_syncing rs)) = map ((!) (jb_blocks j)) (on_way j f) \<and>
        (\<forall>r \<in> set (elems (rs_syncing rs)). sr_peer r = lk_server lk))"

text \<open>The entry of an empty file: its one block is empty, free or booked.\<close>

definition void_entry :: "link \<Rightarrow> sync_rs option \<Rightarrow> bool" where
  "void_entry lk e \<longleftrightarrow> (\<forall>rs. e = Some rs \<longrightarrow> rs_block rs = [] \<or>
     rs_block rs = [Block 0 0] \<and> elems (rs_owner rs) = [lk_server lk])"

definition all_books :: "link \<Rightarrow> plan \<Rightarrow> flow \<Rightarrow> sync_manager \<Rightarrow> bool" where
  "all_books lk pl f m \<longleftrightarrow> mgr_sorted m \<and> sm_keys (uriRs m) \<subseteq> jb_uri ` jobs pl \<union> void_uris pl \<and>
     (\<forall>u \<in> void_uris pl. void_entry lk (str_find u (uriRs m))) \<and>
     (\<forall>j \<in> jobs pl. job_entry lk pl j f (str_find (jb_uri j) (uriRs m)))"

definition job_file :: "job \<Rightarrow> nat \<Rightarrow> file_system \<Rightarrow> bool" where
  "job_file j k fs \<longleftrightarrow> fetched_from (mark 0 (jb_blocks j) k) (jb_content j) (file_at fs (job_path j)) \<and>
     (k = 0 \<longrightarrow> fs (job_path j) = Some (jb_content j))"

definition all_files :: "plan \<Rightarrow> flow \<Rightarrow> file_system \<Rightarrow> bool" where
  "all_files pl f fs \<longleftrightarrow> (\<forall>p. p \<notin> job_path ` jobs pl \<longrightarrow> fs p = pl_fs pl p) \<and>
     (\<forall>j \<in> jobs pl. job_file j (missing j f) fs)"

text \<open>
  A file of which nothing is under way has a task, unless it is complete. If there is only one file
  to fetch, it has either a task or a block under way.
\<close>

definition duties :: "string task_manager \<Rightarrow> string list" where
  "duties m = map task_id (current m @ tasks m)"

definition worker_ok :: "plan \<Rightarrow> string task_manager \<Rightarrow> bool" where
  "worker_ok pl m \<longleftrightarrow> \<not> stopFlg m \<and> tm_worker m \<noteq> Exited \<and> set (duties m) \<subseteq> jb_uri ` jobs pl \<union> void_uris pl \<and>
     (\<forall>t \<in> set (current m @ tasks m). task_body t = task_id t)"

definition all_tasks :: "plan \<Rightarrow> flow \<Rightarrow> string task_manager \<Rightarrow> bool" where
  "all_tasks pl f m \<longleftrightarrow> worker_ok pl m \<and>
     (\<forall>j \<in> jobs pl. 0 < fl_free f j \<longrightarrow> on_way j f = [] \<longrightarrow> jb_uri j \<in> set (duties m)) \<and>
     (\<forall>j. pl_jobs pl = [j] \<longrightarrow> count_list (duties m) (jb_uri j) + length (on_way j f) = (if missing j f = 0 then 0 else 1))"

definition client_holds :: "(host \<Rightarrow> bool) \<Rightarrow> link \<Rightarrow> plan \<Rightarrow> flow \<Rightarrow> node \<Rightarrow> bool" where
  "client_holds Hc lk pl f nd \<longleftrightarrow> flow_ok pl f \<and> client_can Hc lk pl nd \<and> (\<exists>m. nd_rsm nd = Manager m \<and> all_books lk pl f m) \<and>
     all_files pl f (nd_fs nd) \<and> all_tasks pl f (nd_tasks nd)"

lemma client_can_frame:
  assumes "client_can Hc lk pl nd" and "ctx_heap (nd_fw nd') = ctx_heap (nd_fw nd)" and "tcp_ctx (nd_fw nd') = tcp_ctx (nd_fw nd)"
    and "nd_dirs nd \<subseteq> nd_dirs nd'" and "lm_home (nd_rlm nd') = lm_home (nd_rlm nd)"
  shows "client_can Hc lk pl nd'"
  using assms scannable_home [OF assms(5)] can_store_grow [OF _ assms(5,4)]
  by (auto simp: client_can_def open_conn_def)

lemma same_uri: "plan_ok pl \<Longrightarrow> i \<in> jobs pl \<Longrightarrow> j \<in> jobs pl \<Longrightarrow> jb_uri i = jb_uri j \<longleftrightarrow> i = j"
  by (auto simp: plan_ok_def distinct_map inj_on_eq_iff)

lemma same_path: "plan_ok pl \<Longrightarrow> i \<in> jobs pl \<Longrightarrow> j \<in> jobs pl \<Longrightarrow> job_path i = job_path j \<longleftrightarrow> i = j"
  using same_uri by (auto simp: plan_ok_def job_path_def)

text \<open>What changes the books of one file only.\<close>

lemma books_change:
  assumes "plan_ok pl" and "all_books lk pl f m" and "j \<in> jobs pl" and "mgr_sorted m'"
    and "\<And>u. u \<noteq> jb_uri j \<Longrightarrow> str_find u (uriRs m') = str_find u (uriRs m)"
    and "\<And>i. i \<noteq> j \<Longrightarrow> fl_free f' i = fl_free f i \<and> on_way i f' = on_way i f"
    and "job_entry lk pl j f' (str_find (jb_uri j) (uriRs m'))"
  shows "all_books lk pl f' m'"
proof -
  have void: "str_find u (uriRs m') = str_find u (uriRs m)" if "u \<in> void_uris pl" for u
    using assms(1,3,5) that by (auto simp: plan_ok_def)
  have "u \<in> jb_uri ` jobs pl \<union> void_uris pl" if "u \<in> sm_keys (uriRs m')" for u
  proof (cases "u = jb_uri j")
    case False
    then have "u \<in> sm_keys (uriRs m)"
      using that assms(2,4,5) by (simp add: str_map.keys_find mgr_sorted_def all_books_def)
    then show ?thesis using assms(2) by (auto simp: all_books_def)
  qed (use assms(3) in simp)
  moreover have "job_entry lk pl i f' (str_find (jb_uri i) (uriRs m'))" if i: "i \<in> jobs pl" for i
  proof (cases "i = j")
    case False
    then have "missing i f' = missing i f" using assms(6) by (simp add: missing_def)
    then show ?thesis
      using assms(2,5,6) i False same_uri [OF assms(1) i assms(3)] by (simp add: all_books_def job_entry_def)
  qed (use assms(7) in simp)
  moreover have "\<forall>u \<in> void_uris pl. void_entry lk (str_find u (uriRs m'))" using assms(2) void by (simp add: all_books_def)
  ultimately show ?thesis using assms(4) by (auto simp: all_books_def)
qed

lemma books_void_change:
  assumes "plan_ok pl" and "all_books lk pl f m" and "v \<in> void_uris pl" and "void_entry lk (str_find v (uriRs m'))"
    and "mgr_sorted m'" and "\<And>u. u \<noteq> v \<Longrightarrow> str_find u (uriRs m') = str_find u (uriRs m)"
  shows "all_books lk pl f m'"
proof -
  have ne: "jb_uri j \<noteq> v" if "j \<in> jobs pl" for j using assms(1,3) that by (auto simp: plan_ok_def)
  have "u \<in> jb_uri ` jobs pl \<union> void_uris pl" if "u \<in> sm_keys (uriRs m')" for u
  proof (cases "u = v")
    case False
    then have "u \<in> sm_keys (uriRs m)"
      using that assms(2,5,6) by (simp add: str_map.keys_find mgr_sorted_def all_books_def)
    then show ?thesis using assms(2) by (auto simp: all_books_def)
  qed (use assms(3) in simp)
  moreover have "void_entry lk (str_find u (uriRs m'))" if "u \<in> void_uris pl" for u
    using assms(2,4,6) that by (cases "u = v") (simp_all add: all_books_def)
  ultimately show ?thesis using assms(2,5,6) ne by (auto simp: all_books_def)
qed

lemma books_keep: "all_books lk pl f m \<Longrightarrow> all_books lk pl (answered k f) m"
  by (simp add: all_books_def job_entry_def)

section \<open>A task\<close>

lemma count_zero: "n < 2 ^ 32 \<Longrightarrow> (of_nat n :: u32) = 0 \<longleftrightarrow> n = 0"
  using unat_of_nat_u32 [of n] by (auto simp: unat_eq_zero [symmetric])

lemma limit_reached: "n < 2 ^ 32 \<Longrightarrow> of_nat DOWNLOAD_LIMIT \<le> (of_nat n :: u32) \<longleftrightarrow> DOWNLOAD_LIMIT \<le> n"
  using unat_of_nat_u32 [of n] by (simp add: word_le_nat_alt DOWNLOAD_LIMIT_def)

text \<open>A task looks at the entry of its resource and puts it back; it may ask for the last free block.\<close>

definition touched :: "string \<Rightarrow> sync_manager \<Rightarrow> sync_manager" where
  "touched u m = set_entry u (uri_entry u m) m"

lemma set_set_entry [simp]: "set_entry u b (set_entry u a m) = set_entry u b m"
  by (simp add: set_entry_def)

lemma task_idles:
  assumes "nd_rsm nd = Manager m" and "getAllTcpSession (nd_fw nd) = Inr idx"
    and "let rs = uri_entry u m in elems (rs_owner rs) = [] \<or> rs_block rs = [] \<or>
      of_nat DOWNLOAD_LIMIT \<le> (of_nat (length (elems (rs_syncing rs))) :: u32)"
  shows "ReqRsTask_run h u nd = Inr (nd\<lparr>nd_rsm := Manager (touched u m)\<rparr>)"
  using assms
  by (auto simp: ReqRsTask_run_def getRsSyncManager_def getOwnerSize_def getBlockSize_def getSyncingSize_def Let_def touched_def)

lemma task_asks:
  assumes "nd_rsm nd = Manager m" and "open_conn h i peer nd" and "elems (tcp_ctx (nd_fw nd)) = [i]" and "h_draw h 1 = 0"
    and rs: "rs_block (uri_entry u m) = bs @ [b]" "elems (rs_owner (uri_entry u m)) = [peer]"
    and small: "length bs < 2 ^ 32 - 1" "length (elems (rs_syncing (uri_entry u m))) < DOWNLOAD_LIMIT"
    and b: "proper_block b" and u: "clean_text u"
  shows "ReqRsTask_run h u nd = Inr (sent_to peer (wire_bytes (request_packet u b)) (nd\<lparr>nd_rsm := Manager (set_entry u
    ((uri_entry u m)\<lparr>rs_block := bs, rs_syncing := push_back (rs_syncing (uri_entry u m)) (SyncingRange_new peer b (h_time h))\<rparr>) m)\<rparr>))"
proof -
  let ?rs = "(uri_entry u m)\<lparr>rs_block := bs, rs_syncing := push_back (rs_syncing (uri_entry u m)) (SyncingRange_new peer b (h_time h))\<rparr>"
  let ?m = "set_entry u ?rs m"
  note pb = proper_block_facts [OF b]
  have idx: "getAllTcpSession (nd_fw nd) = Inr [(peer, i)]"
    using assms(2,3) by (simp add: getAllTcpSession_def open_conn_def ctx_getPeer_def ctx_at_def)
  have req: "regReqSyncRsAuto peer u (h_time h) (set_entry u (uri_entry u m) m) = (b, ?m)"
    using rs by (simp add: regReqSyncRsAuto_def rs_request_def Let_def)
  have cnt: "(of_nat (length (rs_block (uri_entry u m))) :: u32) \<noteq> 0"
    using small(1) rs(1) count_zero [of "length (rs_block (uri_entry u m))"] by simp
  have lim: "\<not> of_nat DOWNLOAD_LIMIT \<le> (of_nat (length (elems (rs_syncing (uri_entry u m)))) :: u32)"
    using small(2) by (subst limit_reached) (simp_all add: DOWNLOAD_LIMIT_def)
  have be: "b_end b \<noteq> 0" using pb(2) by auto
  have "open_conn h i peer (nd\<lparr>nd_rsm := Manager ?m\<rparr>)" using assms(2) by (simp add: open_conn_def nd_fw_def)
  then have "sendRsReq u (Some i) b (nd\<lparr>nd_rsm := Manager ?m\<rparr>) =
      Inr (sent_to peer (wire_bytes (request_packet u b)) (nd\<lparr>nd_rsm := Manager ?m\<rparr>))"
    by (rule sendRsReq_sends [OF _ u pb(5)])
  then show ?thesis
    using idx assms(1,4) req rs(2) cnt be lim
    by (simp add: ReqRsTask_run_def getRsSyncManager_def getOwnerSize_def getBlockSize_def getSyncingSize_def Let_def
        vec_at_def sm_index_def addr_map.irrefl)
qed

text \<open>The task of an empty file books its empty block, or finds nothing free; it sends nothing.\<close>

lemma void_run:
  assumes "plan_ok pl" and "client_can Hc lk pl nd" and "Hc h" and "nd_rsm nd = Manager m"
    and "all_books lk pl f m" and "v \<in> void_uris pl"
  shows "\<exists>m'. ReqRsTask_run h v nd = Inr (nd\<lparr>nd_rsm := Manager m'\<rparr>) \<and> all_books lk pl f m'"
proof -
  have idx: "getAllTcpSession (nd_fw nd) = Inr [(lk_server lk, lk_cctx lk)]"
    using assms(2,3) by (auto simp: client_can_def getAllTcpSession_def open_conn_def ctx_getPeer_def ctx_at_def)
  have draw: "h_draw h 1 = 0" using assms(2,3) by (simp add: client_can_def)
  have sorted: "mgr_sorted m" and void: "void_entry lk (str_find v (uriRs m))" using assms(5,6) by (simp_all add: all_books_def)
  let ?rs = "uri_entry v m"
  show ?thesis
  proof (cases "elems (rs_owner ?rs) = [] \<or> rs_block ?rs = [] \<or>
      of_nat DOWNLOAD_LIMIT \<le> (of_nat (length (elems (rs_syncing ?rs))) :: u32)")
    case True
    then have "ReqRsTask_run h v nd = Inr (nd\<lparr>nd_rsm := Manager (touched v m)\<rparr>)"
      using task_idles [OF assms(4) idx] by (simp add: Let_def)
    moreover have "void_entry lk (str_find v (uriRs (touched v m)))"
      using void by (cases "str_find v (uriRs m)") (simp_all add: touched_def void_entry_def uri_entry_eq SyncRs_default_def)
    then have "all_books lk pl f (touched v m)"
      by (rule books_void_change [OF assms(1,5,6)]) (use sorted in \<open>simp_all add: touched_def\<close>)
    ultimately show ?thesis by blast
  next
    case False
    then have rs: "rs_block ?rs = [Block 0 0]" "elems (rs_owner ?rs) = [lk_server lk]"
      using void by (auto simp: void_entry_def uri_entry_eq SyncRs_default_def split: option.splits)
    let ?rs' = "?rs\<lparr>rs_block := [], rs_syncing := push_back (rs_syncing ?rs) (SyncingRange_new (lk_server lk) (Block 0 0) (h_time h))\<rparr>"
    have "regReqSyncRsAuto (lk_server lk) v (h_time h) (set_entry v ?rs m) = (Block 0 0, set_entry v ?rs' m)"
      using rs by (simp add: regReqSyncRsAuto_def rs_request_def Let_def)
    then have "ReqRsTask_run h v nd = Inr (nd\<lparr>nd_rsm := Manager (set_entry v ?rs' m)\<rparr>)"
      using idx assms(4) rs draw False
      by (simp add: ReqRsTask_run_def getRsSyncManager_def getOwnerSize_def getBlockSize_def getSyncingSize_def Let_def vec_at_def)
    moreover have "all_books lk pl f (set_entry v ?rs' m)"
      by (rule books_void_change [OF assms(1,5,6)]) (use sorted in \<open>simp_all add: void_entry_def\<close>)
    ultimately show ?thesis by blast
  qed
qed

lemma books_touched:
  assumes "plan_ok pl" and "all_books lk pl f m" and "j \<in> jobs pl" and "pl_jobs pl = [j] \<longrightarrow> missing j f \<noteq> 0"
  shows "all_books lk pl f (touched (jb_uri j) m)"
proof (rule books_change [OF assms(1-3)])
  have "job_entry lk pl j f (str_find (jb_uri j) (uriRs m))" using assms(2,3) by (simp add: all_books_def)
  then show "job_entry lk pl j f (str_find (jb_uri j) (uriRs (touched (jb_uri j) m)))"
    using assms(4) by (cases "str_find (jb_uri j) (uriRs m)") (auto simp: touched_def job_entry_def uri_entry_eq split: if_splits)
qed (use assms(2) in \<open>simp_all add: touched_def all_books_def\<close>)

lemma active_entry:
  assumes "all_books lk pl f m" and "j \<in> jobs pl" and "missing j f \<noteq> 0"
  shows "\<exists>rs. str_find (jb_uri j) (uriRs m) = Some rs \<and> rs_block rs = take (fl_free f j) (jb_blocks j) \<and>
    elems (rs_owner rs) = [lk_server lk] \<and> map sr_block (elems (rs_syncing rs)) = map ((!) (jb_blocks j)) (on_way j f) \<and>
    (\<forall>r \<in> set (elems (rs_syncing rs)). sr_peer r = lk_server lk)"
proof -
  have "job_entry lk pl j f (str_find (jb_uri j) (uriRs m))" using assms(1,2) by (simp add: all_books_def)
  then show ?thesis using assms(3) by (simp add: job_entry_def)
qed

lemma task_runs:
  assumes "plan_ok pl" and "flow_ok pl f" and "client_can Hc lk pl nd" and "Hc h" and "nd_rsm nd = Manager m"
    and "all_books lk pl f m" and "j \<in> jobs pl" and "pl_jobs pl = [j] \<longrightarrow> missing j f \<noteq> 0"
  shows "(\<exists>m'. ReqRsTask_run h (jb_uri j) nd = Inr (nd\<lparr>nd_rsm := Manager m'\<rparr>) \<and> all_books lk pl f m' \<and>
      (0 < fl_free f j \<longrightarrow> on_way j f \<noteq> [])) \<or>
    (\<exists>m'. ReqRsTask_run h (jb_uri j) nd =
        Inr (sent_to (lk_server lk) (request_wire j (jb_blocks j ! (fl_free f j - 1))) (nd\<lparr>nd_rsm := Manager m'\<rparr>)) \<and>
      all_books lk pl (asks_for j f) m' \<and> 0 < fl_free f j \<and> length (on_way j f) < DOWNLOAD_LIMIT)"
proof (cases "0 < fl_free f j \<and> length (on_way j f) < DOWNLOAD_LIMIT")
  case True
  then obtain k where k: "fl_free f j = Suc k" using gr0_conv_Suc by blast
  have c: "open_conn h (lk_cctx lk) (lk_server lk) nd" "h_draw h 1 = 0" "elems (tcp_ctx (nd_fw nd)) = [lk_cctx lk]"
    using assms(3,4) by (simp_all add: client_can_def)
  have ok: "job_ok j" using assms(1,7) by (simp add: plan_ok_def)
  have lt: "k < length (jb_blocks j)" using assms(2,7) k by (auto simp: flow_ok_def missing_def)
  note jb = job_block [OF ok lt]
  obtain rs where rs: "str_find (jb_uri j) (uriRs m) = Some rs" "rs_block rs = take (Suc k) (jb_blocks j)"
    "elems (rs_owner rs) = [lk_server lk]" "map sr_block (elems (rs_syncing rs)) = map ((!) (jb_blocks j)) (on_way j f)"
    "\<forall>r \<in> set (elems (rs_syncing rs)). sr_peer r = lk_server lk"
    using active_entry [OF assms(6,7)] k by (auto simp: missing_def)
  have e: "uri_entry (jb_uri j) m = rs" using rs(1) by (simp add: uri_entry_eq)
  have blk: "rs_block rs = take k (jb_blocks j) @ [jb_blocks j ! k]" using rs(2) lt by (simp add: take_Suc_conv_app_nth)
  have syn: "length (elems (rs_syncing rs)) < DOWNLOAD_LIMIT" using True arg_cong [OF rs(4), of length] by simp
  have t: "tiles (jb_blocks j) 0 (of_nat (length (jb_content j)))" and small: "length (jb_content j) < 2 ^ 32"
    using ok by (simp_all add: job_ok_def)
  have len: "length (take k (jb_blocks j)) < 2 ^ 32 - 1" using jb(3) lt by simp
  let ?m = "set_entry (jb_uri j) (rs\<lparr>rs_block := take k (jb_blocks j),
    rs_syncing := push_back (rs_syncing rs) (SyncingRange_new (lk_server lk) (jb_blocks j ! k) (h_time h))\<rparr>) m"
  have "ReqRsTask_run h (jb_uri j) nd =
      Inr (sent_to (lk_server lk) (request_wire j (jb_blocks j ! k)) (nd\<lparr>nd_rsm := Manager ?m\<rparr>))"
    unfolding request_wire_def
    using task_asks [where m = m and u = "jb_uri j", OF assms(5) c(1,3,2), unfolded e, OF blk rs(3) len syn jb(1,4)] .
  moreover have "all_books lk pl (asks_for j f) ?m"
  proof (rule books_change [OF assms(1,6,7)])
    show "job_entry lk pl j (asks_for j f) (str_find (jb_uri j) (uriRs ?m))"
      using k rs(3-5) by (simp add: job_entry_def) (simp add: missing_def asks_for_def)
  qed (use assms(6) k in \<open>simp_all add: all_books_def asks_for_def, simp add: on_way_def\<close>)
  ultimately show ?thesis using True k by (intro disjI2 exI [of _ ?m]) simp
next
  case False
  have e: "job_entry lk pl j f (str_find (jb_uri j) (uriRs m))" and m: "missing j f \<le> fl_free f j + DOWNLOAD_LIMIT"
    using assms(2,6,7) by (simp_all add: all_books_def flow_ok_def)
  have idx: "getAllTcpSession (nd_fw nd) = Inr [(lk_server lk, lk_cctx lk)]"
    using assms(3,4) by (auto simp: client_can_def getAllTcpSession_def open_conn_def ctx_getPeer_def ctx_at_def)
  have "let rs = uri_entry (jb_uri j) m in elems (rs_owner rs) = [] \<or> rs_block rs = [] \<or>
      of_nat DOWNLOAD_LIMIT \<le> (of_nat (length (elems (rs_syncing rs))) :: u32)"
  proof (cases "fl_free f j = 0")
    case True
    then show ?thesis using e
      by (auto simp: job_entry_def uri_entry_eq SyncRs_default_def Let_def split: if_splits)
  next
    case free: False
    then obtain rs where rs: "str_find (jb_uri j) (uriRs m) = Some rs"
      "map sr_block (elems (rs_syncing rs)) = map ((!) (jb_blocks j)) (on_way j f)"
      using e by (auto simp: job_entry_def missing_def)
    have "length (elems (rs_syncing rs)) = DOWNLOAD_LIMIT"
      using arg_cong [OF rs(2), of length] free False m by (simp add: missing_def)
    then show ?thesis using rs(1) by (simp add: uri_entry_eq Let_def)
  qed
  then show ?thesis
    using task_idles [OF assms(5) idx] books_touched [OF assms(1,6-8)] False
    by (intro disjI1 exI [of _ "touched (jb_uri j) m"]) (auto simp: DOWNLOAD_LIMIT_def)
qed

section \<open>An answer\<close>

lemma erase_first:
  assumes "elems v = r # rest" and "P r" and "\<forall>x \<in> set rest. \<not> P x"
  shows "erase_last P v = Inr (Some (r, Vec rest))"
proof -
  have "v \<noteq> NullVec" using assms(1) by auto
  then obtain y w where y: "erase_last P v = Inr (Some (y, w))"
    using erase_last_found [of v r P] assms(1,2) by auto
  then obtain a b where "P y" "r # rest = a @ y # b" "w = Vec (a @ b)" using erase_last_Some [OF y] assms(1) by auto
  then show ?thesis using y assms(3) by (cases a) auto
qed

lemma entry_range:
  assumes "plan_ok pl" and "flow_ok pl f" and "all_books lk pl f m" and "fl_answers f = (j, n) # xs"
  obtains rs r rest where "str_find (jb_uri j) (uriRs m) = Some rs" and "rs_block rs = take (fl_free f j) (jb_blocks j)"
    and "elems (rs_owner rs) = [lk_server lk]"
    and "erase_last (is_range (lk_server lk) (jb_blocks j ! n)) (rs_syncing rs) = Inr (Some (r, Vec rest))"
    and "map sr_block rest = map ((!) (jb_blocks j)) (on_way j (arrived 1 f))" and "\<forall>r \<in> set rest. sr_peer r = lk_server lk"
proof -
  note a = arrived_flow_ok [OF assms(2,4)] and w = on_way_arrived [OF assms(4)]
  obtain rs where rs: "str_find (jb_uri j) (uriRs m) = Some rs" "rs_block rs = take (fl_free f j) (jb_blocks j)"
    "elems (rs_owner rs) = [lk_server lk]" "map sr_block (elems (rs_syncing rs)) = map ((!) (jb_blocks j)) (on_way j f)"
    "\<forall>r \<in> set (elems (rs_syncing rs)). sr_peer r = lk_server lk"
    using active_entry [OF assms(3) a(2)] a(6) by auto
  then obtain r rest where r: "elems (rs_syncing rs) = r # rest" "sr_block r = jb_blocks j ! n"
    "map sr_block rest = map ((!) (jb_blocks j)) (on_way j (arrived 1 f))"
    by (auto simp: w(2) map_eq_Cons_conv)
  have "job_ok j" using assms(1) a(2) by (simp add: plan_ok_def)
  then have d: "distinct (jb_blocks j)" using tiles_sorted by (auto simp: job_ok_def)
  have rest: "on_way j (arrived 1 f) = rev [fl_free f j ..< n]" using a(1,2,3) w(4) by (simp add: flow_ok_def)
  then have "sr_block x \<noteq> jb_blocks j ! n" if "x \<in> set rest" for x
  proof -
    have "sr_block x \<in> (!) (jb_blocks j) ` {fl_free f j ..< n}"
      using that arg_cong [OF r(3), of set] rest by auto
    then show ?thesis using d a(4) by (auto simp: nth_eq_iff_index_eq)
  qed
  then have "erase_last (is_range (lk_server lk) (jb_blocks j ! n)) (rs_syncing rs) = Inr (Some (r, Vec rest))"
    using r(1,2) rs(5) by (intro erase_first) auto
  then show thesis using rs r by (intro that [of rs r rest]) auto
qed

text \<open>The block is on disk.\<close>

lemma mark_0 [simp]: "mark 0 bs 0 = 0"
  by (simp add: mark_def)

lemma files_stored:
  assumes "plan_ok pl" and "flow_ok pl f" and "lm_home (nd_rlm nd) = pl_home pl" and "all_files pl f (nd_fs nd)"
    and "fl_answers f = (j, n) # xs"
  shows "all_files pl (arrived 1 f) (stored (jb_uri j) (jb_blocks j ! n) (block_of (jb_blocks j ! n) (jb_content j)) nd)"
proof -
  let ?fs = "stored (jb_uri j) (jb_blocks j ! n) (block_of (jb_blocks j ! n) (jb_content j)) nd"
  note a = arrived_flow_ok [OF assms(2,5)] and w = on_way_arrived [OF assms(5)]
  have ok: "job_ok j" and home: "jb_home j = pl_home pl" using assms(1) a(2) by (simp_all add: plan_ok_def)
  have "job_file j (missing j f) (nd_fs nd)" using assms(4) a(2) by (simp add: all_files_def)
  then have "fetched_from (mark 0 (jb_blocks j) (Suc n)) (jb_content j) (file_at (nd_fs nd) (job_path j))"
    by (simp add: job_file_def a(6))
  from stored_progress [OF ok _ a(4) this]
  have st: "\<And>p. ?fs p = (if p = job_path j then Some (file_at ?fs p) else nd_fs nd p)"
    "fetched_from (mark 0 (jb_blocks j) n) (jb_content j) (file_at ?fs (job_path j))"
    using assms(3) home by simp_all
  have other: "?fs p = nd_fs nd p" if "p \<noteq> job_path j" for p using st(1) [of p] that by simp
  have "n = 0 \<Longrightarrow> ?fs (job_path j) = Some (jb_content j)"
    using st(2) by (subst st(1)) (simp add: fetched_all)
  then have mine: "job_file j n ?fs" using st(2) unfolding job_file_def by blast
  have "job_file i (missing i (arrived 1 f)) ?fs" if i: "i \<in> jobs pl" for i
  proof (cases "i = j")
    case False
    then have "job_path i \<noteq> job_path j" using same_path [OF assms(1) i a(2)] by simp
    then show ?thesis using assms(4) i w(3) [of i] False other by (simp add: all_files_def job_file_def file_at_def)
  qed (use mine a(3) in simp)
  moreover have "?fs p = pl_fs pl p" if "p \<notin> job_path ` jobs pl" for p
    using that a(2) assms(4) other [of p] by (auto simp: all_files_def)
  ultimately show ?thesis by (simp add: all_files_def)
qed

text \<open>The range is settled; with the last one the file is validated and its entry goes.\<close>

lemma range_settles:
  assumes "plan_ok pl" and "flow_ok pl f" and "all_books lk pl f m" and "fl_answers f = (j, n) # xs"
    and "\<And>hash. \<exists>ok l'. vr (jb_uri j) hash l = Inr (ok, l') \<and> P l'" and "P l"
  shows "\<exists>l' m'. syncingRangeDoneAndValid vr (lk_server lk) (jb_uri j) (jb_blocks j ! n) True (l, m) = Inr (l', m') \<and>
    P l' \<and> all_books lk pl (arrived 1 f) m'"
proof -
  note a = arrived_flow_ok [OF assms(2,4)] and w = on_way_arrived [OF assms(4)]
  let ?u = "jb_uri j" and ?b = "jb_blocks j ! n"
  obtain rs r rest where rs: "str_find ?u (uriRs m) = Some rs" "rs_block rs = take (fl_free f j) (jb_blocks j)"
    "elems (rs_owner rs) = [lk_server lk]"
    and er: "erase_last (is_range (lk_server lk) ?b) (rs_syncing rs) = Inr (Some (r, Vec rest))"
    and rest: "map sr_block rest = map ((!) (jb_blocks j)) (on_way j (arrived 1 f))" "\<forall>r \<in> set rest. sr_peer r = lk_server lk"
    using assms(1-4) by (rule entry_range)
  have e: "uri_entry ?u m = rs" using rs(1) by (simp add: uri_entry_eq)
  have sorted: "mgr_sorted m" using assms(3) by (simp add: all_books_def)
  have len: "fl_free f j + length rest = n"
    using arg_cong [OF rest(1), of length] a(3) by (simp add: missing_def w(4))
  have blk: "rs_block rs = [] \<longleftrightarrow> fl_free f j = 0" using rs(2) a(4,5) by auto
  have only: "fl_free (arrived 1 f) i = fl_free f i \<and> on_way i (arrived 1 f) = on_way i f" if "i \<noteq> j" for i
    using that w by simp
  show ?thesis
  proof (cases "n = 0")
    case True
    let ?rs = "rs\<lparr>rs_syncing := Vec rest, rs_success := True\<rparr>"
    let ?m = "set_entry ?u ?rs m"
    let ?m' = "?m\<lparr>uriRs := str_erase ?u (uriRs ?m)\<rparr>"
    have "rs_done (lk_server lk) ?b rs = Inr (?rs, True)"
      using rs_done_found [OF er] len True blk by simp
    moreover obtain ok l' where v: "vr ?u (rs_hash rs) l = Inr (ok, l')" "P l'" using assms(5) by blast
    moreover have "m\<lparr>uriRs := str_erase ?u (uriRs ?m)\<rparr> = ?m'" by (simp add: set_entry_def)
    ultimately have "syncingRangeDoneAndValid vr (lk_server lk) ?u ?b True (l, m) = Inr (l', ?m')"
      by (simp add: syncingRangeDoneAndValid_def e)
    moreover have "sm_sorted str_less (uriRs ?m)" using mgr_sorted_set [OF sorted] by (simp add: mgr_sorted_def)
    then have f: "str_find u (uriRs ?m') = (if u = ?u then None else str_find u (uriRs m))" for u by simp
    have "all_books lk pl (arrived 1 f) ?m'"
    proof (rule books_change [OF assms(1,3) a(2)])
      show "mgr_sorted ?m'" by (intro mgr_sorted_erase mgr_sorted_set sorted)
      show "job_entry lk pl j (arrived 1 f) (str_find ?u (uriRs ?m'))" unfolding f using a(3) True by (simp add: job_entry_def)
    qed (use f only in auto)
    ultimately show ?thesis using v(2) by blast
  next
    case False
    let ?rs = "rs\<lparr>rs_syncing := Vec rest\<rparr>"
    have "rs_done (lk_server lk) ?b rs = Inr (?rs, False)"
      using rs_done_found [OF er] len False blk by auto
    then have "syncingRangeDoneAndValid vr (lk_server lk) ?u ?b True (l, m) = Inr (l, set_entry ?u ?rs m)"
      by (simp add: syncingRangeDoneAndValid_def e)
    moreover have "all_books lk pl (arrived 1 f) (set_entry ?u ?rs m)"
    proof (rule books_change [OF assms(1,3) a(2) mgr_sorted_set [OF sorted]])
      show "job_entry lk pl j (arrived 1 f) (str_find ?u (uriRs (set_entry ?u ?rs m)))"
        using a(3) False rs(2,3) rest by (simp add: job_entry_def w(4))
    qed (use only in auto)
    ultimately show ?thesis using assms(6) by blast
  qed
qed

text \<open>\<open>add_req_task\<close> queues a task for every file of which a block is free.\<close>

lemma count_list_distinct: "distinct xs \<Longrightarrow> count_list xs x = (if x \<in> set xs then 1 else 0)"
  by (induction xs) auto

lemma tasks_queued:
  assumes "worker_ok pl (nd_tasks nd)" and "nd_rsm nd = Manager m" and "all_books lk pl f m"
    and "\<forall>j. pl_jobs pl = [j] \<longrightarrow> jb_uri j \<notin> set (duties (nd_tasks nd)) \<and> on_way j f = []"
  shows "\<exists>ts. add_req_task nd = Inr (nd\<lparr>nd_tasks := ts\<rparr>) \<and> all_tasks pl f ts"
proof -
  let ?tm = "nd_tasks nd"
  obtain new where new: "add_req_task nd = Inr (nd\<lparr>nd_tasks := ?tm\<lparr>tasks := tasks ?tm @ new\<rparr>\<rparr>)" "distinct (map task_id new)"
    "\<forall>t \<in> set new. task_body t = task_id t \<and> task_id t \<in> sm_keys (uriRs m)"
    "\<forall>uri rs. str_find uri (uriRs m) = Some rs \<longrightarrow> length (elems (rs_syncing rs)) < DOWNLOAD_LIMIT \<longrightarrow>
       uri \<in> task_id ` set (tasks ?tm @ new)"
    using add_req_task_queues [OF assms(2)] by blast
  let ?ts = "?tm\<lparr>tasks := tasks ?tm @ new\<rparr>"
  have dut: "duties ?ts = duties ?tm @ map task_id new" "current ?ts = current ?tm" "tasks ?ts = tasks ?tm @ new"
    by (simp_all add: duties_def current_def)
  have keys: "set (map task_id new) \<subseteq> sm_keys (uriRs m)" "sm_keys (uriRs m) \<subseteq> jb_uri ` jobs pl \<union> void_uris pl"
    using new(3) assms(3) by (auto simp: all_books_def)
  have queued: "jb_uri j \<in> set (duties ?ts)" if j: "j \<in> jobs pl" "0 < fl_free f j" "on_way j f = []" for j
  proof -
    obtain rs where "str_find (jb_uri j) (uriRs m) = Some rs" "map sr_block (elems (rs_syncing rs)) = []"
      using active_entry [OF assms(3) j(1)] j(2,3) by (auto simp: missing_def)
    then have "jb_uri j \<in> task_id ` set (tasks ?tm @ new)" using new(4) by (simp add: DOWNLOAD_LIMIT_def)
    then show ?thesis unfolding dut by (auto simp: duties_def)
  qed
  have "count_list (duties ?ts) (jb_uri j) + length (on_way j f) = (if missing j f = 0 then 0 else 1)" if j: "pl_jobs pl = [j]" for j
  proof -
    have none: "count_list (duties ?tm) (jb_uri j) = 0" "on_way j f = []" using assms(4) j by (auto simp: count_list_0_iff)
    have jobs: "j \<in> jobs pl" using j by simp
    have "count_list (map task_id new) (jb_uri j) = (if missing j f = 0 then 0 else 1)"
    proof (cases "missing j f = 0")
      case True
      then have "str_find (jb_uri j) (uriRs m) = None" using assms(3) j by (auto simp: all_books_def job_entry_def)
      then have "jb_uri j \<notin> sm_keys (uriRs m)" using assms(3) by (simp add: all_books_def mgr_sorted_def str_map.keys_find)
      then have "jb_uri j \<notin> set (map task_id new)" using keys(1) by blast
      then show ?thesis using True by (simp only: count_list_0_iff) simp
    next
      case False
      then have "jb_uri j \<in> set (duties ?ts)" using queued [OF jobs] none(2) by (simp add: missing_def)
      then have "jb_uri j \<in> set (map task_id new)" using assms(4) j unfolding dut by auto
      then have "count_list (map task_id new) (jb_uri j) = 1" using count_list_distinct [OF new(2)] by simp
      then show ?thesis using False by simp
    qed
    then show ?thesis using none unfolding dut by (simp add: count_list_append)
  qed
  moreover have "worker_ok pl ?ts"
    using assms(1) new(3) keys unfolding worker_ok_def dut by auto
  ultimately have "all_tasks pl f ?ts" using queued by (simp add: all_tasks_def)
  then show ?thesis using new(1) by blast
qed

lemma tasks_after:
  assumes "flow_ok pl f" and "all_tasks pl f m" and "fl_answers f = (j, n) # xs"
  shows "\<forall>i. pl_jobs pl = [i] \<longrightarrow> jb_uri i \<notin> set (duties m) \<and> on_way i (arrived 1 f) = []"
proof (intro allI impI)
  fix i assume i: "pl_jobs pl = [i]"
  note a = arrived_flow_ok [OF assms(1,3)] and w = on_way_arrived [OF assms(3)]
  have "i = j" using a(2) i by simp
  then have "count_list (duties m) (jb_uri i) + length (n # on_way j (arrived 1 f)) = 1"
    using assms(2) i a(6) w(2) by (simp add: all_tasks_def)
  then show "jb_uri i \<notin> set (duties m) \<and> on_way i (arrived 1 f) = []" using \<open>i = j\<close> by (simp add: count_list_0_iff)
qed

definition ask_wire :: "job \<times> nat \<Rightarrow> bytes" where
  "ask_wire x = request_wire (fst x) (jb_blocks (fst x) ! snd x)"

definition answer_wire :: "job \<times> nat \<Rightarrow> bytes" where
  "answer_wire x = reply_wire (fst x) (jb_blocks (fst x) ! snd x)"

lemma answer_handled:
  assumes "plan_ok pl" and "client_holds Hc lk pl f nd" and "Hc h" and "fl_answers f = (j, n) # xs"
  shows "\<exists>nd'. (\<forall>rest k. recv_tcp h (lk_cctx lk) (answer_wire (j, n) @ rest) k nd = Some (Inr nd')) \<and>
    client_holds Hc lk pl (arrived 1 f) nd' \<and> nd_fw nd' = nd_fw nd"
proof -
  let ?u = "jb_uri j" and ?b = "jb_blocks j ! n"
  let ?part = "block_of ?b (jb_content j)"
  let ?fs = "stored ?u ?b ?part nd"
  obtain m where c: "flow_ok pl f" "client_can Hc lk pl nd" "nd_rsm nd = Manager m" "all_books lk pl f m"
    "all_files pl f (nd_fs nd)" "all_tasks pl f (nd_tasks nd)"
    using assms(2) by (auto simp: client_holds_def)
  note a = arrived_flow_ok [OF c(1) assms(4)]
  have ok: "job_ok j" using assms(1) a(2) by (simp add: plan_ok_def)
  note jb = job_block [OF ok a(4)]
  have can: "open_conn h (lk_cctx lk) (lk_server lk) nd" "can_store h ?u nd" "host_law h"
    "lm_home (nd_rlm nd) = pl_home pl"
    using c(2) assms(3) a(2) by (simp_all add: client_can_def)
  have files: "all_files pl (arrived 1 f) ?fs" by (rule files_stored [OF assms(1) c(1) can(4) c(5) assms(4)])
  have scan: "scannable (nd_rlm nd) (h_tree h ?fs)"
    using files c(2) assms(3) by (simp add: all_files_def job_file_def fetched_from_def part_of_def client_can_def)
  have "\<exists>valid l'. validRes (host_digester h ?fs) (h_cwd h) (h_tree h ?fs) ?u hash (nd_rlm nd) = Inr (valid, l') \<and>
      lm_home l' = pl_home pl" for hash
    using validRes_result [OF host_digest_law [OF can(3)] scan, where cwd = "h_cwd h" and uri = ?u and hash = hash] unfolding can(4) by blast
  from range_settles [where P = "\<lambda>l. lm_home l = pl_home pl" and l = "nd_rlm nd"
      and vr = "validRes (host_digester h ?fs) (h_cwd h) (h_tree h ?fs)", OF assms(1) c(1,4) assms(4) this can(4)]
  obtain l' m' where settled: "syncingRangeDoneAndValid (validRes (host_digester h ?fs) (h_cwd h) (h_tree h ?fs)) (lk_server lk) ?u ?b True
      (nd_rlm nd, m) = Inr (l', m')" "lm_home l' = pl_home pl" "all_books lk pl (arrived 1 f) m'" by blast
  let ?nd = "nd\<lparr>nd_fs := ?fs, nd_dirs := dirs_of h ?u nd, nd_rlm := l', nd_rsm := Manager m'\<rparr>"
  obtain ts where ts: "add_req_task ?nd = Inr (?nd\<lparr>nd_tasks := ts\<rparr>)" "all_tasks pl (arrived 1 f) ts"
    using tasks_queued [of pl ?nd m' lk "arrived 1 f"] tasks_after [OF c(1,6) assms(4)] c(6) settled(3)
    by (auto simp: all_tasks_def)
  let ?nd' = "?nd\<lparr>nd_tasks := ts\<rparr>"
  have "recv_tcp h (lk_cctx lk) (answer_wire (j, n) @ rest) k nd = Some (Inr ?nd')" for rest k
    using store_block_then [OF can(1,2) jb(4,5,1,6) _ c(3) settled(1), of "jb_res j" rest k] ts(1)
      length_block_of [OF jb(1,2)] by (simp add: answer_wire_def reply_wire_def)
  moreover have "client_can Hc lk pl ?nd'" by (rule client_can_frame [OF c(2)]) (simp_all add: nd_fw_def can(4) settled(2) dirs_of_grow)
  then have "client_holds Hc lk pl (arrived 1 f) ?nd'"
    using a(1) settled(3) files ts(2) by (simp add: client_holds_def)
  ultimately show ?thesis by (intro exI [of _ ?nd']) (simp add: nd_fw_def)
qed

end
