(* ===== verification/Batch_Run.thy ===== *)
theory Batch_Run
  imports Batch_Sync
begin

text \<open>
  The two nodes of \<open>Batch_Sync\<close> on the network: requests and answers fill both directions of the
  connection, a segment may complete several packets, and every run ends with all the files in place.
\<close>

section \<open>Packets under way\<close>

lemma way_item:
  assumes "flow_ok pl f" and "x \<in> set (fl_answers f @ fl_asks f)"
  shows "fst x \<in> jobs pl" and "snd x < length (jb_blocks (fst x))"
proof -
  show j: "fst x \<in> jobs pl" using assms by (auto simp: flow_ok_def)
  have "snd x \<in> set (on_way (fst x) f)" using assms(2) by (force simp: on_way_def)
  then show "snd x < length (jb_blocks (fst x))" using assms(1) j by (auto simp: flow_ok_def)
qed

lemma reply_small:
  assumes "job_ok j" and "k < length (jb_blocks j)"
  shows "length (reply_wire j (jb_blocks j ! k)) \<le> 2 ^ 21"
proof -
  note jb = job_block [OF assms] and pb = proper_block_facts [OF job_block(1) [OF assms]]
  let ?part = "block_of (jb_blocks j ! k) (jb_content j)"
  have p: "length (payload (Some ?part)) \<le> 2 ^ 20" using length_block_of [OF jb(1,2)] pb(3) by (simp add: payload_def)
  then have "length (payload (Some ?part)) < 2 ^ 23" by simp
  from the_packet_facts(8) [OF reply_kvs_ok [OF jb(4,5)] this, where ty = LAN_SYNC_TYPE_REPLY_RESOURCE]
  have "length (reply_wire j (jb_blocks j ! k)) < 2 ^ 16 + length (payload (Some ?part))"
    unfolding reply_wire_def reply_packet_def .
  then show ?thesis using p by simp
qed

lemma request_small:
  assumes "job_ok j" and "k < length (jb_blocks j)"
  shows "length (request_wire j (jb_blocks j ! k)) \<le> 2 ^ 21"
proof -
  note jb = job_block [OF assms] and pb = proper_block_facts [OF job_block(1) [OF assms]]
  have p: "length (payload None) < 2 ^ 23" by (simp add: payload_def)
  have e: "length (payload None) = 0" by (simp add: payload_def)
  from the_packet_facts(8) [OF request_kvs_ok [OF jb(4) pb(5)] p, where ty = LAN_SYNC_TYPE_GET_RESOURCE] show ?thesis
    unfolding request_wire_def request_packet_def e by simp
qed

lemma way_frames:
  assumes "plan_ok pl" and "flow_ok pl f" and "x \<in> set (fl_answers f @ fl_asks f)"
  shows "pkt_frame (ask_wire x)" and "pkt_frame (answer_wire x)"
    and "length (ask_wire x) \<le> 2 ^ 21" and "length (answer_wire x) \<le> 2 ^ 21"
proof -
  note i = way_item [OF assms(2,3)]
  have ok: "job_ok (fst x)" using assms(1) i(1) by (simp add: plan_ok_def)
  show "pkt_frame (ask_wire x)" "pkt_frame (answer_wire x)"
    unfolding ask_wire_def answer_wire_def by (rule request_frame [OF ok i(2)], rule reply_frame [OF ok i(2)])
  show "length (ask_wire x) \<le> 2 ^ 21" "length (answer_wire x) \<le> 2 ^ 21"
    unfolding ask_wire_def answer_wire_def by (rule request_small [OF ok i(2)], rule reply_small [OF ok i(2)])
qed

text \<open>Five blocks of each file: one callback can take them all.\<close>

lemma length_by_file: "finite A \<Longrightarrow> fst ` set xs \<subseteq> A \<Longrightarrow> length xs = (\<Sum>j \<in> A. length (filter (\<lambda>x. fst x = j) xs))"
proof (induction xs)
  case (Cons x xs)
  have "(\<Sum>j \<in> A. length (filter (\<lambda>x. fst x = j) (x # xs))) =
      (\<Sum>j \<in> A. (if j = fst x then 1 else 0) + length (filter (\<lambda>x. fst x = j) xs))"
    by (rule sum.cong) auto
  also have "\<dots> = 1 + length xs" using Cons by (simp add: sum.distrib)
  finally show ?case by simp
qed simp

lemma missing_sum:
  assumes "flow_ok pl f"
  shows "(\<Sum>j \<in> jobs pl. missing j f) = (\<Sum>j \<in> jobs pl. fl_free f j) + (length (fl_answers f) + length (fl_asks f))"
proof -
  have "length (fl_answers f @ fl_asks f) = (\<Sum>j \<in> jobs pl. length (on_way j f))"
    unfolding on_way_def length_map by (rule length_by_file) (use assms in \<open>simp_all add: flow_ok_def\<close>)
  then show ?thesis by (simp add: missing_def sum.distrib)
qed

lemma way_count:
  assumes "plan_ok pl" and "flow_ok pl f"
  shows "length (fl_answers f) \<le> READ_LIMIT + 1" and "length (fl_asks f) \<le> READ_LIMIT + 1"
proof -
  have "(\<Sum>j \<in> jobs pl. missing j f) \<le> (\<Sum>j \<in> jobs pl. fl_free f j + DOWNLOAD_LIMIT)"
    using assms(2) by (intro sum_mono) (simp add: flow_ok_def)
  then have "length (fl_answers f) + length (fl_asks f) \<le> card (jobs pl) * DOWNLOAD_LIMIT"
    using missing_sum [OF assms(2)] by (simp add: sum.distrib)
  also have "\<dots> \<le> length (pl_jobs pl) * DOWNLOAD_LIMIT" by (intro mult_right_mono card_length) simp
  also have "\<dots> \<le> READ_LIMIT + 1" using assms(1) by (simp add: plan_ok_def)
  finally show "length (fl_answers f) \<le> READ_LIMIT + 1" "length (fl_asks f) \<le> READ_LIMIT + 1" by simp_all
qed

lemma concat_small:
  assumes "\<forall>w \<in> set ws. length w \<le> 2 ^ 21" and "length ws \<le> READ_LIMIT + 1"
  shows "length (concat ws) < 2 ^ 32"
proof -
  have "length (concat ws) \<le> length ws * 2 ^ 21" using assms(1) by (induction ws) auto
  also have "\<dots> \<le> (READ_LIMIT + 1) * 2 ^ 21" using assms(2) by (intro mult_right_mono) simp_all
  finally show ?thesis by (simp add: READ_LIMIT_def)
qed

lemma way_streams:
  assumes "plan_ok pl" and "flow_ok pl f"
  shows "\<forall>p \<in> set (map ask_wire (fl_asks f)). pkt_frame p" and "\<forall>p \<in> set (map answer_wire (fl_answers f)). pkt_frame p"
    and "length (map ask_wire (fl_asks f)) \<le> READ_LIMIT + 1" and "length (map answer_wire (fl_answers f)) \<le> READ_LIMIT + 1"
    and "length (concat (map ask_wire (fl_asks f))) < 2 ^ 32" and "length (concat (map answer_wire (fl_answers f))) < 2 ^ 32"
proof -
  note fr = way_frames [OF assms] and ct = way_count [OF assms]
  show "\<forall>p \<in> set (map ask_wire (fl_asks f)). pkt_frame p" "\<forall>p \<in> set (map answer_wire (fl_answers f)). pkt_frame p"
    using fr(1,2) by auto
  show c: "length (map ask_wire (fl_asks f)) \<le> READ_LIMIT + 1" "length (map answer_wire (fl_answers f)) \<le> READ_LIMIT + 1"
    using ct by simp_all
  show "length (concat (map ask_wire (fl_asks f))) < 2 ^ 32" "length (concat (map answer_wire (fl_answers f))) < 2 ^ 32"
    using fr(3,4) by (intro concat_small [OF _ c(1)] concat_small [OF _ c(2)]; force)+
qed

section \<open>A callback\<close>

text \<open>The client handles answers one after the other.\<close>

lemma answers_handled:
  assumes "plan_ok pl" and "Hc h" and "client_holds Hc lk pl f nd" and "k \<le> length (fl_answers f)"
  shows "\<exists>nd'. handled (endpoint_recv h (lk_cctx lk)) (map answer_wire (take k (fl_answers f))) nd nd' \<and>
    client_holds Hc lk pl (arrived k f) nd' \<and> nd_fw nd' = nd_fw nd"
  using assms(3,4)
proof (induction k arbitrary: f nd)
  case 0
  then show ?case by (simp add: arrived_def)
next
  case (Suc k)
  then obtain j n xs where xs: "fl_answers f = (j, n) # xs" by (cases "fl_answers f") auto
  have oc: "open_conn h (lk_cctx lk) (lk_server lk) nd"
    using Suc.prems(1) assms(2) by (simp add: client_holds_def client_can_def)
  obtain nd1 where nd1: "\<And>rest k. recv_tcp h (lk_cctx lk) (answer_wire (j, n) @ rest) k nd = Some (Inr nd1)"
    "client_holds Hc lk pl (arrived 1 f) nd1" "nd_fw nd1 = nd_fw nd"
    using answer_handled [OF assms(1) Suc.prems(1) assms(2) xs] by blast
  have tl: "fl_answers (arrived 1 f) = xs" by (simp add: arrived_def xs)
  obtain nd' where nd': "handled (endpoint_recv h (lk_cctx lk)) (map answer_wire (take k xs)) nd1 nd'"
    "client_holds Hc lk pl (arrived k (arrived 1 f)) nd'" "nd_fw nd' = nd_fw nd1"
    using Suc.IH [OF nd1(2)] Suc.prems(2) unfolding tl by (auto simp: xs)
  have "endpoint_recv h (lk_cctx lk) (answer_wire (j, n) @ tail) m nd = Inr nd1" for tail m
    using endpoint_tcp [OF oc] nd1(1) by simp
  then have "handled (endpoint_recv h (lk_cctx lk)) (map answer_wire (take (Suc k) (fl_answers f))) nd nd'"
    using nd'(1) by (auto simp: xs)
  then show ?case using nd'(2,3) nd1(3) unfolding arrived_Suc [of k f] by auto
qed

text \<open>The server has the files, and answers requests one after the other.\<close>

definition server_holds :: "(host \<Rightarrow> bool) \<Rightarrow> link \<Rightarrow> plan \<Rightarrow> node \<Rightarrow> bool" where
  "server_holds Hs lk pl nd \<longleftrightarrow>
     (\<forall>h. Hs h \<longrightarrow> open_conn h (lk_sctx lk) (lk_client lk) nd \<and>
        (\<forall>j \<in> jobs pl. holds_file h (jb_uri j) (jb_hash j) (jb_res j) (jb_content j) nd)) \<and>
     tasks (nd_tasks nd) = [] \<and> idle (nd_tasks nd)"

lemma server_holds_frame:
  assumes "server_holds Hs lk pl nd" and "ctx_heap (nd_fw nd') = ctx_heap (nd_fw nd)" and "nd_rlm nd' = nd_rlm nd"
    and "nd_fs nd' = nd_fs nd" and "tasks (nd_tasks nd') = []" and "idle (nd_tasks nd')"
  shows "server_holds Hs lk pl nd'"
proof -
  have "holds_file h u hash r c nd' = holds_file h u hash r c nd" for h u hash r c
    using assms(3,4) by (simp add: holds_file_def split: sum.splits)
  then show ?thesis using assms by (simp add: server_holds_def open_conn_def)
qed

lemma asks_handled:
  assumes "plan_ok pl" and "Hs h" and "\<forall>x \<in> set xs. fst x \<in> jobs pl \<and> snd x < length (jb_blocks (fst x))"
    and "server_holds Hs lk pl nd"
  shows "\<exists>nd'. handled (endpoint_recv h (lk_sctx lk)) (map ask_wire xs) nd nd' \<and> server_holds Hs lk pl nd' \<and>
    ctx_sent (nd_fw nd') = ctx_sent (nd_fw nd) @ map (\<lambda>x. (lk_client lk, answer_wire x)) xs"
  using assms(3,4)
proof (induction xs arbitrary: nd)
  case (Cons x xs)
  let ?j = "fst x"
  have x: "?j \<in> jobs pl" "snd x < length (jb_blocks ?j)" using Cons.prems(1) by auto
  have ok: "job_ok ?j" using assms(1) x(1) by (simp add: plan_ok_def)
  have oc: "open_conn h (lk_sctx lk) (lk_client lk) nd" and sv: "holds_file h (jb_uri ?j) (jb_hash ?j) (jb_res ?j) (jb_content ?j) nd"
    using Cons.prems(2) assms(2) x(1) by (simp_all add: server_holds_def)
  let ?nd1 = "sent_to (lk_client lk) (answer_wire x) nd"
  have "endpoint_recv h (lk_sctx lk) (ask_wire x @ tail) m nd = Inr ?nd1" for tail m
    using endpoint_tcp [OF oc] request_served [OF ok oc sv x(2), of tail m]
    by (simp add: ask_wire_def answer_wire_def)
  moreover have "server_holds Hs lk pl ?nd1"
    by (rule server_holds_frame [OF Cons.prems(2)])
      (use Cons.prems(2) in \<open>simp_all add: server_holds_def sent_to_def set_fw_same, simp_all add: set_fw_def\<close>)
  moreover have "ctx_sent (nd_fw ?nd1) = ctx_sent (nd_fw nd) @ [(lk_client lk, answer_wire x)]"
    by (simp add: sent_to_def set_fw_same)
  ultimately show ?case using Cons.IH [of ?nd1] Cons.prems(1) by auto
qed simp

section \<open>The state of the two nodes\<close>

text \<open>Each direction holds the packets of the flow, the first of them perhaps in part with the receiver.\<close>

definition batch_at :: "(host \<Rightarrow> bool) \<Rightarrow> (host \<Rightarrow> bool) \<Rightarrow> link \<Rightarrow> plan \<Rightarrow> flow \<Rightarrow> net \<Rightarrow> bool" where
  "batch_at Hc Hs lk pl f s \<longleftrightarrow> plan_ok pl \<and> (\<exists>h. Hc h) \<and> (\<exists>h. Hs h) \<and>
     client_holds Hc lk pl f (dm_node (nt_client s)) \<and> server_holds Hs lk pl (dm_node (nt_server s)) \<and>
     stream.partial (dm_bufs (nt_client s) (lk_cctx lk)) \<and> stream.partial (dm_bufs (nt_server s) (lk_sctx lk)) \<and>
     dm_bufs (nt_client s) (lk_cctx lk) @ nt_down s = concat (map answer_wire (fl_answers f)) \<and>
     dm_bufs (nt_server s) (lk_sctx lk) @ nt_up s = concat (map ask_wire (fl_asks f))"

text \<open>Everything has arrived.\<close>

definition all_done :: flow where
  "all_done = \<lparr>fl_free = (\<lambda>_. 0), fl_asks = [], fl_answers = []\<rparr>"

text \<open>What gets less: missing blocks, free blocks, requests, tasks, bytes under way.\<close>

definition task_turns :: "string task_manager \<Rightarrow> nat" where
  "task_turns m = 3 * length (tasks m) + (case tm_worker m of Running t \<Rightarrow> 2 | AtTest \<Rightarrow> 1 | _ \<Rightarrow> 0)"

definition batch_left :: "plan \<Rightarrow> flow \<Rightarrow> net \<Rightarrow> nat \<times> nat \<times> nat \<times> nat \<times> nat" where
  "batch_left pl f s = (\<Sum>j \<in> jobs pl. missing j f, \<Sum>j \<in> jobs pl. fl_free f j, length (fl_asks f),
     task_turns (nd_tasks (dm_node (nt_client s))), length (nt_up s) + length (nt_down s) + turns (nt_server s))"

definition less5 :: "((nat \<times> nat \<times> nat \<times> nat \<times> nat) \<times> (nat \<times> nat \<times> nat \<times> nat \<times> nat)) set" where
  "less5 = less_than <*lex*> less4"

lemma wf_less5: "wf less5"
  unfolding less5_def by (rule wf_lex_prod [OF wf_less_than wf_less4])

lemma less5_iff: "((a, b, c, d, e), (a', b', c', d', e')) \<in> less5 \<longleftrightarrow>
    a < a' \<or> a = a' \<and> (b < b' \<or> b = b' \<and> (c < c' \<or> c = c' \<and> (d < d' \<or> d = d' \<and> e < e')))"
  by (auto simp: less5_def less4_def)

lemma emitted_all:
  assumes "ctx_sent (nd_fw (dm_node d')) = ctx_sent (nd_fw (dm_node d)) @ map (\<lambda>x. (peer, w x)) xs"
  shows "emitted peer d d' = concat (map w xs)"
proof -
  have "map snd (filter (\<lambda>e. fst e = peer) (map (\<lambda>x. (peer, w x)) xs)) = map w xs" by (induction xs) auto
  then show ?thesis by (simp add: emitted_def assms del: map_map filter_map)
qed

section \<open>Segments\<close>

lemma batch_to_server:
  assumes "batch_at Hc Hs lk pl f s" and "Hs h" and "nt_up s = seg @ rest" and "seg \<noteq> []"
  shows "\<exists>k part nd. k \<le> length (fl_asks f) \<and> stream.partial part \<and>
    part @ rest = concat (map ask_wire (drop k (fl_asks f))) \<and> server_holds Hs lk pl nd \<and>
    ctx_sent (nd_fw nd) = ctx_sent (nd_fw (dm_node (nt_server s))) @ map (\<lambda>x. (lk_client lk, answer_wire x)) (take k (fl_asks f)) \<and>
    (k = 0 \<longrightarrow> nd = dm_node (nt_server s)) \<and>
    (\<forall>d. dm_step h (Bytes (lk_sctx lk) seg) (nt_server s) d \<longleftrightarrow>
      d = (nt_server s)\<lparr>dm_node := nd, dm_bufs := (dm_bufs (nt_server s))(lk_sctx lk := part)\<rparr>)"
proof -
  let ?nd = "dm_node (nt_server s)"
  have b: "plan_ok pl" "flow_ok pl f" "server_holds Hs lk pl ?nd"
    "dm_bufs (nt_server s) (lk_sctx lk) @ seg @ rest = concat (map ask_wire (fl_asks f))"
    using assms(1,3) by (simp_all add: batch_at_def client_holds_def)
  have oc: "open_conn h (lk_sctx lk) (lk_client lk) ?nd" using b(3) assms(2) by (simp add: server_holds_def)
  let ?Q = "\<lambda>k nd'. server_holds Hs lk pl nd' \<and>
    ctx_sent (nd_fw nd') = ctx_sent (nd_fw ?nd) @ map (\<lambda>x. (lk_client lk, answer_wire x)) (take k (fl_asks f)) \<and>
    (k = 0 \<longrightarrow> nd' = ?nd)"
  have "\<exists>nd'. handled (endpoint_recv h (lk_sctx lk)) (take k (map ask_wire (fl_asks f))) ?nd nd' \<and> ?Q k nd'" for k
  proof -
    have "\<forall>x \<in> set (take k (fl_asks f)). fst x \<in> jobs pl \<and> snd x < length (jb_blocks (fst x))"
      using way_item [OF b(2)] by (auto dest!: in_set_takeD)
    from asks_handled [OF b(1) assms(2) this b(3)] show ?thesis unfolding take_map by auto
  qed
  from frames_step [where Q = ?Q, OF oc way_streams(1,3,5) [OF b(1,2)] b(4) assms(4) this] show ?thesis
    by (simp add: drop_map)
qed

lemma batch_to_client:
  assumes "batch_at Hc Hs lk pl f s" and "Hc h" and "nt_down s = seg @ rest" and "seg \<noteq> []"
  shows "\<exists>k part nd. k \<le> length (fl_answers f) \<and> stream.partial part \<and>
    part @ rest = concat (map answer_wire (drop k (fl_answers f))) \<and> client_holds Hc lk pl (arrived k f) nd \<and>
    nd_fw nd = nd_fw (dm_node (nt_client s)) \<and> (k = 0 \<longrightarrow> nd = dm_node (nt_client s)) \<and>
    (\<forall>d. dm_step h (Bytes (lk_cctx lk) seg) (nt_client s) d \<longleftrightarrow>
      d = (nt_client s)\<lparr>dm_node := nd, dm_bufs := (dm_bufs (nt_client s))(lk_cctx lk := part)\<rparr>)"
proof -
  let ?nd = "dm_node (nt_client s)"
  have b: "plan_ok pl" "flow_ok pl f" "client_holds Hc lk pl f ?nd"
    "dm_bufs (nt_client s) (lk_cctx lk) @ seg @ rest = concat (map answer_wire (fl_answers f))"
    using assms(1,3) by (simp_all add: batch_at_def client_holds_def)
  have oc: "open_conn h (lk_cctx lk) (lk_server lk) ?nd"
    using b(3) assms(2) by (simp add: client_holds_def client_can_def)
  let ?Q = "\<lambda>k nd'. client_holds Hc lk pl (arrived k f) nd' \<and> nd_fw nd' = nd_fw ?nd \<and> (k = 0 \<longrightarrow> nd' = ?nd)"
  have "\<exists>nd'. handled (endpoint_recv h (lk_cctx lk)) (take k (map answer_wire (fl_answers f))) ?nd nd' \<and> ?Q k nd'"
    if "k \<le> length (map answer_wire (fl_answers f))" for k
    using answers_handled [OF b(1) assms(2) b(3), of k] that by (cases "k = 0") (auto simp: take_map)
  from frames_step [where Q = ?Q, OF oc way_streams(2,4,6) [OF b(1,2)] b(4) assms(4) this] show ?thesis
    by (simp add: drop_map)
qed

text \<open>What is left in front of a whole stream of packets is nothing, unless there are none.\<close>

lemma stream_empty: "stream.partial (concat ws) \<Longrightarrow> \<forall>w \<in> set ws. pkt_frame w \<Longrightarrow> ws = []"
  using stream.whole_not_partial by (cases ws) auto

lemma emitted_segment:
  assumes "nd_fw (dm_node d') = nd_fw (dm_node d)"
  shows "emitted peer d d' = []"
  by (rule emitted_same) (simp add: assms)

lemma batch_to_server_turn:
  assumes "batch_at Hc Hs lk pl f s" and "Hs h" and "nt_up s = seg @ rest" and "seg \<noteq> []"
    and "dm_step h (Bytes (lk_sctx lk) seg) (nt_server s) d"
    and s': "s' = s\<lparr>nt_server := d, nt_up := rest, nt_down := nt_down s @ emitted (lk_client lk) (nt_server s) d\<rparr>"
  shows "\<exists>k. batch_at Hc Hs lk pl (answered k f) s' \<and> (batch_left pl (answered k f) s', batch_left pl f s) \<in> less5"
proof -
  obtain k part nd where k: "k \<le> length (fl_asks f)" "stream.partial part"
    "part @ rest = concat (map ask_wire (drop k (fl_asks f)))" "server_holds Hs lk pl nd"
    and sent: "ctx_sent (nd_fw nd) = ctx_sent (nd_fw (dm_node (nt_server s))) @ map (\<lambda>x. (lk_client lk, answer_wire x)) (take k (fl_asks f))"
    and same: "k = 0 \<longrightarrow> nd = dm_node (nt_server s)"
    and d: "d = (nt_server s)\<lparr>dm_node := nd, dm_bufs := (dm_bufs (nt_server s))(lk_sctx lk := part)\<rparr>"
    using batch_to_server [OF assms(1-4)] assms(5) by blast
  have e: "emitted (lk_client lk) (nt_server s) d = concat (map answer_wire (take k (fl_asks f)))"
    by (rule emitted_all) (simp add: d sent)
  have flow: "fl_asks (answered k f) = drop k (fl_asks f)" "fl_answers (answered k f) = fl_answers f @ take k (fl_asks f)"
    by (simp_all add: answered_def)
  let ?c = "dm_node (nt_client s)"
  have "client_holds Hc lk pl f ?c" using assms(1) by (simp add: batch_at_def)
  then have "client_holds Hc lk pl (answered k f) ?c"
    using answered_flow_ok books_keep by (auto simp: client_holds_def all_files_def all_tasks_def)
  then have "batch_at Hc Hs lk pl (answered k f) s'"
    using assms(1) k by (simp add: batch_at_def s' e flow) (simp add: d)
  moreover have "(batch_left pl (answered k f) s', batch_left pl f s) \<in> less5"
  proof (cases "k = 0")
    case True
    then have "turns d = turns (nt_server s)" using same by (simp add: d turns_def)
    moreover have "fl_asks (answered 0 f) = fl_asks f" by (simp add: answered_def)
    ultimately show ?thesis using assms(3,4) True e by (simp add: batch_left_def less5_iff s')
  next
    case False
    then have "length (fl_asks (answered k f)) < length (fl_asks f)" using k(1) by (simp add: flow)
    then show ?thesis by (simp add: batch_left_def less5_iff)
  qed
  ultimately show ?thesis by blast
qed

lemma batch_to_client_turn:
  assumes "batch_at Hc Hs lk pl f s" and "Hc h" and "nt_down s = seg @ rest" and "seg \<noteq> []"
    and "dm_step h (Bytes (lk_cctx lk) seg) (nt_client s) d"
    and s': "s' = s\<lparr>nt_client := d, nt_down := rest, nt_up := nt_up s @ emitted (lk_server lk) (nt_client s) d\<rparr>"
  shows "\<exists>k. batch_at Hc Hs lk pl (arrived k f) s' \<and> (batch_left pl (arrived k f) s', batch_left pl f s) \<in> less5"
proof -
  obtain k part nd where k: "k \<le> length (fl_answers f)" "stream.partial part"
    "part @ rest = concat (map answer_wire (drop k (fl_answers f)))" "client_holds Hc lk pl (arrived k f) nd"
    and fw: "nd_fw nd = nd_fw (dm_node (nt_client s))" and same: "k = 0 \<longrightarrow> nd = dm_node (nt_client s)"
    and d: "d = (nt_client s)\<lparr>dm_node := nd, dm_bufs := (dm_bufs (nt_client s))(lk_cctx lk := part)\<rparr>"
    using batch_to_client [OF assms(1-4)] assms(5) by blast
  have e: "emitted (lk_server lk) (nt_client s) d = []" by (rule emitted_segment) (simp add: d fw)
  have flow: "fl_asks (arrived k f) = fl_asks f" "fl_answers (arrived k f) = drop k (fl_answers f)"
    by (simp_all add: arrived_def)
  have "batch_at Hc Hs lk pl (arrived k f) s'"
    using assms(1) k by (simp add: batch_at_def s' e flow) (simp add: d)
  moreover have "(batch_left pl (arrived k f) s', batch_left pl f s) \<in> less5"
  proof (cases "k = 0")
    case True
    have "arrived 0 f = f" by (simp add: arrived_def)
    moreover have "nd_tasks (dm_node d) = nd_tasks (dm_node (nt_client s))" using same True by (simp add: d)
    ultimately show ?thesis using assms(3,4) True e by (simp add: batch_left_def less5_iff s')
  next
    case False
    have "flow_ok pl f" "flow_ok pl (arrived k f)" using assms(1) k(4) by (simp_all add: batch_at_def client_holds_def)
    from this [THEN missing_sum] have "(\<Sum>j \<in> jobs pl. missing j (arrived k f)) < (\<Sum>j \<in> jobs pl. missing j f)"
      using False k(1) unfolding flow by (simp add: arrived_def)
    then show ?thesis by (simp add: batch_left_def less5_iff)
  qed
  ultimately show ?thesis by blast
qed

section \<open>The workers\<close>

lemma batch_server_works:
  assumes "batch_at Hc Hs lk pl f s" and "dm_step h (Worker x) (nt_server s) d"
    and s': "s' = s\<lparr>nt_server := d, nt_down := nt_down s @ emitted (lk_client lk) (nt_server s) d\<rparr>"
  shows "batch_at Hc Hs lk pl f s' \<and> (batch_left pl f s', batch_left pl f s) \<in> less5"
proof -
  let ?nd = "dm_node (nt_server s)"
  have sv: "server_holds Hs lk pl ?nd" "idle (nd_tasks ?nd)" "tasks (nd_tasks ?nd) = []"
    using assms(1) by (simp_all add: batch_at_def server_holds_def)
  then have w: "tm_worker (nd_tasks ?nd) = AtTest"
    and d: "d = (nt_server s)\<lparr>dm_node := ?nd\<lparr>nd_tasks := (nd_tasks ?nd)\<lparr>tm_worker := InWait\<rparr>\<rparr>\<rparr>"
    using assms(2) idle_step [OF sv(2)] by auto
  have e: "emitted (lk_client lk) (nt_server s) d = []" by (rule emitted_segment) (simp add: d nd_fw_def)
  have "server_holds Hs lk pl (dm_node d)"
    by (rule server_holds_frame [OF sv(1)]) (use sv in \<open>auto simp: d nd_fw_def idle_def\<close>)
  then have "batch_at Hc Hs lk pl f s'" using assms(1) by (simp add: batch_at_def s' e) (simp add: d)
  moreover have "turns d < turns (nt_server s)" using w by (simp add: d turns_def)
  then have "(batch_left pl f s', batch_left pl f s) \<in> less5" by (simp add: batch_left_def less5_iff s' e)
  ultimately show ?thesis ..
qed

lemma holds_tasks:
  assumes "client_holds Hc lk pl f nd" and "all_tasks pl f tm"
  shows "client_holds Hc lk pl f (nd\<lparr>nd_tasks := tm\<rparr>)"
  using assms client_can_frame [of Hc lk pl nd "nd\<lparr>nd_tasks := tm\<rparr>"] by (simp add: client_holds_def nd_fw_def)

text \<open>The worker goes to its wait, and takes a task.\<close>

lemma idle_turn:
  assumes "all_tasks pl f (nd_tasks nd)" and "idle (nd_tasks nd)"
    and "dm_step h (Worker x) \<lparr>dm_node = nd, dm_bufs = bufs\<rparr> d"
  shows "\<exists>tm. d = \<lparr>dm_node = nd\<lparr>nd_tasks := tm\<rparr>, dm_bufs = bufs\<rparr> \<and> all_tasks pl f tm \<and> task_turns tm < task_turns (nd_tasks nd)"
proof -
  let ?tm = "nd_tasks nd"
  have idle: "idle (nd_tasks (dm_node \<lparr>dm_node = nd, dm_bufs = bufs\<rparr>))" using assms(2) by simp
  from assms(3) idle_step [OF idle] consider
    (test) "tm_worker ?tm = AtTest" "d = \<lparr>dm_node = nd\<lparr>nd_tasks := ?tm\<lparr>tm_worker := InWait\<rparr>\<rparr>, dm_bufs = bufs\<rparr>"
  | (take) t ts where "tm_worker ?tm = InWait" "tasks ?tm = t # ts"
      "d = \<lparr>dm_node = nd\<lparr>nd_tasks := ?tm\<lparr>tasks := ts, tm_worker := Running t\<rparr>\<rparr>, dm_bufs = bufs\<rparr>" by auto
  then show ?thesis
  proof cases
    case test
    then have "current (?tm\<lparr>tm_worker := InWait\<rparr>) = current ?tm" by (simp add: current_def)
    then have "all_tasks pl f (?tm\<lparr>tm_worker := InWait\<rparr>)" using assms(1) by (simp add: all_tasks_def worker_ok_def duties_def)
    then show ?thesis using test by (intro exI [of _ "?tm\<lparr>tm_worker := InWait\<rparr>"]) (simp add: task_turns_def)
  next
    case take
    let ?tm' = "?tm\<lparr>tasks := ts, tm_worker := Running t\<rparr>"
    have "current ?tm' @ tasks ?tm' = current ?tm @ tasks ?tm" using take by (simp add: current_def)
    then have "all_tasks pl f ?tm'" using assms(1) unfolding all_tasks_def worker_ok_def duties_def by simp
    then show ?thesis using take by (intro exI [of _ ?tm']) (simp add: task_turns_def)
  qed
qed

text \<open>A task that has run leaves the others queued.\<close>

definition task_over :: "string abs_task \<Rightarrow> string task_manager \<Rightarrow> string task_manager" where
  "task_over t m = m\<lparr>tm_worker := AtTest, tm_log := tm_log m @ [t]\<rparr>"

lemma task_over_tasks:
  assumes "plan_ok pl" and "all_tasks pl f m" and "tm_worker m = Running t" and "j \<in> jobs pl" and "task_id t = jb_uri j"
    and "\<And>i. i \<noteq> j \<Longrightarrow> fl_free f' i = fl_free f i \<and> on_way i f' = on_way i f" and "0 < fl_free f' j \<Longrightarrow> on_way j f' \<noteq> []"
    and "pl_jobs pl = [j] \<Longrightarrow> length (on_way j f') = 1 \<and> missing j f' \<noteq> 0"
  shows "all_tasks pl f' (task_over t m)" and "task_turns (task_over t m) < task_turns m"
proof -
  have cur: "current m = [t]" "current (task_over t m) = []" "tasks (task_over t m) = tasks m" "stopFlg (task_over t m) = stopFlg m"
    "tm_worker (task_over t m) = AtTest"
    using assms(3) by (simp_all add: current_def task_over_def)
  then have dut: "duties m = jb_uri j # duties (task_over t m)" using assms(5) by (simp add: duties_def)
  have "jb_uri i \<in> set (duties (task_over t m))" if i: "i \<in> jobs pl" "0 < fl_free f' i" "on_way i f' = []" for i
  proof -
    have ne: "i \<noteq> j" using i(2,3) assms(7) by blast
    then have "jb_uri i \<in> set (duties m)" using i assms(2) assms(6) [of i] by (simp add: all_tasks_def)
    then show ?thesis using ne same_uri [OF assms(1) i(1) assms(4)] by (simp add: dut)
  qed
  moreover have "count_list (duties (task_over t m)) (jb_uri i) + length (on_way i f') = (if missing i f' = 0 then 0 else 1)"
    if i: "pl_jobs pl = [i]" for i
  proof -
    have "count_list (duties m) (jb_uri i) + length (on_way i f) = (if missing i f = 0 then 0 else 1)" using assms(2) i by (simp add: all_tasks_def)
    moreover have "i = j" using assms(4) i by simp
    ultimately show ?thesis using assms(8) i by (simp add: dut split: if_splits)
  qed
  moreover have "worker_ok pl (task_over t m)"
    using assms(2) unfolding all_tasks_def worker_ok_def dut by (simp add: cur)
  ultimately show "all_tasks pl f' (task_over t m)" unfolding all_tasks_def by simp
  show "task_turns (task_over t m) < task_turns m" using assms(3) by (simp add: task_turns_def task_over_def)
qed

text \<open>The same for a task of an empty file.\<close>

lemma void_over_tasks:
  assumes "plan_ok pl" and "all_tasks pl f m" and "tm_worker m = Running t" and "task_id t \<in> void_uris pl"
  shows "all_tasks pl f (task_over t m)" and "task_turns (task_over t m) < task_turns m"
proof -
  have cur: "current m = [t]" "current (task_over t m) = []" "tasks (task_over t m) = tasks m" "stopFlg (task_over t m) = stopFlg m"
    "tm_worker (task_over t m) = AtTest"
    using assms(3) by (simp_all add: current_def task_over_def)
  then have dut: "duties m = task_id t # duties (task_over t m)" by (simp add: duties_def)
  have ne: "task_id t \<noteq> jb_uri j" if "j \<in> jobs pl" for j using assms(1,4) that by (auto simp: plan_ok_def)
  have "worker_ok pl (task_over t m)"
    using assms(2) unfolding all_tasks_def worker_ok_def dut by (simp add: cur)
  then show "all_tasks pl f (task_over t m)" using assms(2) ne unfolding all_tasks_def dut
    by (auto dest: not_sym)
  show "task_turns (task_over t m) < task_turns m" using assms(3) by (simp add: task_turns_def task_over_def)
qed

lemma nd_fw_same [simp]:
  "nd_fw (nd\<lparr>nd_tasks := tm\<rparr>) = nd_fw nd" "nd_fw (nd\<lparr>nd_rsm := m\<rparr>) = nd_fw nd"
  by (simp_all add: nd_fw_def)

lemma sent_holds [simp]:
  "nd_tasks (sent_to p bs nd) = nd_tasks nd" "nd_dirs (sent_to p bs nd) = nd_dirs nd"
  "ctx_heap (nd_fw (sent_to p bs nd)) = ctx_heap (nd_fw nd)" "tcp_ctx (nd_fw (sent_to p bs nd)) = tcp_ctx (nd_fw nd)"
  "ctx_sent (nd_fw (sent_to p bs nd)) = ctx_sent (nd_fw nd) @ [(p, bs)]"
  by (simp_all add: sent_to_def set_fw_same) (simp_all add: set_fw_def)

text \<open>The task of a file to fetch asks for a block, or has nothing to ask for.\<close>

lemma task_turn:
  assumes "plan_ok pl" and c: "flow_ok pl f" "client_can Hc lk pl nd" "nd_rsm nd = Manager m" "all_books lk pl f m"
    "all_files pl f (nd_fs nd)" "all_tasks pl f (nd_tasks nd)"
    and "Hc h" and "tm_worker (nd_tasks nd) = Running t" and j: "j \<in> jobs pl" "task_id t = jb_uri j"
    and step: "\<And>x bufs d nd1. ReqRsTask_run h (jb_uri j) nd = Inr nd1 \<Longrightarrow> nd_tasks nd1 = nd_tasks nd \<Longrightarrow>
      P x bufs d \<longleftrightarrow> x = Finish \<and> d = \<lparr>dm_node = nd1\<lparr>nd_tasks := task_over t (nd_tasks nd)\<rparr>, dm_bufs = bufs\<rparr>"
  shows "\<exists>nd' j f'. (\<forall>x bufs d. P x bufs d \<longleftrightarrow> x = Finish \<and> d = \<lparr>dm_node = nd', dm_bufs = bufs\<rparr>) \<and>
    client_holds Hc lk pl f' nd' \<and> task_turns (nd_tasks nd') < task_turns (nd_tasks nd) \<and>
    (f' = f \<and> ctx_sent (nd_fw nd') = ctx_sent (nd_fw nd) \<or>
     f' = asks_for j f \<and> j \<in> jobs pl \<and> 0 < fl_free f j \<and>
       ctx_sent (nd_fw nd') = ctx_sent (nd_fw nd) @ [(lk_server lk, ask_wire (j, fl_free f j - 1))])"
proof -
  have alone: "length (on_way j f) = 0 \<and> missing j f \<noteq> 0" if "pl_jobs pl = [j]"
  proof -
    have "count_list (duties (nd_tasks nd)) (jb_uri j) + length (on_way j f) = (if missing j f = 0 then 0 else 1)"
      "0 < count_list (duties (nd_tasks nd)) (jb_uri j)"
      using c(6) that assms(9) j(2) by (auto simp: all_tasks_def duties_def current_def)
    moreover have "length (on_way j f) = 0" if "count_list (duties (nd_tasks nd)) (jb_uri j) + length (on_way j f) = 1"
      using that calculation(2) by linarith
    ultimately show ?thesis by (auto split: if_splits)
  qed
  then have "pl_jobs pl = [j] \<longrightarrow> missing j f \<noteq> 0" by simp
  from task_runs [OF assms(1) c(1,2) assms(8) c(3,4) j(1) this] show ?thesis
  proof (elim disjE exE conjE, goal_cases)
    case (1 m')
    have "pl_jobs pl = [j] \<Longrightarrow> length (on_way j f) = 1 \<and> missing j f \<noteq> 0" using alone 1(3) by (auto simp: missing_def)
    note over = task_over_tasks [OF assms(1) c(6) assms(9) j(1,2) _ _ this]
    let ?nd' = "nd\<lparr>nd_rsm := Manager m', nd_tasks := task_over t (nd_tasks nd)\<rparr>"
    have "client_can Hc lk pl ?nd'" by (rule client_can_frame [OF c(2)]) (simp_all add: nd_fw_def)
    then have "client_holds Hc lk pl f ?nd'"
      using c(1,5) 1(2,3) over(1) by (simp add: client_holds_def)
    then show ?case using step [OF 1(1)] over(2) 1(3)
      by (intro exI [of _ ?nd'] exI [of _ j] exI [of _ f]) (simp add: nd_fw_def)
  next
    case (2 m')
    let ?nd1 = "sent_to (lk_server lk) (request_wire j (jb_blocks j ! (fl_free f j - 1))) (nd\<lparr>nd_rsm := Manager m'\<rparr>)"
    have only: "fl_free (asks_for j f) i = fl_free f i \<and> on_way i (asks_for j f) = on_way i f" if "i \<noteq> j" for i
      using that by (simp add: asks_for_def on_way_def)
    have "pl_jobs pl = [j] \<Longrightarrow> length (on_way j (asks_for j f)) = 1 \<and> missing j (asks_for j f) \<noteq> 0"
      using alone 2(3) by simp
    note over = task_over_tasks [OF assms(1) c(6) assms(9) j(1,2) only _ this, simplified]
    let ?nd' = "?nd1\<lparr>nd_tasks := task_over t (nd_tasks nd)\<rparr>"
    have "client_can Hc lk pl ?nd'" by (rule client_can_frame [OF c(2)]) simp_all
    moreover have "all_files pl (asks_for j f) (nd_fs nd)" using c(5) 2(3) by (simp add: all_files_def)
    ultimately have "client_holds Hc lk pl (asks_for j f) ?nd'"
      using asks_for_flow_ok [OF c(1) j(1) 2(3,4)] 2(2) over(1) by (simp add: client_holds_def)
    moreover have "ctx_sent (nd_fw ?nd') = ctx_sent (nd_fw nd) @ [(lk_server lk, ask_wire (j, fl_free f j - 1))]"
      by (simp add: ask_wire_def)
    ultimately show ?case using step [OF 2(1)] over(2) 2(3) j(1)
      by (intro exI [of _ ?nd'] exI [of _ j] exI [of _ "asks_for j f"]) simp
  qed
qed

text \<open>The running task asks for a block, or has nothing to ask for.\<close>

lemma running_turn:
  assumes "plan_ok pl" and "client_holds Hc lk pl f nd" and "Hc h" and "tm_worker (nd_tasks nd) = Running t"
  shows "\<exists>nd' j f'. (\<forall>x bufs d. dm_step h (Worker x) \<lparr>dm_node = nd, dm_bufs = bufs\<rparr> d \<longleftrightarrow> x = Finish \<and> d = \<lparr>dm_node = nd', dm_bufs = bufs\<rparr>) \<and>
    client_holds Hc lk pl f' nd' \<and> task_turns (nd_tasks nd') < task_turns (nd_tasks nd) \<and>
    (f' = f \<and> ctx_sent (nd_fw nd') = ctx_sent (nd_fw nd) \<or>
     f' = asks_for j f \<and> j \<in> jobs pl \<and> 0 < fl_free f j \<and>
       ctx_sent (nd_fw nd') = ctx_sent (nd_fw nd) @ [(lk_server lk, ask_wire (j, fl_free f j - 1))])"
proof -
  obtain m where c: "flow_ok pl f" "client_can Hc lk pl nd" "nd_rsm nd = Manager m" "all_books lk pl f m"
    "all_files pl f (nd_fs nd)" "all_tasks pl f (nd_tasks nd)"
    using assms(2) by (auto simp: client_holds_def)
  have "t \<in> set (current (nd_tasks nd) @ tasks (nd_tasks nd))" using assms(4) by (simp add: current_def)
  then have t: "task_id t \<in> jb_uri ` jobs pl \<union> void_uris pl" "task_body t = task_id t"
    using c(6) by (auto simp: all_tasks_def worker_ok_def duties_def)
  have step: "dm_step h (Worker x) \<lparr>dm_node = nd, dm_bufs = bufs\<rparr> d \<longleftrightarrow> x = Finish \<and>
      d = \<lparr>dm_node = nd1\<lparr>nd_tasks := task_over t (nd_tasks nd)\<rparr>, dm_bufs = bufs\<rparr>"
    if "ReqRsTask_run h (task_id t) nd = Inr nd1" "nd_tasks nd1 = nd_tasks nd" for x bufs d nd1
    using running_step [of "\<lparr>dm_node = nd, dm_bufs = bufs\<rparr>" t h nd1 x d] assms(4) that t(2) by (simp add: task_over_def)
  show ?thesis
  proof (cases "task_id t \<in> void_uris pl")
    case True
    obtain m' where run: "ReqRsTask_run h (task_id t) nd = Inr (nd\<lparr>nd_rsm := Manager m'\<rparr>)" "all_books lk pl f m'"
      using void_run [OF assms(1) c(2) assms(3) c(3,4) True] by blast
    note over = void_over_tasks [OF assms(1) c(6) assms(4) True]
    let ?nd' = "nd\<lparr>nd_rsm := Manager m', nd_tasks := task_over t (nd_tasks nd)\<rparr>"
    have "client_can Hc lk pl ?nd'" by (rule client_can_frame [OF c(2)]) (simp_all add: nd_fw_def)
    then have "client_holds Hc lk pl f ?nd'"
      using c(1,5) run(2) over(1) by (simp add: client_holds_def)
    then show ?thesis using step [OF run(1)] over(2)
      by (intro exI [of _ ?nd'] exI [of _ undefined] exI [of _ f]) (simp add: nd_fw_def)
  next
    case False
    then obtain j where j: "j \<in> jobs pl" "task_id t = jb_uri j" using t(1) by auto
    show ?thesis using task_turn [OF assms(1) c assms(3,4) j step [unfolded j(2)]] by blast
  qed
qed
section \<open>Every run ends with the files in place\<close>

lemma client_busy:
  assumes "all_tasks pl f m"
  shows "idle m \<or> (\<exists>t. tm_worker m = Running t)"
  using assms by (cases "tm_worker m") (auto simp: all_tasks_def worker_ok_def idle_def)

lemma batch_client_works:
  assumes "batch_at Hc Hs lk pl f s" and "Hc h" and "dm_step h (Worker x) (nt_client s) d"
    and s': "s' = s\<lparr>nt_client := d, nt_up := nt_up s @ emitted (lk_server lk) (nt_client s) d\<rparr>"
  shows "\<exists>f'. batch_at Hc Hs lk pl f' s' \<and> (batch_left pl f' s', batch_left pl f s) \<in> less5"
proof -
  let ?c = "nt_client s"
  obtain bufs nd where c: "?c = \<lparr>dm_node = nd, dm_bufs = bufs\<rparr>" by (cases ?c) auto
  have b: "plan_ok pl" "client_holds Hc lk pl f nd" using assms(1) by (simp_all add: batch_at_def c)
  have at: "all_tasks pl f (nd_tasks nd)" using b(2) by (simp add: client_holds_def)
  from client_busy [OF at] show ?thesis
  proof (elim disjE exE)
    assume idle: "idle (nd_tasks nd)"
    obtain tm where tm: "d = \<lparr>dm_node = nd\<lparr>nd_tasks := tm\<rparr>, dm_bufs = bufs\<rparr>" "all_tasks pl f tm"
      "task_turns tm < task_turns (nd_tasks nd)"
      using idle_turn [OF at idle] assms(3) unfolding c by blast
    have e: "emitted (lk_server lk) ?c d = []" by (rule emitted_segment) (simp add: tm(1) c nd_fw_def)
    have "batch_at Hc Hs lk pl f s'"
      using assms(1) holds_tasks [OF b(2) tm(2)] by (simp add: batch_at_def s' e) (simp add: tm(1) c)
    moreover have "(batch_left pl f s', batch_left pl f s) \<in> less5"
      using tm(3) by (simp add: batch_left_def less5_iff s') (simp add: tm(1) c)
    ultimately show ?thesis by blast
  next
    fix t assume run: "tm_worker (nd_tasks nd) = Running t"
    obtain nd' j f' where step: "\<forall>x bufs d. dm_step h (Worker x) \<lparr>dm_node = nd, dm_bufs = bufs\<rparr> d \<longleftrightarrow>
          x = Finish \<and> d = \<lparr>dm_node = nd', dm_bufs = bufs\<rparr>"
      and holds: "client_holds Hc lk pl f' nd'" and less: "task_turns (nd_tasks nd') < task_turns (nd_tasks nd)"
      and f': "f' = f \<and> ctx_sent (nd_fw nd') = ctx_sent (nd_fw nd) \<or>
        f' = asks_for j f \<and> j \<in> jobs pl \<and> 0 < fl_free f j \<and>
          ctx_sent (nd_fw nd') = ctx_sent (nd_fw nd) @ [(lk_server lk, ask_wire (j, fl_free f j - 1))]"
      using running_turn [OF b assms(2) run] by blast
    have d: "d = \<lparr>dm_node = nd', dm_bufs = bufs\<rparr>" using step assms(3) by (simp add: c)
    from f' show ?thesis
    proof (elim disjE conjE)
      assume same: "f' = f" "ctx_sent (nd_fw nd') = ctx_sent (nd_fw nd)"
      then have e: "emitted (lk_server lk) ?c d = []" by (intro emitted_same) (simp add: d c)
      have "batch_at Hc Hs lk pl f s'"
        using assms(1) holds same(1) by (simp add: batch_at_def s' e) (simp add: d c)
      moreover have "(batch_left pl f s', batch_left pl f s) \<in> less5"
        using less by (simp add: batch_left_def less5_iff s') (simp add: d c)
      ultimately show ?thesis by blast
    next
      assume ask: "f' = asks_for j f" "j \<in> jobs pl" "0 < fl_free f j"
        "ctx_sent (nd_fw nd') = ctx_sent (nd_fw nd) @ [(lk_server lk, ask_wire (j, fl_free f j - 1))]"
      have e: "emitted (lk_server lk) ?c d = ask_wire (j, fl_free f j - 1)" by (rule emitted_sent) (simp add: d c ask(4))
      have flow: "fl_asks f' = fl_asks f @ [(j, fl_free f j - 1)]" "fl_answers f' = fl_answers f"
        by (simp_all add: ask(1) asks_for_def)
      have "batch_at Hc Hs lk pl f' s'"
        using assms(1) holds by (simp add: batch_at_def s' e flow) (simp add: d c)
      moreover have "(\<Sum>i \<in> jobs pl. missing i f') = (\<Sum>i \<in> jobs pl. missing i f)" by (simp add: ask(1,3))
      moreover have "(\<Sum>i \<in> jobs pl. fl_free f' i) < (\<Sum>i \<in> jobs pl. fl_free f i)"
        using ask(2,3) by (intro sum_strict_mono_ex1) (auto simp: ask(1) asks_for_def)
      ultimately show ?thesis by (intro exI [of _ f']) (simp add: batch_left_def less5_iff)
    qed
  qed
qed

lemma batch_turn:
  assumes "batch_at Hc Hs lk pl f s" and "net_step Hc Hs lk s s'"
  shows "\<exists>f'. batch_at Hc Hs lk pl f' s' \<and> (batch_left pl f' s', batch_left pl f s) \<in> less5"
  using assms(2)
proof (cases rule: net_step.cases)
  case (client_works h x d)
  then show ?thesis using batch_client_works [OF assms(1)] by blast
next
  case (server_works h x d)
  then show ?thesis using batch_server_works [OF assms(1)] by blast
next
  case (to_server h seg rest d)
  then show ?thesis using batch_to_server_turn [OF assms(1)] by blast
next
  case (to_client h seg rest d)
  then show ?thesis using batch_to_client_turn [OF assms(1)] by blast
qed

lemma client_can_run:
  assumes "batch_at Hc Hs lk pl f s" and "Hc h" and "tm_worker (nd_tasks (dm_node (nt_client s))) = Running t"
  shows "\<exists>d. dm_step h (Worker Finish) (nt_client s) d"
proof -
  obtain bufs nd where c: "nt_client s = \<lparr>dm_node = nd, dm_bufs = bufs\<rparr>" by (cases "nt_client s") auto
  have "plan_ok pl" "client_holds Hc lk pl f nd" using assms(1) by (simp_all add: batch_at_def c)
  from running_turn [OF this assms(2)] assms(3) show ?thesis unfolding c by auto
qed

text \<open>As long as a block is missing there is something to do.\<close>

lemma batch_moves:
  assumes "batch_at Hc Hs lk pl f s" and "f \<noteq> all_done"
  shows "\<exists>s'. net_step Hc Hs lk s s'"
proof -
  obtain hc hs where h: "Hc hc" "Hs hs" using assms(1) by (auto simp: batch_at_def)
  have b: "plan_ok pl" "flow_ok pl f" "all_tasks pl f (nd_tasks (dm_node (nt_client s)))"
    using assms(1) by (simp_all add: batch_at_def client_holds_def)
  note frames = way_streams(1,2) [OF b(1,2)]
  consider (asks) "fl_asks f \<noteq> []" | (answers) "fl_answers f \<noteq> []" | (free) "fl_asks f = []" "fl_answers f = []" by blast
  then show ?thesis
  proof cases
    case asks
    then have "nt_up s \<noteq> []" using assms(1) stream_empty [OF _ frames(1)] by (auto simp: batch_at_def)
    with batch_to_server [OF assms(1) h(2), of "nt_up s" "[]"] obtain d
      where "dm_step hs (Bytes (lk_sctx lk) (nt_up s)) (nt_server s) d" by auto
    then show ?thesis using net_step.to_server [of Hs hs s "nt_up s" "[]", OF h(2)] \<open>nt_up s \<noteq> []\<close> by auto
  next
    case answers
    then have "nt_down s \<noteq> []" using assms(1) stream_empty [OF _ frames(2)] by (auto simp: batch_at_def)
    with batch_to_client [OF assms(1) h(1), of "nt_down s" "[]"] obtain d
      where "dm_step hc (Bytes (lk_cctx lk) (nt_down s)) (nt_client s) d" by auto
    then show ?thesis using net_step.to_client [of Hc hc s "nt_down s" "[]", OF h(1)] \<open>nt_down s \<noteq> []\<close> by auto
  next
    case free
    then have "fl_free f \<noteq> (\<lambda>_. 0)" using assms(2) by (cases f) (auto simp: all_done_def)
    then obtain j where "fl_free f j \<noteq> 0" by (auto simp: fun_eq_iff)
    moreover from this have "j \<in> jobs pl" using b(2) by (auto simp: flow_ok_def)
    moreover have "on_way j f = []" by (simp add: on_way_def free)
    ultimately have work: "jb_uri j \<in> set (duties (nd_tasks (dm_node (nt_client s))))"
      using b(3) by (simp add: all_tasks_def)
    have "\<exists>x d. dm_step hc (Worker x) (nt_client s) d"
      using client_busy [OF b(3)]
    proof (elim disjE exE)
      assume idle: "idle (nd_tasks (dm_node (nt_client s)))"
      then have "tasks (nd_tasks (dm_node (nt_client s))) \<noteq> []" using work by (auto simp: idle_def current_def duties_def)
      then show ?thesis using idle_step [OF idle] idle by (auto simp: idle_def neq_Nil_conv)
    qed (use client_can_run [OF assms(1) h(1)] in blast)
    then show ?thesis using net_step.client_works [of Hc hc, OF h(1)] by blast
  qed
qed

interpretation batch: staged "net_step Hc Hs lk" "batch_at Hc Hs lk pl" "batch_left pl" less5 all_done for Hc Hs lk pl
  by unfold_locales (use wf_less5 batch_turn batch_moves in blast)+

lemma batch_safe:
  assumes "batch_at Hc Hs lk pl f s"
  shows "net_safe Hc Hs lk s"
proof -
  have "\<exists>d. dm_step h (Bytes (lk_sctx lk) seg) (nt_server s) d" if "Hs h" "nt_up s = seg @ rest" "seg \<noteq> []" for h seg rest
    using batch_to_server [OF assms that] by blast
  moreover have "\<exists>d. dm_step h (Bytes (lk_cctx lk) seg) (nt_client s) d" if "Hc h" "nt_down s = seg @ rest" "seg \<noteq> []" for h seg rest
    using batch_to_client [OF assms that] by blast
  moreover have "tm_worker (nd_tasks (dm_node (nt_server s))) \<noteq> Running t" for t
    using assms by (auto simp: batch_at_def server_holds_def idle_def)
  ultimately show ?thesis using client_can_run [OF assms] by (simp add: net_safe_def)
qed

text \<open>What is so all the time, and at the end.\<close>

definition settled_entry :: "plan \<Rightarrow> string \<Rightarrow> sync_rs \<Rightarrow> bool" where
  "settled_entry pl u rs \<longleftrightarrow> u \<in> void_uris pl \<and> set (rs_block rs) \<subseteq> {Block 0 0} \<or>
     rs = SyncRs_default \<and> length (pl_jobs pl) \<noteq> 1"

lemma batch_facts:
  assumes "batch_at Hc Hs lk pl f s"
  shows "p \<notin> job_path ` jobs pl \<Longrightarrow> nd_fs (dm_node (nt_client s)) p = pl_fs pl p"
    and "\<not> (\<exists>s'. net_step Hc Hs lk s s') \<Longrightarrow>
      (\<forall>j \<in> jobs pl. nd_fs (dm_node (nt_client s)) (job_path j) = Some (jb_content j)) \<and>
      (\<exists>m. nd_rsm (dm_node (nt_client s)) = Manager m \<and> (\<forall>u rs. str_find u (uriRs m) = Some rs \<longrightarrow> settled_entry pl u rs))"
proof -
  let ?nd = "dm_node (nt_client s)"
  have c: "client_holds Hc lk pl f ?nd" using assms by (simp add: batch_at_def)
  show "p \<notin> job_path ` jobs pl \<Longrightarrow> nd_fs ?nd p = pl_fs pl p" using c by (simp add: client_holds_def all_files_def)
  assume "\<not> (\<exists>s'. net_step Hc Hs lk s s')"
  then have "f = all_done" using batch_moves [OF assms] by blast
  then have none: "missing j f = 0" for j by (simp add: missing_def on_way_def all_done_def)
  obtain m where m: "nd_rsm ?nd = Manager m" "all_books lk pl f m" "all_files pl f (nd_fs ?nd)"
    using c by (auto simp: client_holds_def)
  have "settled_entry pl u rs" if "str_find u (uriRs m) = Some rs" for u rs
  proof (cases "u \<in> void_uris pl")
    case True
    then have "void_entry lk (Some rs)" using m(2) that by (fastforce simp: all_books_def)
    then show ?thesis using True by (auto simp: settled_entry_def void_entry_def)
  next
    case False
    have "u \<in> sm_keys (uriRs m)" using str_map.find_Some_in [OF that] by (force simp: sm_keys_def)
    then obtain j where j: "j \<in> jobs pl" "u = jb_uri j" using m(2) False by (auto simp: all_books_def)
    then have "job_entry lk pl j f (Some rs)" using m(2) that by (auto simp: all_books_def)
    then have "rs = SyncRs_default" "pl_jobs pl \<noteq> [j]" by (simp_all add: job_entry_def none)
    then show ?thesis using j(1) by (auto simp: settled_entry_def length_Suc_conv)
  qed
  moreover have "nd_fs ?nd (job_path j) = Some (jb_content j)" if "j \<in> jobs pl" for j
    using m(3) that none [of j] by (auto simp: all_files_def job_file_def)
  ultimately show "(\<forall>j \<in> jobs pl. nd_fs ?nd (job_path j) = Some (jb_content j)) \<and>
      (\<exists>m. nd_rsm ?nd = Manager m \<and> (\<forall>u rs. str_find u (uriRs m) = Some rs \<longrightarrow> settled_entry pl u rs))"
    using m(1) by blast
qed

end
