(* ===== verification/Sync_Session.thy ===== *)
theory Sync_Session
  imports Batch_Run
begin

text \<open>
  A whole session: the client has asked for the table of a server. The server lists its files and
  sends the table, the client compares it with what it has and enters every file it wants in its
  books, and then the files are fetched as in \<open>Batch_Run\<close>.
\<close>

section \<open>The table\<close>

definition tick_wire :: bytes where
  "tick_wire = wire_bytes (tick_pkt False)"

definition table_wire :: "resource list \<Rightarrow> bytes" where
  "table_wire ls = wire_bytes (table_reply ls)"

lemma tick_frame: "pkt_frame tick_wire"
proof -
  have "tick_pkt False = the_packet LAN_SYNC_TYPE_GET_TABLE_INDEX [] None"
    by (simp add: tick_pkt_def no_headers)
  then show ?thesis
    using the_packet_facts [OF no_kvs, of None, where ty = LAN_SYNC_TYPE_GET_TABLE_INDEX]
    by (simp add: tick_wire_def payload_def frame_of_wire)
qed

lemma table_frame:
  assumes "\<forall>r \<in> set ls. proper r" and "length ls * SIZEOF_RESOURCE < 2 ^ 23"
  shows "pkt_frame (table_wire ls)"
  using the_packet_facts(1,3,6) [OF no_kvs table_reply_facts(2) [OF assms], where ty = LAN_SYNC_TYPE_REPLY_TABLE_INDEX]
  by (simp add: table_wire_def table_reply_def frame_of_wire)

text \<open>What a node takes from a table.\<close>

definition wanted_from :: "host \<Rightarrow> node \<Rightarrow> resource list \<Rightarrow> resource \<Rightarrow> bool" where
  "wanted_from h nd table r \<longleftrightarrow> (\<exists>nm. last_named table nm = Some r \<and>
     (\<forall>f \<in> set (home_files (nd_rlm nd) (h_tree h (nd_fs nd))). filename (fst f) = nm \<longrightarrow>
        wanted_over r (file_entry (host_digester h (nd_fs nd)) (lm_home (nd_rlm nd)) f)))"

section \<open>The stages before the transfer\<close>

text \<open>The server has the files with the entries \<open>T\<close>, those of the plan among them.\<close>

definition offers :: "host \<Rightarrow> node \<Rightarrow> job \<Rightarrow> bool" where
  "offers h nd j \<longleftrightarrow>
     (let home = lm_home (nd_rlm nd); path = home @ jb_uri j in
      (path, jb_content j) \<in> set (home_files (nd_rlm nd) (h_tree h (nd_fs nd))) \<and>
      jb_res j = file_entry (host_digester h (nd_fs nd)) home (path, jb_content j) \<and>
      jb_hash j = hexdump (h_sha3 h (jb_content j)) \<and> h_access h path \<and> nd_fs nd path = Some (jb_content j) \<and> h_read h (nd_fs nd) path = full_read (jb_content j))"

definition lists_files :: "host \<Rightarrow> resource set \<Rightarrow> node \<Rightarrow> bool" where
  "lists_files h T nd \<longleftrightarrow>
     (let files = home_files (nd_rlm nd) (h_tree h (nd_fs nd)) in
      host_law h \<and> scannable (nd_rlm nd) (h_tree h (nd_fs nd)) \<and> length files \<le> 1000 \<and>
      (\<forall>f \<in> set files. filename (fst f) \<noteq> []) \<and> T = file_entry (host_digester h (nd_fs nd)) (lm_home (nd_rlm nd)) ` set files)"

definition server_lists :: "(host \<Rightarrow> bool) \<Rightarrow> link \<Rightarrow> plan \<Rightarrow> resource set \<Rightarrow> node \<Rightarrow> bool" where
  "server_lists Hs lk pl T nd \<longleftrightarrow>
     (\<forall>h. Hs h \<longrightarrow> open_conn h (lk_sctx lk) (lk_client lk) nd \<and> lists_files h T nd \<and> (\<forall>j \<in> jobs pl. offers h nd j)) \<and>
     tasks (nd_tasks nd) = [] \<and> idle (nd_tasks nd)"

text \<open>
  The client has nothing to do, and of a table of \<open>T\<close> it will want exactly the files of the plan: those
  to fetch, and the empty ones.
\<close>

definition wants_plan :: "host \<Rightarrow> plan \<Rightarrow> resource set \<Rightarrow> node \<Rightarrow> bool" where
  "wants_plan h pl T nd \<longleftrightarrow> (\<forall>table. set table = T \<longrightarrow> (\<forall>r. wanted_from h nd table r \<longleftrightarrow> r \<in> jb_res ` jobs pl \<union> pl_void pl))"

definition client_new :: "(host \<Rightarrow> bool) \<Rightarrow> link \<Rightarrow> plan \<Rightarrow> resource set \<Rightarrow> node \<Rightarrow> bool" where
  "client_new Hc lk pl T nd \<longleftrightarrow> client_can Hc lk pl nd \<and> nd_rsm nd = Manager sync_manager_init \<and> nd_fs nd = pl_fs pl \<and>
     tasks (nd_tasks nd) = [] \<and> idle (nd_tasks nd) \<and> (\<forall>h. Hc h \<longrightarrow> wants_plan h pl T nd)"

definition session_ok :: "plan \<Rightarrow> resource set \<Rightarrow> bool" where
  "session_ok pl T \<longleftrightarrow> plan_ok pl \<and> (\<forall>r \<in> T. proper r \<and> res_ok r \<and> str_name r \<noteq> []) \<and>
     inj_on (\<lambda>r. arr_str (r_uri r)) T \<and> (\<forall>r \<in> pl_void pl. r_size r = 0) \<and>
     (\<forall>j \<in> jobs pl. jb_blocks j = initial_blocks (of_nat (length (jb_content j))) \<and>
        arr_str (r_uri (jb_res j)) = Inr (jb_uri j) \<and> r_size (jb_res j) = of_nat (length (jb_content j)))"

text \<open>All blocks of all files are free.\<close>

definition start_flow :: "plan \<Rightarrow> flow" where
  "start_flow pl = \<lparr>fl_free = (\<lambda>j. if j \<in> jobs pl then length (jb_blocks j) else 0), fl_asks = [], fl_answers = []\<rparr>"

lemma start_flow_simps [simp]:
  "on_way j (start_flow pl) = []" "fl_asks (start_flow pl) = []" "fl_answers (start_flow pl) = []"
  "missing j (start_flow pl) = (if j \<in> jobs pl then length (jb_blocks j) else 0)"
  by (simp_all add: on_way_def start_flow_def missing_def)

lemma start_flow_ok: "flow_ok pl (start_flow pl)"
  by (simp add: flow_ok_def) (simp add: start_flow_def)

lemma start_files:
  assumes "plan_ok pl"
  shows "all_files pl (start_flow pl) (pl_fs pl)"
proof -
  have "job_file j (length (jb_blocks j)) (pl_fs pl)" if "j \<in> jobs pl" for j
  proof -
    have j: "job_ok j" "jb_fs j = pl_fs pl" using assms that by (simp_all add: plan_ok_def)
    then show ?thesis using start_mark [OF j(1)] fetched_start by (simp add: job_file_def job_ok_def)
  qed
  then show ?thesis by (simp add: all_files_def)
qed

text \<open>The server lists its files and answers with the table.\<close>

lemma listing_served:
  assumes "server_lists Hs lk pl T nd" and "session_ok pl T" and "Hs h"
  shows "\<exists>ls nd'. set ls = T \<and> length ls \<le> 1000 \<and>
    (\<forall>rest n. recv_tcp h (lk_sctx lk) (tick_wire @ rest) n nd = Some (Inr nd')) \<and>
    ctx_sent (nd_fw nd') = ctx_sent (nd_fw nd) @ [(lk_client lk, table_wire ls)] \<and> server_holds Hs lk pl nd'"
proof -
  let ?home = "lm_home (nd_rlm nd)"
  let ?files = "\<lambda>h. home_files (nd_rlm nd) (h_tree h (nd_fs nd))"
  have l: "open_conn h (lk_sctx lk) (lk_client lk) nd" "host_law h" "scannable (nd_rlm nd) (h_tree h (nd_fs nd))"
    "length (?files h) \<le> 1000" "T = file_entry (host_digester h (nd_fs nd)) ?home ` set (?files h)" "\<forall>j \<in> jobs pl. offers h nd j" if "Hs h" for h
    using assms(1) that by (simp_all add: server_lists_def lists_files_def Let_def)
  note l0 = l [OF assms(3)]
  obtain ls lm where t: "getTable (host_digester h (nd_fs nd)) (h_cwd h) (h_tree h (nd_fs nd)) (nd_rlm nd) = Inr (map Some ls, lm)"
    and ls: "set ls = T" "length ls \<le> 1000" and lm: "lm_home lm = ?home"
    and find: "str_find u (lm_table lm) = map_option (\<lambda>c. Some (file_entry (host_digester h (nd_fs nd)) ?home (?home @ u, c)))
      (map_of (?files h) (?home @ u))" for u
    using getTable_files [OF host_digest_law [OF l0(2), where fs = "nd_fs nd"] l0(3), where cwd = "h_cwd h"] l0(4,5) by auto
  have home: "?home \<noteq> []" using l0(3) by (auto simp: scannable_def)
  have small: "length ls * SIZEOF_RESOURCE < 2 ^ 23" using ls(2) by (simp add: SIZEOF_RESOURCE_def)
  have props: "\<forall>r \<in> set ls. proper r" using assms(2) ls(1) by (simp add: session_ok_def)
  let ?nd = "sent_to (lk_client lk) (table_wire ls) (nd\<lparr>nd_rlm := lm\<rparr>)"
  have served: "recv_tcp h (lk_sctx lk) (tick_wire @ rest) n nd = Some (Inr ?nd)" for rest n
    unfolding tick_wire_def table_wire_def by (rule table_served [OF l0(1) home t props small])
  have "holds_file h' (jb_uri j) (jb_hash j) (jb_res j) (jb_content j) ?nd" if "Hs h'" "j \<in> jobs pl" for h' j
  proof -
    have o: "offers h nd j" "offers h' nd j" using l(6) [OF assms(3)] l(6) [OF that(1)] that(2) by blast+
    have "distinct (map fst (?files h))" using l0(3) by (simp add: scannable_def)
    then have "map_of (?files h) (?home @ jb_uri j) = Some (jb_content j)" using o(1) by (simp add: offers_def Let_def)
    then have "str_find (jb_uri j) (lm_table lm) = Some (Some (jb_res j))"
      using find [of "jb_uri j"] o(1) unfolding offers_def Let_def by simp
    moreover have "c_string (?home @ jb_uri j)" using l0(3) o(1) by (force simp: scannable_def file_fits_def offers_def Let_def)
    moreover have "arr_str (r_uri (jb_res j)) = Inr (jb_uri j)" "length (jb_content j) < 2 ^ 32"
      using assms(2) that(2) by (simp_all add: session_ok_def plan_ok_def job_ok_def)
    ultimately show ?thesis
      using o(2) home lm file_entry_str [OF host_digest_law [OF l(2) [OF that(1)]], of "?home @ jb_uri j"]
      by (simp add: holds_file_def offers_def digest_of_host Let_def)
  qed
  moreover have "open_conn h' (lk_sctx lk) (lk_client lk) ?nd" if "Hs h'" for h'
    using l(1) [OF that] by (simp add: open_conn_def nd_fw_def sent_to_def set_fw_def)
  moreover have "tasks (nd_tasks ?nd) = []" "idle (nd_tasks ?nd)"
    using assms(1) by (simp_all add: server_lists_def)
  ultimately have "server_holds Hs lk pl ?nd" by (simp add: server_holds_def)
  moreover have "ctx_sent (nd_fw ?nd) = ctx_sent (nd_fw nd) @ [(lk_client lk, table_wire ls)]"
    by simp (simp add: nd_fw_def)
  ultimately show ?thesis using served ls by blast
qed

text \<open>The client enters the files it wants.\<close>

abbreviation uri_of :: "resource \<Rightarrow> string res" where
  "uri_of r \<equiv> arr_str (r_uri r)"

definition entered :: "link \<Rightarrow> resource \<Rightarrow> sync_rs option \<Rightarrow> bool" where
  "entered lk r e \<longleftrightarrow> (\<exists>rs. e = Some rs \<and> rs_block rs = initial_blocks (r_size r) \<and> elems (rs_owner rs) = [lk_server lk] \<and>
     elems (rs_syncing rs) = [])"

lemma entered_books:
  "session_ok pl T \<Longrightarrow> j \<in> jobs pl \<Longrightarrow> entered lk (jb_res j) e \<Longrightarrow> job_entry lk pl j (start_flow pl) e"
  by (auto simp: session_ok_def entered_def job_entry_def plan_ok_def job_ok_def) (auto simp: start_flow_def)

lemma entered_void: "r_size r = 0 \<Longrightarrow> entered lk r e \<Longrightarrow> void_entry lk e"
  by (auto simp: entered_def void_entry_def initial_blocks_def BLOCK_SIZE_eq)

lemma file_entered:
  assumes "str_find u (uriRs m) = None" and "mgr_sorted m"
  shows "\<exists>m'. regSyncRs (lk_server lk) u hash (r_size r) m = Inr (True, m') \<and> mgr_sorted m' \<and>
    entered lk r (str_find u (uriRs m')) \<and> (\<forall>w. w \<noteq> u \<longrightarrow> str_find w (uriRs m') = str_find w (uriRs m))"
proof -
  let ?m = "assign_entry u (SyncRs_new u (r_size r) hash (lk_server lk)) m"
  have "regSyncRs (lk_server lk) u hash (r_size r) m = Inr (True, ?m)" using assms(1) by (simp add: regSyncRs_def)
  moreover have "entered lk r (str_find u (uriRs ?m))"
    by (simp add: entered_def rs_assign_def SyncRs_new_def)
  ultimately show ?thesis using assms(2) by auto
qed

lemma register_all:
  assumes "distinct rs" and "inj_on uri_of (set rs)" and "\<forall>r \<in> set rs. res_ok r" and "mgr_sorted m"
    and "\<forall>r \<in> set rs. \<forall>u. uri_of r = Inr u \<longrightarrow> str_find u (uriRs m) = None"
  shows "\<exists>m'. rfold (\<lambda>r m. rbind (arr_str (r_uri r)) (\<lambda>uri. rbind (arr_str (r_hash r)) (\<lambda>hash.
      rbind (regSyncRs (lk_server lk) uri hash (r_size r) m) (\<lambda>(_, m'). Inr m')))) rs m = Inr m' \<and> mgr_sorted m' \<and>
    (\<forall>r \<in> set rs. \<forall>u. uri_of r = Inr u \<longrightarrow> entered lk r (str_find u (uriRs m'))) \<and>
    (\<forall>u. Inr u \<notin> uri_of ` set rs \<longrightarrow> str_find u (uriRs m') = str_find u (uriRs m))"
  using assms
proof (induction rs arbitrary: m)
  case (Cons r rs)
  let ?F = "\<lambda>r m. rbind (arr_str (r_uri r)) (\<lambda>uri. rbind (arr_str (r_hash r)) (\<lambda>hash.
      rbind (regSyncRs (lk_server lk) uri hash (r_size r) m) (\<lambda>(_, m'). Inr m')))"
  obtain u hash where u: "uri_of r = Inr u" and hash: "arr_str (r_hash r) = Inr hash"
    using Cons.prems(3) by (auto simp: res_ok_def)
  have "str_find u (uriRs m) = None" using Cons.prems(5) u by simp
  from file_entered [OF this Cons.prems(4)] obtain m1
    where m1: "regSyncRs (lk_server lk) u hash (r_size r) m = Inr (True, m1)" "mgr_sorted m1"
      "entered lk r (str_find u (uriRs m1))" "\<forall>w. w \<noteq> u \<longrightarrow> str_find w (uriRs m1) = str_find w (uriRs m)" by blast
  have other: "uri_of r' \<noteq> Inr u" if "r' \<in> set rs" for r'
    using Cons.prems(1,2) u that by (auto simp: inj_on_def)
  have fresh: "\<forall>r \<in> set rs. \<forall>w. uri_of r = Inr w \<longrightarrow> str_find w (uriRs m1) = None"
    using Cons.prems(5) m1(4) other by (metis list.set_intros(2))
  have "distinct rs" "inj_on uri_of (set rs)" "\<forall>r \<in> set rs. res_ok r" using Cons.prems(1-3) by (simp_all add: inj_on_insert)
  from Cons.IH [OF this m1(2) fresh] obtain m' where m': "rfold ?F rs m1 = Inr m'" "mgr_sorted m'"
    "\<forall>r \<in> set rs. \<forall>u. uri_of r = Inr u \<longrightarrow> entered lk r (str_find u (uriRs m'))"
    "\<forall>u. Inr u \<notin> uri_of ` set rs \<longrightarrow> str_find u (uriRs m') = str_find u (uriRs m1)" by blast
  have "Inr u \<notin> uri_of ` set rs" using other by force
  then have "entered lk r (str_find u (uriRs m'))" using m'(4) m1(3) by simp
  moreover have "rfold ?F (r # rs) m = Inr m'" using u hash m1(1) m'(1) by simp
  moreover have "str_find w (uriRs m') = str_find w (uriRs m)" if "Inr w \<notin> uri_of ` set (r # rs)" for w
    using that m'(4) m1(4) u by auto
  ultimately show ?case using m'(2,3) u by auto
qed simp

lemma table_wanted:
  assumes "client_new Hc lk pl T nd" and "session_ok pl T" and "Hc h" and "set ls = T"
  shows "\<exists>rlm' m. refreshSyncingRsByTbIdx h (nd_fs nd) (lk_server lk) ls (nd_rlm nd, sync_manager_init) = Inr (rlm', m) \<and>
    lm_home rlm' = lm_home (nd_rlm nd) \<and> all_books lk pl (start_flow pl) m"
proof -
  have c: "host_law h" "scannable (nd_rlm nd) (h_tree h (nd_fs nd))"
    "wanted_from h nd ls r \<longleftrightarrow> r \<in> jb_res ` jobs pl \<union> pl_void pl" for r
    using assms part_of_start by (simp_all add: client_new_def client_can_def wants_plan_def session_ok_def)
  have ok: "\<forall>r \<in> set ls. res_ok r \<and> str_name r \<noteq> []" and inj: "inj_on uri_of T"
    and void: "r \<in> pl_void pl \<Longrightarrow> r_size r = 0" and uri: "j \<in> jobs pl \<Longrightarrow> uri_of (jb_res j) = Inr (jb_uri j)" for r j
    using assms(2,4) by (simp_all add: session_ok_def)
  from cmp_wants [OF host_digest_law [OF c(1)] c(2) ok, where cwd = "h_cwd h"] obtain want lm'
    where cmp: "cmpThenRetNeedToSyncTable (host_digester h (nd_fs nd)) (h_cwd h) (h_tree h (nd_fs nd)) ls (nd_rlm nd) = Inr (want, lm')"
      and want: "distinct want" "\<forall>r. r \<in> set want \<longleftrightarrow> wanted_from h nd ls r" and home: "lm_home lm' = lm_home (nd_rlm nd)"
    unfolding wanted_from_def by blast
  have set: "set want = jb_res ` jobs pl \<union> pl_void pl" using want(2) c(3) by auto
  have sub: "set want \<subseteq> T" using want(2) assms(4) by (auto simp: wanted_from_def last_named_def dest!: map_of_SomeD)
  have ready: "\<forall>r \<in> set want. res_ok r" "inj_on uri_of (set want)"
    using sub ok assms(4) inj_on_subset [OF inj] by auto
  have none: "str_find u (uriRs sync_manager_init) = None" for u by (simp add: sync_manager_init_def)
  with register_all [OF want(1) ready(2,1) mgr_sorted_init, of lk] obtain m
    where m: "rfold (\<lambda>r m. rbind (arr_str (r_uri r)) (\<lambda>uri. rbind (arr_str (r_hash r)) (\<lambda>hash.
        rbind (regSyncRs (lk_server lk) uri hash (r_size r) m) (\<lambda>(_, m'). Inr m')))) want sync_manager_init = Inr m"
      "mgr_sorted m" "\<forall>r \<in> set want. \<forall>u. uri_of r = Inr u \<longrightarrow> entered lk r (str_find u (uriRs m))"
      "\<forall>u. Inr u \<notin> uri_of ` set want \<longrightarrow> str_find u (uriRs m) = None" by auto
  have "u \<in> jb_uri ` jobs pl \<union> void_uris pl" if "u \<in> sm_keys (uriRs m)" for u
  proof -
    have "Inr u \<in> uri_of ` set want" using m(2,4) that by (auto simp: mgr_sorted_def str_map.keys_find)
    then show ?thesis using uri by (auto simp: set void_uris_def)
  qed
  moreover have "void_entry lk (str_find u (uriRs m))" if "u \<in> void_uris pl" for u
    using that m(3) void entered_void by (fastforce simp: void_uris_def set)
  moreover have "job_entry lk pl j (start_flow pl) (str_find (jb_uri j) (uriRs m))" if "j \<in> jobs pl" for j
    using m(3) uri [OF that] that by (intro entered_books [OF assms(2) that]) (auto simp: set)
  ultimately have "all_books lk pl (start_flow pl) m" using m(2) by (auto simp: all_books_def)
  then show ?thesis using cmp m(1) home by (simp add: refreshSyncingRsByTbIdx_def)
qed

lemma table_registered:
  assumes "client_new Hc lk pl T nd" and "session_ok pl T" and "Hc h" and "set ls = T" and "length ls \<le> 1000"
  shows "\<exists>nd'. (\<forall>rest n. recv_tcp h (lk_cctx lk) (table_wire ls @ rest) n nd = Some (Inr nd')) \<and>
    client_holds Hc lk pl (start_flow pl) nd' \<and> nd_fw nd' = nd_fw nd"
proof -
  have c: "client_can Hc lk pl nd" "nd_rsm nd = Manager sync_manager_init" "nd_fs nd = pl_fs pl"
    "tasks (nd_tasks nd) = []" "idle (nd_tasks nd)" and plan: "plan_ok pl"
    using assms(1,2) by (simp_all add: client_new_def session_ok_def)
  have oc: "open_conn h (lk_cctx lk) (lk_server lk) nd" using c(1) assms(3) by (simp add: client_can_def)
  have props: "\<forall>r \<in> set ls. proper r" using assms(2,4) by (simp add: session_ok_def)
  have small: "length ls * SIZEOF_RESOURCE < 2 ^ 23" using assms(5) by (simp add: SIZEOF_RESOURCE_def)
  obtain rlm' m where r: "refreshSyncingRsByTbIdx h (nd_fs nd) (lk_server lk) ls (nd_rlm nd, sync_manager_init) = Inr (rlm', m)"
    "lm_home rlm' = lm_home (nd_rlm nd)" "all_books lk pl (start_flow pl) m"
    using table_wanted [OF assms(1-4)] by blast
  let ?nd = "nd\<lparr>nd_rlm := rlm', nd_rsm := Manager m\<rparr>"
  have none: "duties (nd_tasks nd) = []" using c(4,5) by (auto simp: duties_def current_def idle_def)
  then have "worker_ok pl (nd_tasks nd)" using c(4,5) by (auto simp: worker_ok_def duties_def idle_def)
  with tasks_queued [of pl ?nd m lk "start_flow pl"] r(3) none obtain ts
    where ts: "add_req_task ?nd = Inr (?nd\<lparr>nd_tasks := ts\<rparr>)" "all_tasks pl (start_flow pl) ts" by auto
  let ?nd' = "?nd\<lparr>nd_tasks := ts\<rparr>"
  have "recv_tcp h (lk_cctx lk) (table_wire ls @ rest) n nd = Some (Inr ?nd')" for rest n
    using table_loaded [OF oc c(2) props small, of rest n] r(1) ts(1) by (simp add: table_wire_def)
  moreover have "client_can Hc lk pl ?nd'" by (rule client_can_frame [OF c(1)]) (simp_all add: r(2) nd_fw_def)
  then have "client_holds Hc lk pl (start_flow pl) ?nd'"
    using start_flow_ok start_files [OF plan] r(3) ts(2) by (simp add: client_holds_def c(3))
  ultimately show ?thesis by (intro exI [of _ ?nd']) (simp add: nd_fw_def)
qed

section \<open>The stages of a session\<close>

datatype session_stage = Ticking | Listing "resource list" | Fetching flow

fun session_at :: "(host \<Rightarrow> bool) \<Rightarrow> (host \<Rightarrow> bool) \<Rightarrow> link \<Rightarrow> plan \<Rightarrow> resource set \<Rightarrow> session_stage \<Rightarrow> net \<Rightarrow> bool" where
  "session_at Hc Hs lk pl T Ticking s \<longleftrightarrow> session_ok pl T \<and> (\<exists>h. Hc h) \<and> (\<exists>h. Hs h) \<and>
     client_new Hc lk pl T (dm_node (nt_client s)) \<and> server_lists Hs lk pl T (dm_node (nt_server s)) \<and>
     dm_bufs (nt_client s) (lk_cctx lk) = [] \<and> nt_down s = [] \<and> nt_up s \<noteq> [] \<and>
     dm_bufs (nt_server s) (lk_sctx lk) @ nt_up s = tick_wire"
| "session_at Hc Hs lk pl T (Listing ls) s \<longleftrightarrow> session_ok pl T \<and> (\<exists>h. Hc h) \<and> (\<exists>h. Hs h) \<and>
     client_new Hc lk pl T (dm_node (nt_client s)) \<and> server_holds Hs lk pl (dm_node (nt_server s)) \<and>
     set ls = T \<and> length ls \<le> 1000 \<and>
     dm_bufs (nt_server s) (lk_sctx lk) = [] \<and> nt_up s = [] \<and> nt_down s \<noteq> [] \<and>
     dm_bufs (nt_client s) (lk_cctx lk) @ nt_down s = table_wire ls"
| "session_at Hc Hs lk pl T (Fetching f) s \<longleftrightarrow> batch_at Hc Hs lk pl f s"

definition idle_left :: "net \<Rightarrow> nat \<times> nat \<times> nat \<times> nat \<times> nat" where
  "idle_left s = (0, 0, 0, turns (nt_client s), length (nt_up s) + length (nt_down s) + turns (nt_server s))"

fun session_left :: "plan \<Rightarrow> session_stage \<Rightarrow> net \<Rightarrow> nat \<times> nat \<times> nat \<times> nat \<times> nat \<times> nat" where
  "session_left pl (Fetching f) s = (0, batch_left pl f s)"
| "session_left pl (Listing ls) s = (1, idle_left s)"
| "session_left pl Ticking s = (2, idle_left s)"

definition less6 :: "((nat \<times> nat \<times> nat \<times> nat \<times> nat \<times> nat) \<times> (nat \<times> nat \<times> nat \<times> nat \<times> nat \<times> nat)) set" where
  "less6 = less_than <*lex*> less5"

lemma wf_less6: "wf less6"
  unfolding less6_def by (rule wf_lex_prod [OF wf_less_than wf_less5])

lemma less6_iff [simp]: "((n, a), (n', a')) \<in> less6 \<longleftrightarrow> n < n' \<or> n = n' \<and> (a, a') \<in> less5"
  by (auto simp: less6_def)

text \<open>A worker without a task goes to its wait, once.\<close>

definition waiting :: "daemon \<Rightarrow> daemon" where
  "waiting d = d\<lparr>dm_node := (dm_node d)\<lparr>nd_tasks := (nd_tasks (dm_node d))\<lparr>tm_worker := InWait\<rparr>\<rparr>\<rparr>"

lemma jobless_turn:
  assumes "idle (nd_tasks (dm_node d))" and "tasks (nd_tasks (dm_node d)) = []" and "dm_step h (Worker x) d d'"
  shows "d' = waiting d \<and> turns d = 1"
  using assms idle_step [OF assms(1)] by (auto simp: waiting_def turns_def)

lemma waiting_frame [simp]:
  "dm_bufs (waiting d) = dm_bufs d" "tasks (nd_tasks (dm_node (waiting d))) = tasks (nd_tasks (dm_node d))"
  "nd_fw (dm_node (waiting d)) = nd_fw (dm_node d)" "nd_rlm (dm_node (waiting d)) = nd_rlm (dm_node d)"
  "nd_fs (dm_node (waiting d)) = nd_fs (dm_node d)" "nd_rsm (dm_node (waiting d)) = nd_rsm (dm_node d)"
  "nd_dirs (dm_node (waiting d)) = nd_dirs (dm_node d)" "turns (waiting d) = 0" "emitted peer d (waiting d) = []"
  by (simp_all add: waiting_def nd_fw_def turns_def emitted_def)

lemma waiting_idle: "idle (nd_tasks (dm_node d)) \<Longrightarrow> idle (nd_tasks (dm_node (waiting d)))"
  by (simp add: waiting_def idle_def)

lemma waiting_new:
  assumes "client_new Hc lk pl T (dm_node d)"
  shows "client_new Hc lk pl T (dm_node (waiting d))"
proof -
  have w: "wants_plan h pl T (dm_node (waiting d)) = wants_plan h pl T (dm_node d)" for h
    by (simp add: wants_plan_def wanted_from_def)
  have "client_can Hc lk pl (dm_node d)" using assms by (simp add: client_new_def)
  then have "client_can Hc lk pl (dm_node (waiting d))" by (rule client_can_frame) simp_all
  then show ?thesis using assms waiting_idle [of d] by (simp add: client_new_def w)
qed

lemma waiting_lists:
  assumes "server_lists Hs lk pl T (dm_node d)"
  shows "server_lists Hs lk pl T (dm_node (waiting d))"
proof -
  have "open_conn h i p (dm_node (waiting d)) = open_conn h i p (dm_node d)" for h i p
    by (simp add: open_conn_def)
  moreover have "lists_files h T (dm_node (waiting d)) = lists_files h T (dm_node d)"
    "offers h (dm_node (waiting d)) j = offers h (dm_node d) j" for h j
    by (simp_all add: lists_files_def offers_def)
  ultimately show ?thesis using assms waiting_idle [of d] by (simp add: server_lists_def)
qed

lemma waiting_holds: "server_holds Hs lk pl (dm_node d) \<Longrightarrow> server_holds Hs lk pl (dm_node (waiting d))"
  by (rule server_holds_frame) (auto simp: server_holds_def waiting_idle)

lemma client_jobless: "client_new Hc lk pl T nd \<Longrightarrow> idle (nd_tasks nd) \<and> tasks (nd_tasks nd) = []"
  by (simp add: client_new_def)

lemma server_jobless:
  "server_lists Hs lk pl T nd \<Longrightarrow> idle (nd_tasks nd) \<and> tasks (nd_tasks nd) = []"
  "server_holds Hs lk pl nd \<Longrightarrow> idle (nd_tasks nd) \<and> tasks (nd_tasks nd) = []"
  by (simp_all add: server_lists_def server_holds_def)

text \<open>The request for the table arrives.\<close>

lemma tick_segment:
  assumes "session_at Hc Hs lk pl T Ticking s" and "Hs h" and "nt_up s = seg @ rest" and "seg \<noteq> []"
  shows "\<exists>ls nd. set ls = T \<and> length ls \<le> 1000 \<and> server_holds Hs lk pl nd \<and>
    ctx_sent (nd_fw nd) = ctx_sent (nd_fw (dm_node (nt_server s))) @ [(lk_client lk, table_wire ls)] \<and>
    (\<forall>d. dm_step h (Bytes (lk_sctx lk) seg) (nt_server s) d \<longleftrightarrow>
      d = (if rest = [] then (nt_server s)\<lparr>dm_node := nd, dm_bufs := (dm_bufs (nt_server s))(lk_sctx lk := [])\<rparr>
           else (nt_server s)\<lparr>dm_bufs := (dm_bufs (nt_server s))(lk_sctx lk := dm_bufs (nt_server s) (lk_sctx lk) @ seg)\<rparr>))"
proof -
  have a: "server_lists Hs lk pl T (dm_node (nt_server s))" "session_ok pl T" using assms(1) by simp_all
  have w: "dm_bufs (nt_server s) (lk_sctx lk) @ seg @ rest = tick_wire" using assms(1,3) by simp
  have oc: "open_conn h (lk_sctx lk) (lk_client lk) (dm_node (nt_server s))"
    using a(1) assms(2) by (simp add: server_lists_def)
  obtain ls nd where ls: "set ls = T" "length ls \<le> 1000"
    and rcv: "\<And>rest n. recv_tcp h (lk_sctx lk) (tick_wire @ rest) n (dm_node (nt_server s)) = Some (Inr nd)"
    and nd: "ctx_sent (nd_fw nd) = ctx_sent (nd_fw (dm_node (nt_server s))) @ [(lk_client lk, table_wire ls)]"
    "server_holds Hs lk pl nd"
    using listing_served [OF a assms(2)] by blast
  show ?thesis using bytes_step [OF oc tick_frame w rcv] ls nd by blast
qed

text \<open>Before the transfer only the worker that goes to its wait moves, and the packet under way.\<close>

lemma idle_left_less:
  "turns d < turns (nt_client s) \<Longrightarrow> (idle_left (s\<lparr>nt_client := d, nt_up := nt_up s\<rparr>), idle_left s) \<in> less5"
  "turns d < turns (nt_server s) \<Longrightarrow> (idle_left (s\<lparr>nt_server := d, nt_down := nt_down s\<rparr>), idle_left s) \<in> less5"
  by (simp_all add: idle_left_def less5_iff)

lemma tick_turn:
  assumes "session_at Hc Hs lk pl T Ticking s" and "net_step Hc Hs lk s s'"
  shows "\<exists>st'. session_at Hc Hs lk pl T st' s' \<and> (session_left pl st' s', session_left pl Ticking s) \<in> less6"
  using assms(2)
proof (cases rule: net_step.cases)
  case (client_works h x d)
  have d: "d = waiting (nt_client s) \<and> turns (nt_client s) = 1"
    using assms(1) client_jobless by (intro jobless_turn [OF _ _ client_works(3)]) auto
  then show ?thesis using assms(1) waiting_new idle_left_less(1) [of d s]
    by (intro exI [of _ Ticking]) (simp add: client_works(1))
next
  case (server_works h x d)
  have d: "d = waiting (nt_server s) \<and> turns (nt_server s) = 1"
    using assms(1) server_jobless by (intro jobless_turn [OF _ _ server_works(3)]) auto
  then show ?thesis using assms(1) waiting_lists idle_left_less(2) [of d s]
    by (intro exI [of _ Ticking]) (simp add: server_works(1))
next
  case (to_server h seg rest d)
  obtain ls nd where ls: "set ls = T" "length ls \<le> 1000" and ok: "server_holds Hs lk pl nd"
    and sent: "ctx_sent (nd_fw nd) = ctx_sent (nd_fw (dm_node (nt_server s))) @ [(lk_client lk, table_wire ls)]"
    and d: "d = (if rest = [] then (nt_server s)\<lparr>dm_node := nd, dm_bufs := (dm_bufs (nt_server s))(lk_sctx lk := [])\<rparr>
           else (nt_server s)\<lparr>dm_bufs := (dm_bufs (nt_server s))(lk_sctx lk := dm_bufs (nt_server s) (lk_sctx lk) @ seg)\<rparr>)"
    using tick_segment [OF assms(1) to_server(2,3,4)] to_server(5) by blast
  show ?thesis
  proof (cases "rest = []")
    case True
    then have e: "emitted (lk_client lk) (nt_server s) d = table_wire ls" by (intro emitted_sent) (simp add: d sent)
    have "\<forall>r \<in> set ls. proper r" using assms(1) ls(1) by (simp add: session_ok_def)
    then have "table_wire ls \<noteq> []" using frame_small [OF table_frame] ls(2) by (simp add: SIZEOF_RESOURCE_def)
    then have "session_at Hc Hs lk pl T (Listing ls) s'"
      using assms(1) ls ok True by (simp add: to_server(1) e) (simp add: d)
    then show ?thesis by (intro exI [of _ "Listing ls"]) simp
  next
    case False
    then have "emitted (lk_client lk) (nt_server s) d = []" by (intro emitted_same) (simp add: d)
    then show ?thesis using assms(1) False to_server(3,4)
      by (intro exI [of _ Ticking]) (simp add: to_server(1), simp add: d idle_left_def less5_iff turns_def)
  qed
next
  case (to_client h seg rest d)
  then show ?thesis using assms(1) by simp
qed

text \<open>The table arrives.\<close>

lemma table_proper:
  assumes "session_ok pl T" and "set ls = T" and "length ls \<le> 1000"
  shows "pkt_frame (table_wire ls)"
  using assms by (intro table_frame) (simp_all add: session_ok_def SIZEOF_RESOURCE_def)

lemma table_segment:
  assumes "session_at Hc Hs lk pl T (Listing ls) s" and "Hc h" and "nt_down s = seg @ rest" and "seg \<noteq> []"
  shows "\<exists>nd. client_holds Hc lk pl (start_flow pl) nd \<and> nd_fw nd = nd_fw (dm_node (nt_client s)) \<and>
    (\<forall>d. dm_step h (Bytes (lk_cctx lk) seg) (nt_client s) d \<longleftrightarrow>
      d = (if rest = [] then (nt_client s)\<lparr>dm_node := nd, dm_bufs := (dm_bufs (nt_client s))(lk_cctx lk := [])\<rparr>
           else (nt_client s)\<lparr>dm_bufs := (dm_bufs (nt_client s))(lk_cctx lk := dm_bufs (nt_client s) (lk_cctx lk) @ seg)\<rparr>))"
proof -
  have a: "client_new Hc lk pl T (dm_node (nt_client s))" "session_ok pl T" "set ls = T" "length ls \<le> 1000"
    using assms(1) by simp_all
  have w: "dm_bufs (nt_client s) (lk_cctx lk) @ seg @ rest = table_wire ls" using assms(1,3) by simp
  have oc: "open_conn h (lk_cctx lk) (lk_server lk) (dm_node (nt_client s))"
    using a(1) assms(2) by (simp add: client_new_def client_can_def)
  obtain nd where rcv: "\<And>rest n. recv_tcp h (lk_cctx lk) (table_wire ls @ rest) n (dm_node (nt_client s)) = Some (Inr nd)"
    and nd: "client_holds Hc lk pl (start_flow pl) nd" "nd_fw nd = nd_fw (dm_node (nt_client s))"
    using table_registered [OF a(1,2) assms(2) a(3,4)] by blast
  show ?thesis using bytes_step [OF oc table_proper [OF a(2-4)] w rcv] nd by blast
qed

lemma table_turn:
  assumes "session_at Hc Hs lk pl T (Listing ls) s" and "net_step Hc Hs lk s s'"
  shows "\<exists>st'. session_at Hc Hs lk pl T st' s' \<and> (session_left pl st' s', session_left pl (Listing ls) s) \<in> less6"
  using assms(2)
proof (cases rule: net_step.cases)
  case (client_works h x d)
  have d: "d = waiting (nt_client s) \<and> turns (nt_client s) = 1"
    using assms(1) client_jobless by (intro jobless_turn [OF _ _ client_works(3)]) auto
  then show ?thesis using assms(1) waiting_new idle_left_less(1) [of d s]
    by (intro exI [of _ "Listing ls"]) (simp add: client_works(1))
next
  case (server_works h x d)
  have d: "d = waiting (nt_server s) \<and> turns (nt_server s) = 1"
    using assms(1) server_jobless by (intro jobless_turn [OF _ _ server_works(3)]) auto
  then show ?thesis using assms(1) waiting_holds idle_left_less(2) [of d s]
    by (intro exI [of _ "Listing ls"]) (simp add: server_works(1))
next
  case (to_client h seg rest d)
  obtain nd where nd: "client_holds Hc lk pl (start_flow pl) nd" "nd_fw nd = nd_fw (dm_node (nt_client s))"
    and d: "d = (if rest = [] then (nt_client s)\<lparr>dm_node := nd, dm_bufs := (dm_bufs (nt_client s))(lk_cctx lk := [])\<rparr>
           else (nt_client s)\<lparr>dm_bufs := (dm_bufs (nt_client s))(lk_cctx lk := dm_bufs (nt_client s) (lk_cctx lk) @ seg)\<rparr>)"
    using table_segment [OF assms(1) to_client(2,3,4)] to_client(5) by blast
  have e: "emitted (lk_server lk) (nt_client s) d = []" by (rule emitted_segment) (simp add: d nd(2))
  show ?thesis
  proof (cases "rest = []")
    case True
    have "session_at Hc Hs lk pl T (Fetching (start_flow pl)) s'"
      using assms(1) nd True by (simp add: to_client(1) e batch_at_def stream.partial_def session_ok_def) (simp add: d)
    then show ?thesis by (intro exI [of _ "Fetching (start_flow pl)"]) simp
  next
    case False
    then show ?thesis using assms(1) e to_client(3,4)
      by (intro exI [of _ "Listing ls"]) (simp add: to_client(1), simp add: d idle_left_def less5_iff turns_def)
  qed
next
  case (to_server h seg rest d)
  then show ?thesis using assms(1) by simp
qed

lemma session_turn:
  assumes "session_at Hc Hs lk pl T st s" and "net_step Hc Hs lk s s'"
  shows "\<exists>st'. session_at Hc Hs lk pl T st' s' \<and> (session_left pl st' s', session_left pl st s) \<in> less6"
proof (cases st)
  case Ticking
  then show ?thesis using tick_turn assms by blast
next
  case (Listing ls)
  then show ?thesis using table_turn assms by blast
next
  case (Fetching f)
  then obtain f' where "batch_at Hc Hs lk pl f' s' \<and> (batch_left pl f' s', batch_left pl f s) \<in> less5"
    using batch.turn [OF _ assms(2)] assms(1) by auto
  then show ?thesis using Fetching by (intro exI [of _ "Fetching f'"]) simp
qed

lemma session_moves:
  assumes "session_at Hc Hs lk pl T st s" and "st \<noteq> Fetching all_done"
  shows "\<exists>s'. net_step Hc Hs lk s s'"
proof (cases st)
  case Ticking
  then have t: "session_at Hc Hs lk pl T Ticking s" using assms(1) by simp
  then obtain h where "Hs h" "nt_up s = nt_up s @ []" "nt_up s \<noteq> []" by auto
  then show ?thesis using tick_segment [OF t] net_step.to_server [of Hs h] by metis
next
  case (Listing ls)
  then have t: "session_at Hc Hs lk pl T (Listing ls) s" using assms(1) by simp
  then obtain h where "Hc h" "nt_down s = nt_down s @ []" "nt_down s \<noteq> []" by auto
  then show ?thesis using table_segment [OF t] net_step.to_client [of Hc h] by metis
next
  case (Fetching f)
  then show ?thesis using batch.moves assms by auto
qed

interpretation session: staged "net_step Hc Hs lk" "session_at Hc Hs lk pl T" "session_left pl" less6 "Fetching all_done" for Hc Hs lk pl T
  by unfold_locales (use wf_less6 session_turn session_moves in blast)+

lemma session_safe:
  assumes "session_at Hc Hs lk pl T st s"
  shows "net_safe Hc Hs lk s"
proof (cases st)
  case Ticking
  then have t: "session_at Hc Hs lk pl T Ticking s" using assms by simp
  have "idle (nd_tasks (dm_node (nt_client s)))" "idle (nd_tasks (dm_node (nt_server s)))" "nt_down s = []"
    using t client_jobless server_jobless by auto
  moreover have "\<exists>d. dm_step h (Bytes (lk_sctx lk) seg) (nt_server s) d"
    if "Hs h" "nt_up s = seg @ rest" "seg \<noteq> []" for h seg rest
    using tick_segment [OF t that] by blast
  ultimately show ?thesis by (auto simp: net_safe_def idle_def)
next
  case (Listing ls)
  then have t: "session_at Hc Hs lk pl T (Listing ls) s" using assms by simp
  have "idle (nd_tasks (dm_node (nt_client s)))" "idle (nd_tasks (dm_node (nt_server s)))" "nt_up s = []"
    using t client_jobless server_jobless by auto
  moreover have "\<exists>d. dm_step h (Bytes (lk_cctx lk) seg) (nt_client s) d"
    if "Hc h" "nt_down s = seg @ rest" "seg \<noteq> []" for h seg rest
    using table_segment [OF t that] by blast
  ultimately show ?thesis by (auto simp: net_safe_def idle_def)
next
  case (Fetching f)
  then show ?thesis using assms batch_safe by simp
qed

text \<open>
  The result: all files with content are there, and the books name nothing to fetch but the empty
  block of a file that is empty.
\<close>

definition synchronised :: "plan \<Rightarrow> node \<Rightarrow> bool" where
  "synchronised pl nd \<longleftrightarrow> (\<forall>j \<in> jobs pl. nd_fs nd (job_path j) = Some (jb_content j)) \<and>
     (\<exists>m. nd_rsm nd = Manager m \<and>
        (\<forall>u rs. str_find u (uriRs m) = Some rs \<longrightarrow> settled_entry pl u rs))"

lemma session_outcome:
  assumes "session_at Hc Hs lk pl T st s" and "(net_step Hc Hs lk)\<^sup>*\<^sup>* s s'"
  shows "net_safe Hc Hs lk s' \<and> (\<forall>p. p \<notin> job_path ` jobs pl \<longrightarrow> nd_fs (dm_node (nt_client s')) p = pl_fs pl p) \<and>
    (\<not> (\<exists>s''. net_step Hc Hs lk s' s'') \<longrightarrow> synchronised pl (dm_node (nt_client s')))"
proof -
  obtain st' where st: "session_at Hc Hs lk pl T st' s'" using session.reached assms by blast
  have "nd_fs (dm_node (nt_client s')) p = pl_fs pl p" if p: "p \<notin> job_path ` jobs pl" for p
  proof (cases st')
    case (Fetching f)
    then show ?thesis using st batch_facts(1) p by simp
  qed (use st in \<open>auto simp: client_new_def\<close>)
  moreover have "synchronised pl (dm_node (nt_client s'))" if "\<not> (\<exists>s''. net_step Hc Hs lk s' s'')"
    using batch_facts(2) [OF _ that] session.stuck_final [OF st that] by (simp add: synchronised_def)
  ultimately show ?thesis using session_safe [OF st] by blast
qed

section \<open>A sample session\<close>

text \<open>
  Machines whose tree shows the files \<open>/h/a\<close>, \<open>/h/b\<close> and \<open>/h/c\<close> when they are there; the server has
  them, and the last one is empty.
\<close>

definition disk_tree :: "file_system \<Rightarrow> string \<Rightarrow> fnode" where
  "disk_tree fs p = (if p = ''/h'' then Directory (concat (map (\<lambda>nm.
     case fs (''/h/'' @ nm) of None \<Rightarrow> [] | Some c \<Rightarrow> [(nm, RegFile c)]) [''a'', ''b'', ''c''])) else OtherNode)"

definition disk_host :: host where
  "disk_host = sample_host\<lparr>h_tree := disk_tree\<rparr>"

definition disk_entry :: "string \<times> bytes \<Rightarrow> resource" where
  "disk_entry f = file_entry sample_digester ''/h'' (''/h/'' @ fst f, snd f)"

definition disk_job :: "string \<times> bytes \<Rightarrow> job" where
  "disk_job f = \<lparr>jb_uri = ''/'' @ fst f, jb_hash = hexdump (sample_digest (snd f)), jb_res = disk_entry f, jb_content = snd f,
     jb_blocks = initial_blocks (of_nat (length (snd f))), jb_home = ''/h'', jb_fs = (\<lambda>_. None)\<rparr>"

definition disk_files :: "(string \<times> bytes) list" where
  "disk_files = [(''a'', ''hello''), (''b'', ''lan'')]"

definition disk_all :: "(string \<times> bytes) list" where
  "disk_all = disk_files @ [(''c'', [])]"

definition disk_plan :: plan where
  "disk_plan = \<lparr>pl_jobs = map disk_job disk_files, pl_void = {disk_entry (''c'', [])}, pl_home = ''/h'', pl_fs = (\<lambda>_. None)\<rparr>"

definition server_fs :: file_system where
  "server_fs = (\<lambda>p. None)(''/h/a'' \<mapsto> ''hello'', ''/h/b'' \<mapsto> ''lan'', ''/h/c'' \<mapsto> [])"

definition disk_net :: net where
  "disk_net = \<lparr>
     nt_client = \<lparr>dm_node = sample_client\<lparr>nd_rsm := Manager sync_manager_init\<rparr>, dm_bufs = (\<lambda>_. [])\<rparr>,
     nt_server = \<lparr>dm_node = sample_node\<lparr>nd_fs := server_fs\<rparr>, dm_bufs = (\<lambda>_. [])\<rparr>, nt_up = tick_wire, nt_down = []\<rparr>"

lemma hex_digit_colon: "d < 16 \<Longrightarrow> hex_digit d \<noteq> CHR '':''"
proof -
  assume "d < 16"
  then have "(of_char (hex_digit d) :: nat) = (if d < 10 then 48 + d else 87 + d)"
    by (simp add: hex_digit_def of_char_of)
  then have "(of_char (hex_digit d) :: nat) \<noteq> 58" by (simp split: if_splits)
  then show ?thesis by auto
qed

text \<open>A digest in hexadecimal is a safe header value.\<close>

lemma clean_hexdump:
  assumes "digest_law dg"
  shows "clean_text (digest_of dg p c)"
proof -
  have "(of_char c :: nat) div 16 < 16" "(of_char c :: nat) mod 16 < 16" for c :: char
    using of_char_less_256 [of c] by (simp_all add: less_mult_imp_div_less)
  from this [THEN hex_digit_colon] have "CHR '':'' \<notin> set (hexdump bs)" for bs
    by (induction bs) (simp_all add: hexdump_def hex_byte_def not_sym)
  then show ?thesis
    using hexdump_digest [OF assms, of p c] assms
    by (auto simp: clean_text_def length_hexdump digest_law_def digest_of_def c_string_def)
qed

lemma disk_path: "f \<in> set disk_all \<Longrightarrow> c_string (''/h/'' @ fst f) \<and> filename (''/h/'' @ fst f) = fst f"
  by (auto simp: disk_all_def disk_files_def c_string_def NAME_MAX_SIZE_def filename_def)

lemma disk_entry_facts:
  assumes "f \<in> set disk_all"
  shows "arr_str (r_uri (disk_entry f)) = Inr (''/'' @ fst f)" and "r_size (disk_entry f) = of_nat (length (snd f))"
    and "proper (disk_entry f)" and "res_ok (disk_entry f)" and "str_name (disk_entry f) = fst f" and "has_uri (disk_entry f)"
proof -
  have c: "c_string (''/h/'' @ fst f)" and n: "filename (''/h/'' @ fst f) = fst f" using disk_path [OF assms] by simp_all
  note f = file_entry_str [OF sample_digest_law c, of "''/h''" "snd f"] and k = file_entry_ok [OF sample_digest_law c, of "''/h''" "snd f"]
  show u: "arr_str (r_uri (disk_entry f)) = Inr (''/'' @ fst f)" unfolding disk_entry_def f(2) by simp
  then show "has_uri (disk_entry f)" by (simp add: has_uri_def)
  show "r_size (disk_entry f) = of_nat (length (snd f))" "proper (disk_entry f)" "res_ok (disk_entry f)"
    unfolding disk_entry_def by (rule f(5), rule f(6), rule k(1))
  show "str_name (disk_entry f) = fst f" unfolding disk_entry_def k(2) by (rule n)
qed

lemma map_of_functional:
  assumes "\<forall>e \<in> set xs. \<forall>e' \<in> set xs. fst e = fst e' \<longrightarrow> snd e = snd e'"
  shows "map_of xs k = Some v \<longleftrightarrow> (k, v) \<in> set xs"
proof
  assume in_xs: "(k, v) \<in> set xs"
  then obtain w where w: "map_of xs k = Some w" by (metis weak_map_of_SomeI)
  then have "(k, w) \<in> set xs" by (rule map_of_SomeD)
  with assms in_xs have "w = v" by force
  with w show "map_of xs k = Some v" by simp
qed (rule map_of_SomeD)

text \<open>In a table without two files of the same name, every file counts.\<close>

lemma last_named_unique:
  assumes "\<forall>r \<in> set table. has_uri r" and "inj_on str_name (set table)"
  shows "last_named table nm = Some r \<longleftrightarrow> r \<in> set table \<and> str_name r = nm"
proof -
  let ?xs = "rev (map (\<lambda>r. (str_name r, r)) (filter has_uri table))"
  have set: "set ?xs = (\<lambda>r. (str_name r, r)) ` set table" using assms(1) by auto
  have "\<forall>e \<in> set ?xs. \<forall>e' \<in> set ?xs. fst e = fst e' \<longrightarrow> snd e = snd e'"
    using assms(2) unfolding set by (auto simp: inj_on_eq_iff)
  from map_of_functional [OF this] have "map_of ?xs nm = Some r \<longleftrightarrow> (nm, r) \<in> set ?xs" .
  then show ?thesis unfolding last_named_def set by auto
qed

lemma disk_home:
  assumes "lm_home lm = ''/h''"
  shows "home_files lm (disk_tree (\<lambda>_. None)) = []"
    and "home_files lm (disk_tree server_fs) = map (\<lambda>f. (''/h/'' @ fst f, snd f)) (rev disk_all)"
    and "\<forall>nm \<in> {''a'', ''b'', ''c''}. length (file_at fs (''/h/'' @ nm)) < 2 ^ 63 \<Longrightarrow> scannable lm (disk_tree fs)"
proof -
  note d = home_files_def disk_tree_def path_join_def assms
  show "home_files lm (disk_tree (\<lambda>_. None)) = []" by (simp add: d)
  show "home_files lm (disk_tree server_fs) = map (\<lambda>f. (''/h/'' @ fst f, snd f)) (rev disk_all)"
    by (simp add: d server_fs_def disk_all_def disk_files_def)
  have c: "c_string ''/h/a''" "c_string ''/h/b''" "c_string ''/h/c''" by (simp_all add: c_string_def NAME_MAX_SIZE_def)
  assume "\<forall>nm \<in> {''a'', ''b'', ''c''}. length (file_at fs (''/h/'' @ nm)) < 2 ^ 63"
  then show "scannable lm (disk_tree fs)"
    using c by (auto simp: scannable_def d file_fits_def file_at_def split: option.splits)
qed

lemma disk_jobs: "jobs disk_plan = disk_job ` set disk_files"
  by (simp add: disk_plan_def)

lemma disk_void: "void_uris disk_plan = {''/c''}"
  using disk_entry_facts(1) [of "(''c'', [])"] by (auto simp: void_uris_def disk_plan_def disk_all_def)

lemma disk_plan_ok: "plan_ok disk_plan"
proof -
  have "job_ok (disk_job f)" if "f \<in> set disk_files" for f
  proof -
    have len: "0 < length (snd f)" "length (snd f) < 6" "clean_text (''/'' @ fst f)"
      using that by (auto simp: disk_files_def clean_text_def)
    have u: "unat (of_nat (length (snd f)) :: u64) = length (snd f)" using len(2) by (intro unat_of_nat_u64) simp
    then have "tiles (initial_blocks (of_nat (length (snd f)))) 0 (of_nat (length (snd f)))"
      using len by (intro initial_blocks_tile) (simp_all add: word_less_nat_alt)
    moreover have "(of_nat (length (snd f)) :: u64) \<le> BLOCK_SIZE" using u len(2) by (simp add: word_le_nat_alt BLOCK_SIZE_eq)
    then have "initial_blocks (of_nat (length (snd f))) \<noteq> []" by (simp add: initial_blocks_small)
    moreover have "clean_text (hexdump (sample_digest (snd f)))"
      using clean_hexdump [OF sample_digest_law, of "[]" "snd f"] by simp
    ultimately show ?thesis using len by (simp add: job_ok_def disk_job_def file_at_def)
  qed
  then show ?thesis unfolding plan_ok_def disk_void
    by (auto simp: disk_plan_def READ_LIMIT_def DOWNLOAD_LIMIT_def) (auto simp: disk_files_def disk_job_def)
qed

lemma disk_session_ok: "session_ok disk_plan (disk_entry ` set disk_all)"
proof -
  have names: "str_name (disk_entry f) \<noteq> []" if "f \<in> set disk_all" for f
    using disk_entry_facts(5) [OF that] that by (auto simp: disk_all_def disk_files_def)
  have "inj_on (\<lambda>r. arr_str (r_uri r)) (disk_entry ` set disk_all)"
    using disk_entry_facts(1) by (auto simp: inj_on_def disk_all_def disk_files_def)
  moreover have "r_size r = 0" if "r \<in> pl_void disk_plan" for r
    using that disk_entry_facts(2) [of "(''c'', [])"] by (simp add: disk_plan_def disk_all_def)
  moreover have "set disk_files \<subseteq> set disk_all" by (auto simp: disk_all_def)
  ultimately show ?thesis
    using disk_plan_ok disk_entry_facts names unfolding session_ok_def disk_jobs by (auto simp: disk_job_def)
qed

lemma disk_host_parts:
  "h_tree disk_host = disk_tree" "h_sha3 disk_host = sample_digest" "h_draw disk_host n = 0" "h_access disk_host p"
  "h_read disk_host fs p = full_read (case fs p of None \<Rightarrow> [] | Some c \<Rightarrow> c)"
  "h_ports disk_host = []" "h_connect disk_host a" "h_aton disk_host = quad_aton" "h_ntoa disk_host = quad_ntoa"
  "host_law disk_host"
  using sample_host_law by (simp_all add: disk_host_def sample_host_def host_law_def)

lemma disk_entry_host: "file_entry (host_digester disk_host fs) ''/h'' (''/h/'' @ fst f, snd f) = disk_entry f"
  by (simp add: disk_entry_def file_entry_def digest_of_host disk_host_parts)

lemma disk_wants:
  assumes "lm_home (nd_rlm nd) = ''/h''" and "nd_fs nd = (\<lambda>_. None)"
  shows "wants_plan disk_host disk_plan (disk_entry ` set disk_all) nd"
  unfolding wants_plan_def
proof (intro allI impI)
  fix table r assume table: "set table = disk_entry ` set disk_all"
  have "inj_on str_name (disk_entry ` set disk_all)"
    using disk_entry_facts(5) by (auto simp: inj_on_def disk_all_def disk_files_def)
  then have "last_named table nm = Some r \<longleftrightarrow> r \<in> set table \<and> str_name r = nm" for nm
    using table disk_entry_facts(6) by (intro last_named_unique) auto
  then have "wanted_from disk_host nd table r \<longleftrightarrow> r \<in> disk_entry ` set disk_all"
    using table assms disk_home(1) by (auto simp: wanted_from_def disk_host_parts)
  then show "wanted_from disk_host nd table r \<longleftrightarrow> r \<in> jb_res ` jobs disk_plan \<union> pl_void disk_plan"
    by (simp add: disk_plan_def disk_all_def disk_job_def image_image)
qed

lemma disk_part:
  assumes "lm_home lm = ''/h''" and "part_of disk_plan fs"
  shows "scannable lm (disk_tree fs)"
proof (rule disk_home(3) [OF assms(1)])
  have "fs ''/h/c'' = None" "length (file_at fs ''/h/a'') \<le> 5" "length (file_at fs ''/h/b'') \<le> 3"
    using assms(2) unfolding part_of_def disk_jobs by (simp_all add: disk_plan_def disk_files_def disk_job_def job_path_def)
  then show "\<forall>nm \<in> {''a'', ''b'', ''c''}. length (file_at fs (''/h/'' @ nm)) < 2 ^ 63"
    by (auto simp: file_at_def)
qed

lemma disk_stores:
  assumes "lm_home (nd_rlm nd) = ''/h''" and "j \<in> jobs disk_plan"
  shows "can_store disk_host (jb_uri j) nd"
proof -
  have "can_store disk_host u nd" for u
    using assms(1) by (simp add: can_store_def disk_host_def sample_host_def)
  then show ?thesis .
qed

lemma disk_can:
  assumes "lm_home (nd_rlm nd) = ''/h''" and "elems (tcp_ctx (nd_fw nd)) = [lk_cctx lk]"
    and "open_conn disk_host (lk_cctx lk) (lk_server lk) nd"
  shows "client_can (\<lambda>h. h = disk_host) lk disk_plan nd"
  using assms disk_part [OF assms(1)] disk_stores [OF assms(1)]
  by (simp add: client_can_def disk_host_parts) (simp add: disk_plan_def)

lemma disk_offers:
  assumes "lm_home (nd_rlm nd) = ''/h''" and "nd_fs nd = server_fs"
  shows "lists_files disk_host (disk_entry ` set disk_all) nd" and "j \<in> jobs disk_plan \<Longrightarrow> offers disk_host nd j"
proof -
  note f = disk_home(2) [OF assms(1)]
  have scan: "scannable (nd_rlm nd) (disk_tree server_fs)"
    by (rule disk_home(3) [OF assms(1)]) (simp add: file_at_def server_fs_def)
  have "filename (''/h/'' @ fst e) \<noteq> []" if "e \<in> set disk_all" for e
    using disk_path [OF that] that by (auto simp: disk_all_def disk_files_def)
  moreover have "file_entry (host_digester disk_host server_fs) ''/h'' ` set (home_files (nd_rlm nd) (disk_tree server_fs)) =
      disk_entry ` set disk_all"
    unfolding f using disk_entry_host [of server_fs] by (simp add: image_image)
  moreover have "length (home_files (nd_rlm nd) (disk_tree server_fs)) \<le> 1000" unfolding f by (simp add: disk_all_def disk_files_def)
  ultimately show "lists_files disk_host (disk_entry ` set disk_all) nd"
    using assms f scan by (simp add: lists_files_def disk_host_parts)
  show "offers disk_host nd j" if job: "j \<in> jobs disk_plan"
  proof -
    obtain e where e: "e \<in> set disk_files" "j = disk_job e" using job unfolding disk_jobs by blast
    then have "(''/h/'' @ fst e, snd e) \<in> set (home_files (nd_rlm nd) (disk_tree server_fs))" "server_fs (''/h/'' @ fst e) = Some (snd e)"
      unfolding f by (auto simp: disk_all_def disk_files_def server_fs_def)
    then show ?thesis using assms disk_entry_host [of server_fs e] e(2)
      by (simp add: offers_def disk_host_parts disk_job_def)
  qed
qed

lemma disk_session:
  "session_at (\<lambda>h. h = disk_host) (\<lambda>h. h = disk_host) sample_link disk_plan (disk_entry ` set disk_all) Ticking disk_net"
proof -
  let ?c = "dm_node (nt_client disk_net)" and ?s = "dm_node (nt_server disk_net)"
  have nodes: "lm_home (nd_rlm ?c) = ''/h''" "nd_fs ?c = (\<lambda>_. None)" "elems (tcp_ctx (nd_fw ?c)) = [0]"
    "nd_rsm ?c = Manager sync_manager_init" "tasks (nd_tasks ?c) = []" "idle (nd_tasks ?c)"
    "lm_home (nd_rlm ?s) = ''/h''" "nd_fs ?s = server_fs" "tasks (nd_tasks ?s) = []" "idle (nd_tasks ?s)"
    by (simp_all add: disk_net_def sample_client_def sample_node_def nd_fw_def one_conn_def ctx_new_def
        net_fw_init_def Let_def idle_def TaskManager_new_def)
  have conn: "open_conn disk_host 0 NetAddr_default ?c" "open_conn disk_host 0 NetAddr_default ?s"
    using sample_open by (simp_all add: disk_net_def disk_host_def open_conn_def nd_fw_def)
  have "client_new (\<lambda>h. h = disk_host) sample_link disk_plan (disk_entry ` set disk_all) ?c"
    using disk_can [OF nodes(1)] disk_wants [OF nodes(1,2)] nodes conn
    by (simp add: client_new_def sample_link_def) (simp add: disk_plan_def)
  moreover have "server_lists (\<lambda>h. h = disk_host) sample_link disk_plan (disk_entry ` set disk_all) ?s"
    using disk_offers [OF nodes(7,8)] nodes conn by (simp add: server_lists_def sample_link_def)
  ultimately show ?thesis using disk_session_ok frame_small [OF tick_frame]
    by (simp add: sample_link_def) (simp add: disk_net_def)
qed

section \<open>Properties\<close>



end
