(* ===== verification/Whole_Program.thy ===== *)
theory Whole_Program
  imports Sync_Session
begin

text \<open>
  Two programs from their start to the synchronised files: \<open>main_start\<close> on both sides, a round of
  the discovery trigger, the answer, the connection, a round of the table trigger, and then the
  session of \<open>Sync_Session\<close>.
\<close>

section \<open>What the machines and the disks are like\<close>

text \<open>A socket address a machine can read, of a host other than itself.\<close>

definition known_from :: "host \<Rightarrow> sockaddr_in \<Rightarrow> net_addr \<Rightarrow> bool" where
  "known_from h src a \<longleftrightarrow> fromBe (h_aton h) (h_ntoa h) src = Inr a \<and> \<not> existIp (h_ports h) (s_addr (getBeAddr a))"

lemma udp_from_known:
  "udp_from h i src a nd \<longleftrightarrow> (\<exists>c. ctx_heap (nd_fw nd) i = Some c \<and> ctx_udp c) \<and> known_from h src a"
  by (simp add: udp_from_def known_from_def)

text \<open>The client can store the files of the plan, and of a table with the entries \<open>T\<close> it wants these files.\<close>

definition wants :: "(host \<Rightarrow> bool) \<Rightarrow> net_addr \<Rightarrow> plan \<Rightarrow> resource set \<Rightarrow> node \<Rightarrow> bool" where
  "wants Hc srv pl T nd \<longleftrightarrow>
     (\<forall>h. Hc h \<longrightarrow> \<not> existIp (h_ports h) (s_addr (getBeAddr srv)) \<and> h_draw h 1 = 0 \<and> host_law h \<and>
        (\<forall>j \<in> jobs pl. can_store h (jb_uri j) nd) \<and>
        (\<forall>fs. part_of pl fs \<longrightarrow> scannable (nd_rlm nd) (h_tree h fs)) \<and>
        wants_plan h pl T nd) \<and>
     lm_home (nd_rlm nd) = pl_home pl \<and> nd_fs nd = pl_fs pl"

text \<open>The server has the files with the entries \<open>T\<close>, those of the plan among them.\<close>

definition serves :: "(host \<Rightarrow> bool) \<Rightarrow> net_addr \<Rightarrow> plan \<Rightarrow> resource set \<Rightarrow> node \<Rightarrow> bool" where
  "serves Hs cli pl T nd \<longleftrightarrow>
     (\<forall>h. Hs h \<longrightarrow> \<not> existIp (h_ports h) (s_addr (getBeAddr cli)) \<and> lists_files h T nd \<and> (\<forall>j \<in> jobs pl. offers h nd j))"

text \<open>With a connection, and an idle worker, these are the sides of a session.\<close>

lemma idle_new: "tasks TaskManager_new = []" "idle TaskManager_new"
  by (simp_all add: TaskManager_new_def idle_def)

lemma wants_connected:
  assumes "wants Hc srv pl T nd" and "same_disk nd nd'" and "nd_rsm nd = Manager sync_manager_init"
    and "nd_tasks nd = TaskManager_new" and "elems (tcp_ctx (nd_fw nd')) = [lk_cctx lk]" and "lk_server lk = srv"
    and "ctx_heap (nd_fw nd') (lk_cctx lk) = Some \<lparr>ctx_peer = srv, ctx_active = True, ctx_udp = False\<rparr>"
  shows "client_new Hc lk pl T nd'"
proof -
  have same: "nd_rlm nd' = nd_rlm nd" "nd_fs nd' = nd_fs nd" "nd_dirs nd' = nd_dirs nd"
    "nd_rsm nd' = Manager sync_manager_init" "nd_tasks nd' = TaskManager_new"
    using assms(2-4) by (simp_all add: same_disk_def)
  have w: "wants_plan h pl T nd' = wants_plan h pl T nd" and cs: "can_store h uri nd' = can_store h uri nd" for h uri
    by (simp_all add: wants_plan_def wanted_from_def can_store_def parent_of_def same)
  have oc: "open_conn h (lk_cctx lk) (lk_server lk) nd'" if "Hc h" for h
    using assms(1,6,7) that unfolding wants_def open_conn_def by simp
  have "client_can Hc lk pl nd'"
    using assms(1,5) oc unfolding client_can_def wants_def cs same(1) by blast
  moreover have "nd_fs nd = pl_fs pl" "\<forall>h. Hc h \<longrightarrow> wants_plan h pl T nd'" using assms(1) unfolding wants_def w by blast+
  ultimately show ?thesis using idle_new by (simp add: client_new_def same)
qed

lemma serves_connected:
  assumes "serves Hs cli pl T nd" and "same_disk nd nd'" and "nd_tasks nd = TaskManager_new" and "lk_client lk = cli"
    and "ctx_heap (nd_fw nd') (lk_sctx lk) = Some \<lparr>ctx_peer = cli, ctx_active = True, ctx_udp = False\<rparr>"
  shows "server_lists Hs lk pl T nd'"
proof -
  have same: "nd_rlm nd' = nd_rlm nd" "nd_fs nd' = nd_fs nd" "nd_tasks nd' = TaskManager_new"
    using assms(2,3) by (simp_all add: same_disk_def)
  have "lists_files h T nd' = lists_files h T nd" "offers h nd' j = offers h nd j" for h j
    by (simp_all add: lists_files_def offers_def same)
  then show ?thesis using assms(1,4,5) idle_new by (simp add: server_lists_def serves_def open_conn_def same)
qed

section \<open>The client's way to a connection\<close>

lemma round_sent:
  assumes "contacts ntoa as (nd_trig nd)" and "tr_mods (nd_trig nd) = wired_mods"
    and "\<forall>a \<in> set as. s_addr (le_addr a) \<noteq> 0"
  shows "\<exists>out. dm_step h (Timeout discover_tr) \<lparr>dm_node = nd, dm_bufs = bufs\<rparr>
      \<lparr>dm_node = nd\<lparr>nd_trig := add_sent out (nd_trig nd)\<rparr>, dm_bufs = bufs\<rparr> \<and>
    set out = (\<lambda>a. (a, wire_bytes hello_packet)) ` set as"
proof -
  let ?ts = "nd_trig nd"
  let ?out = "tick_log True (tr_fw ?ts) (tr_udp ?ts)"
  have "\<forall>e \<in> set (tr_udp ?ts). \<exists>i. snd e = Some i \<and> ctx_ready (tr_fw ?ts) i"
    using contacts_round(1) [OF assms(1,3)] by (fastforce simp: ctx_ready_def)
  moreover have "sm_sorted str_less (conns True ?ts)" "conns True ?ts = tr_udp ?ts"
    using assms(1) by (simp_all add: contacts_def conns_def)
  ultimately have "timeout_cb (trigger_of h) discover_tr ?ts = Some (Inr (add_sent ?out ?ts))"
    using trigger_outcome [of True ?ts "h_ntoa h"] assms(2) by (simp add: timeout_cb_def)
  then have "dm_step h (Timeout discover_tr) \<lparr>dm_node = nd, dm_bufs = bufs\<rparr>
      \<lparr>dm_node = nd\<lparr>nd_trig := add_sent ?out ?ts\<rparr>, dm_bufs = bufs\<rparr>"
    using dm_step.timeout [of discover_tr h "\<lparr>dm_node = nd, dm_bufs = bufs\<rparr>"] by simp
  then show ?thesis using contacts_tick(2) [OF assms(1,3)] by (auto simp: hello_is_tick)
qed

text \<open>The round of the table trigger over the one connection there is.\<close>

lemma table_round:
  assumes "tr_tcp (nd_trig nd) = [(key, Some i)]" and "tr_mods (nd_trig nd) = wired_mods"
    and "ctx_heap (nd_fw nd) i = Some \<lparr>ctx_peer = srv, ctx_active = True, ctx_udp = False\<rparr>"
  shows "dm_step h (Timeout sync_req_tr) \<lparr>dm_node = nd, dm_bufs = bufs\<rparr>
    \<lparr>dm_node = nd\<lparr>nd_trig := add_sent [(srv, tick_wire)] (nd_trig nd)\<rparr>, dm_bufs = bufs\<rparr>"
proof -
  let ?ts = "nd_trig nd"
  have "conns False ?ts = [(key, Some i)]" "ctx_ready (tr_fw ?ts) i"
    "tick_log False (tr_fw ?ts) [(key, Some i)] = [(srv, tick_wire)]"
    using assms(1,3) by (simp_all add: conns_def ctx_ready_def tick_log_def tick_wire_def nd_fw_def)
  then have "trigger False (exec_of False (h_ntoa h)) ?ts = Some (Inr (add_sent [(srv, tick_wire)] ?ts))"
    using trigger_outcome [of False ?ts "h_ntoa h"] assms(2) by simp
  then have "timeout_cb (trigger_of h) sync_req_tr ?ts = Some (Inr (add_sent [(srv, tick_wire)] ?ts))"
    by (simp add: timeout_cb_def sync_req_tr_def discover_tr_def)
  then show ?thesis using dm_step.timeout [of sync_req_tr h "\<lparr>dm_node = nd, dm_bufs = bufs\<rparr>"] by simp
qed

lemma udp_from_known_same:
  "ctx_heap (nd_fw nd') = ctx_heap (nd_fw nd) \<Longrightarrow> udp_from h i src a nd' = udp_from h i src a nd"
  by (simp add: udp_from_known)

lemma add_sent_node [simp]:
  "ctx_heap (nd_fw (nd\<lparr>nd_trig := add_sent out (nd_trig nd)\<rparr>)) = ctx_heap (nd_fw nd)"
  "ctx_fresh (nd_fw (nd\<lparr>nd_trig := add_sent out (nd_trig nd)\<rparr>)) = ctx_fresh (nd_fw nd)"
  "tcp_ctx (nd_fw (nd\<lparr>nd_trig := add_sent out (nd_trig nd)\<rparr>)) = tcp_ctx (nd_fw nd)"
  "ctx_sent (nd_fw (nd\<lparr>nd_trig := add_sent out (nd_trig nd)\<rparr>)) = ctx_sent (nd_fw nd) @ out"
  "tr_tcp (add_sent out ts) = tr_tcp ts"
  "same_disk nd (nd\<lparr>nd_trig := add_sent out (nd_trig nd)\<rparr>)"
  by (simp_all add: nd_fw_def add_sent_def same_disk_def)

text \<open>The client: a greeting to every target, the answer over the contact it went out on, the request.\<close>

lemma client_joins:
  assumes "contacts ntoa as (nd_trig nd)" and "tr_mods (nd_trig nd) = wired_mods"
    and "\<forall>a \<in> set as. s_addr (le_addr a) \<noteq> 0" and "bc \<in> set as"
    and "tr_tcp (nd_trig nd) = []" and "elems (tcp_ctx (nd_fw nd)) = []"
    and "known_from h src sa" and "h_connect h (tcp_target p sa)" and "s_addr (le_addr sa) \<noteq> 0"
  shows "\<exists>k i d1 d2 d3. dm_step h (Timeout discover_tr) \<lparr>dm_node = nd, dm_bufs = bufs\<rparr> d1 \<and>
    ctx_heap (nd_fw nd) k = Some \<lparr>ctx_peer = bc, ctx_active = True, ctx_udp = True\<rparr> \<and>
    (bc, wire_bytes hello_packet) \<in> set (ctx_sent (nd_fw (dm_node d1))) \<and>
    dm_step h (Datagram k src (Some (wire_bytes (ack_packet p)))) d1 d2 \<and> dm_step h (Timeout sync_req_tr) d2 d3 \<and>
    emitted (tcp_target p sa) d2 d3 = tick_wire \<and> same_disk nd (dm_node d3) \<and> dm_bufs d3 = bufs \<and>
    elems (tcp_ctx (nd_fw (dm_node d3))) = [i] \<and>
    ctx_heap (nd_fw (dm_node d3)) i = Some \<lparr>ctx_peer = tcp_target p sa, ctx_active = True, ctx_udp = False\<rparr>"
proof -
  let ?t = "tcp_target p sa"
  obtain out where s1: "dm_step h (Timeout discover_tr) \<lparr>dm_node = nd, dm_bufs = bufs\<rparr>
      \<lparr>dm_node = nd\<lparr>nd_trig := add_sent out (nd_trig nd)\<rparr>, dm_bufs = bufs\<rparr>"
    and out: "set out = (\<lambda>a. (a, wire_bytes hello_packet)) ` set as"
    using round_sent [OF assms(1-3)] by blast
  let ?nd1 = "nd\<lparr>nd_trig := add_sent out (nd_trig nd)\<rparr>"
  obtain k where k: "ctx_heap (nd_fw nd) k = Some \<lparr>ctx_peer = bc, ctx_active = True, ctx_udp = True\<rparr>"
    using contacts_round(2) [OF assms(1,3)] assms(4) by (auto simp: nd_fw_def)
  have from1: "udp_from h k src sa ?nd1" using k assms(7) by (simp add: udp_from_known)
  have can: "can_connect h ?t ?nd1"
    using assms(5,8,9) by (simp add: can_connect_def tcp_target_def setPort_def)
  have "tr_mods (nd_trig ?nd1) = wired_mods" "sm_sorted str_less (tr_tcp (nd_trig ?nd1))"
    using assms(2,5) by simp_all
  from ack_connects [OF from1 can this] obtain nd2
    where u: "udp_input h k src (Some (wire_bytes (ack_packet p))) ?nd1 = Inr nd2"
      and tcp: "tr_tcp (nd_trig nd2) = [(addr_str (h_ntoa h) ?t, Some (ctx_fresh (nd_fw nd)))]"
      and mods: "tr_mods (nd_trig nd2) = wired_mods" and same: "same_disk ?nd1 nd2"
      and heap: "ctx_heap (nd_fw nd2) (ctx_fresh (nd_fw nd)) = Some \<lparr>ctx_peer = ?t, ctx_active = True, ctx_udp = False\<rparr>"
      and list: "elems (tcp_ctx (nd_fw nd2)) = [ctx_fresh (nd_fw nd)]"
    using assms(5,6) by auto
  have s2: "dm_step h (Datagram k src (Some (wire_bytes (ack_packet p)))) \<lparr>dm_node = ?nd1, dm_bufs = bufs\<rparr>
      \<lparr>dm_node = nd2, dm_bufs = bufs\<rparr>"
    using dm_step.datagram [of k "\<lparr>dm_node = ?nd1, dm_bufs = bufs\<rparr>" _ h src] k u by (simp add: ctx_at_def)
  note s3 = table_round [OF tcp mods heap, of h bufs]
  have "emitted ?t \<lparr>dm_node = nd2, dm_bufs = bufs\<rparr>
      \<lparr>dm_node = nd2\<lparr>nd_trig := add_sent [(?t, tick_wire)] (nd_trig nd2)\<rparr>, dm_bufs = bufs\<rparr> = tick_wire"
    by (intro emitted_sent) simp
  moreover have "same_disk nd (nd2\<lparr>nd_trig := add_sent [(?t, tick_wire)] (nd_trig nd2)\<rparr>)"
    using same by (simp add: same_disk_def)
  moreover have "(bc, wire_bytes hello_packet) \<in> set (ctx_sent (nd_fw ?nd1))" using out assms(4) by simp
  ultimately show ?thesis
    using s1 k s2 s3 heap list
    by (intro exI [of _ k] exI [of _ "ctx_fresh (nd_fw nd)"] exI [of _ "\<lparr>dm_node = ?nd1, dm_bufs = bufs\<rparr>"]
        exI [of _ "\<lparr>dm_node = nd2, dm_bufs = bufs\<rparr>"]
        exI [of _ "\<lparr>dm_node = nd2\<lparr>nd_trig := add_sent [(?t, tick_wire)] (nd_trig nd2)\<rparr>, dm_bufs = bufs\<rparr>"]) simp
qed

text \<open>The server: the greeting is answered, and the connection accepted.\<close>

lemma server_joins:
  assumes "ctx_heap (nd_fw nd) u = Some c" and "ctx_udp c" and "known_from h src ca" and "listens_on p nd"
    and "known_from h peer pa"
  shows "\<exists>i d1 d2. dm_step h (Datagram u src (Some (wire_bytes hello_packet))) \<lparr>dm_node = nd, dm_bufs = (\<lambda>_. [])\<rparr> d1 \<and>
    ctx_sent (nd_fw (dm_node d1)) = ctx_sent (nd_fw nd) @ [(ca, wire_bytes (ack_packet p))] \<and>
    dm_step h (Accept peer) d1 d2 \<and> same_disk nd (dm_node d2) \<and> dm_bufs d2 = (\<lambda>_. []) \<and>
    ctx_heap (nd_fw (dm_node d2)) i = Some \<lparr>ctx_peer = pa, ctx_active = True, ctx_udp = False\<rparr>"
proof -
  have "udp_from h u src ca nd" using assms(1-3) by (simp add: udp_from_known)
  from hello_answered [OF this assms(4)] obtain nd1
    where a: "udp_input h u src (Some (wire_bytes hello_packet)) nd = Inr nd1"
      and sent: "ctx_sent (nd_fw nd1) = ctx_sent (nd_fw nd) @ [(ca, wire_bytes (ack_packet p))]"
      and same: "same_disk nd nd1" by blast
  let ?d1 = "\<lparr>dm_node = nd1, dm_bufs = (\<lambda>_. [])\<rparr> :: daemon" and ?i = "ctx_fresh (nd_fw nd1)"
  let ?fw = "snd (ctx_new False pa (nd_fw nd1))"
  have s1: "dm_step h (Datagram u src (Some (wire_bytes hello_packet))) \<lparr>dm_node = nd, dm_bufs = (\<lambda>_. [])\<rparr> ?d1"
    using dm_step.datagram [of u "\<lparr>dm_node = nd, dm_bufs = (\<lambda>_. [])\<rparr>" c h src] assms(1,2) a by (simp add: ctx_at_def)
  have "tcp_accept (h_aton h) (h_ntoa h) peer (nd_fw nd1) = Inr (?i, ?fw)"
    using assms(5) by (simp add: tcp_accept_def known_from_def ctx_new_def Let_def)
  then have s2: "dm_step h (Accept peer) ?d1 \<lparr>dm_node = set_fw ?fw nd1, dm_bufs = (\<lambda>_. [])(?i := [])\<rparr>"
    using dm_step.accept [of h peer ?d1] by simp
  moreover have "same_disk nd (set_fw ?fw nd1)" using same by (simp add: same_disk_def set_fw_def)
  moreover have "ctx_heap (nd_fw (set_fw ?fw nd1)) ?i = Some \<lparr>ctx_peer = pa, ctx_active = True, ctx_udp = False\<rparr>"
    by (simp add: set_fw_same ctx_new_def Let_def)
  moreover have "(\<lambda>_. [])(?i := []) = (\<lambda>_. [] :: bytes)" by auto
  ultimately show ?thesis using s1 sent by (metis (no_types) daemon.select_convs)
qed

text \<open>A start that got its sockets listens for datagrams.\<close>

lemma main_start_udp:
  assumes "main_start env = Inr (Started ms)" and "st_udp_socket env" and "st_tcp_socket env"
  shows "\<exists>u c. ctx_heap (nd_fw (ms_node ms)) u = Some c \<and> ctx_udp c"
proof -
  obtain nd0 level nd1 ports nd2 t ua nd3 ta nd4
    where "load_config env (static_node env) = Inr nd0" and "node_query CONFIG_KEY_LOG_LEVEL nd0 = Inr (level, nd1)"
      and "LocalPort_query (st_stack env) (st_ifs env) = Inr ports"
      and "main_modules (st_host env) nd1 (timer_started (\<lambda>_. None)) ports = Inr (nd2, t)"
      and "listen_addr (st_host env) CONFIG_KEY_PROTO_DISCOVER_SERVER_UDP_PORT nd2 = Inr (ua, nd3)"
      and "listen_addr (st_host env) CONFIG_KEY_PROTO_SYNC_SERVER_TCP_PORT nd3 = Inr (ta, nd4)"
      and ms: "ms_node ms = set_fw (addTcpServer (st_tcp_socket env) (addUdpServer (st_udp_socket env) (nd_fw nd4))) nd4"
      and "ms_timer ms = t"
    using assms(1) by (rule main_start_steps)
  show ?thesis
    using assms(2,3)
    by (intro exI [of _ "ctx_fresh (nd_fw nd4)"])
      (simp add: ms set_fw_same addTcpServer_def addUdpServer_def ctx_new_def Let_def)
qed

text \<open>Together: the steps before the session, and that they lead to its first stage.\<close>

lemma programs_join:
  assumes "main_start envC = Inr (Started mc)" and "inet_text (h_aton (st_host envC)) (h_ntoa (st_host envC))"
    and "discovery_targets envC = Inr as" and "\<forall>a \<in> set as. s_addr (le_addr a) \<noteq> 0" and "bc \<in> set as"
    and "main_start envS = Inr (Started ms)" and "st_udp_socket envS" and "st_tcp_socket envS"
    and "listens_on p (ms_node ms)" and "known_from hs src ca" and "known_from hs peer pa"
    and "known_from hc src' sa" and "h_connect hc (tcp_target p sa)" and "s_addr (le_addr sa) \<noteq> 0"
    and "Hc hc" and "Hs hs" and "session_ok pl T"
    and "wants Hc (tcp_target p sa) pl T (ms_node mc)" and "serves Hs pa pl T (ms_node ms)"
  obtains k u lk d1 d2 d3 e1 e2
  where "dm_step hc (Timeout discover_tr) \<lparr>dm_node = ms_node mc, dm_bufs = (\<lambda>_. [])\<rparr> d1"
    and "(bc, wire_bytes hello_packet) \<in> set (ctx_sent (nd_fw (dm_node d1)))"
    and "dm_step hs (Datagram u src (Some (wire_bytes hello_packet))) \<lparr>dm_node = ms_node ms, dm_bufs = (\<lambda>_. [])\<rparr> e1"
    and "(ca, wire_bytes (ack_packet p)) \<in> set (ctx_sent (nd_fw (dm_node e1)))"
    and "dm_step hc (Datagram k src' (Some (wire_bytes (ack_packet p)))) d1 d2"
    and "dm_step hs (Accept peer) e1 e2" and "dm_step hc (Timeout sync_req_tr) d2 d3"
    and "session_at Hc Hs lk pl T Ticking
      \<lparr>nt_client = d3, nt_server = e2, nt_up = emitted (tcp_target p sa) d2 d3, nt_down = []\<rparr>"
    and "pl_fs pl = st_fs envC"
proof -
  note sc = main_start_result [OF assms(1)] and ss = main_start_result [OF assms(6)]
  have c: "contacts (h_ntoa (st_host envC)) as (nd_trig (ms_node mc))" "tr_mods (nd_trig (ms_node mc)) = wired_mods"
    using main_start_contacts(1) [OF assms(1,2)] assms(3) by auto
  obtain k i d1 d2 d3 where client: "dm_step hc (Timeout discover_tr) \<lparr>dm_node = ms_node mc, dm_bufs = (\<lambda>_. [])\<rparr> d1"
      "(bc, wire_bytes hello_packet) \<in> set (ctx_sent (nd_fw (dm_node d1)))"
      "dm_step hc (Datagram k src' (Some (wire_bytes (ack_packet p)))) d1 d2" "dm_step hc (Timeout sync_req_tr) d2 d3"
    and up: "emitted (tcp_target p sa) d2 d3 = tick_wire" and dc: "same_disk (ms_node mc) (dm_node d3)" "dm_bufs d3 = (\<lambda>_. [])"
    and cc: "elems (tcp_ctx (nd_fw (dm_node d3))) = [i]"
      "ctx_heap (nd_fw (dm_node d3)) i = Some \<lparr>ctx_peer = tcp_target p sa, ctx_active = True, ctx_udp = False\<rparr>"
    using client_joins [OF c assms(4,5) _ _ assms(12-14)] sc(2) by blast
  obtain u uc where "ctx_heap (nd_fw (ms_node ms)) u = Some uc" "ctx_udp uc"
    using main_start_udp [OF assms(6-8)] by blast
  from server_joins [OF this assms(10,9,11)] obtain i' e1 e2
    where server: "dm_step hs (Datagram u src (Some (wire_bytes hello_packet))) \<lparr>dm_node = ms_node ms, dm_bufs = (\<lambda>_. [])\<rparr> e1"
      "ctx_sent (nd_fw (dm_node e1)) = ctx_sent (nd_fw (ms_node ms)) @ [(ca, wire_bytes (ack_packet p))]"
      "dm_step hs (Accept peer) e1 e2"
    and ds: "same_disk (ms_node ms) (dm_node e2)" "dm_bufs e2 = (\<lambda>_. [])"
    and cs: "ctx_heap (nd_fw (dm_node e2)) i' = Some \<lparr>ctx_peer = pa, ctx_active = True, ctx_udp = False\<rparr>" by blast
  define lk where "lk = \<lparr>lk_cctx = i, lk_server = tcp_target p sa, lk_sctx = i', lk_client = pa\<rparr>"
  have "scannable (nd_rlm (ms_node mc)) (h_tree hc (pl_fs pl))"
    using assms(15,17,18) part_of_start by (simp add: wants_def session_ok_def)
  then have "lm_home (nd_rlm (ms_node mc)) \<noteq> []" by (auto simp: scannable_def)
  then have new: "client_new Hc lk pl T (dm_node d3)"
    using wants_connected [OF assms(18) dc(1)] sc(3) cc by (simp add: lk_def)
  have lists: "server_lists Hs lk pl T (dm_node e2)"
    using serves_connected [OF assms(19) ds(1)] ss(3) cs by (simp add: lk_def)
  have fs: "pl_fs pl = st_fs envC" using assms(18) sc(3) by (simp add: wants_def)
  have "session_at Hc Hs lk pl T Ticking
      \<lparr>nt_client = d3, nt_server = e2, nt_up = emitted (tcp_target p sa) d2 d3, nt_down = []\<rparr>"
    using assms(15-17) new lists dc(2) ds(2) frame_small [OF tick_frame] by (auto simp: up)
  moreover have "(ca, wire_bytes (ack_packet p)) \<in> set (ctx_sent (nd_fw (dm_node e1)))" using server(2) by simp
  ultimately show thesis using client server(1,3) fs by (intro that)
qed

section \<open>Properties\<close>


lemma sample_node_parts:
  assumes "main_start (sample_env_at fs) = Inr (Started ms)"
  shows "lm_home (nd_rlm (ms_node ms)) = ''/h''" and "nd_fs (ms_node ms) = fs" and "nd_dirs (ms_node ms) = {''/h''}"
    and "listens_on 91 (ms_node ms)"
proof -
  have inet: "inet_text (h_aton (st_host (sample_env_at fs))) (h_ntoa (st_host (sample_env_at fs)))"
    using quad.inet_text_axioms by (simp add: sample_env_at_def sample_env_def sample_host_def)
  note disk = main_start_result(4) [OF assms sample_load]
  show "lm_home (nd_rlm (ms_node ms)) = ''/h''" using disk
    by (simp add: same_disk_def ResourceManager_init_def RsLocalManager_new_def)
  show "nd_fs (ms_node ms) = fs" "nd_dirs (ms_node ms) = {''/h''}"
    using main_start_result(3) [OF assms] by (simp_all add: sample_env_at_def sample_env_def)
  have "same_settings sample_config (nd_config (ms_node ms))"
    using main_start_contacts(2) [OF assms inet sample_load] by (simp add: ResourceManager_init_def)
  moreover have "setting CONFIG_KEY_PROTO_SYNC_SERVER_TCP_PORT sample_config = ''91''" "config_at sample_config \<noteq> []"
    by (simp_all add: setting_def prop_query_def sm_index_def sample_config_def sample_settings_def str_less_def
        CONFIG_KEY_PROTO_SYNC_SERVER_TCP_PORT_def)
  ultimately have "fst (prop_query CONFIG_KEY_PROTO_SYNC_SERVER_TCP_PORT (config_p (nd_config (ms_node ms)))) = ''91''"
    "config_at (nd_config (ms_node ms)) \<noteq> []"
    by (simp_all add: same_settings_def setting_def)
  moreover have "dec_str (unat (91 :: u16)) = ''91''" by code_simp
  ultimately show "listens_on 91 (ms_node ms)"
    by (auto simp: listens_on_def config_query_def split: prod.split)
qed

lemma disk_known: "known_from disk_host (getBeAddr (sample_addr ip port)) (sample_addr ip port)"
  using quad.fromBe_getBeAddr [of "sample_addr ip port"] by (simp add: known_from_def disk_host_parts) (simp add: sample_addr_def)


end
