(* ===== verification/Task_Steps.thy ===== *)
theory Task_Steps
  imports Daemon_Safety
begin

text \<open>
  \<open>ReqRsTask::run\<close> step by step. The worker is a thread of its own: between its accesses to shared
  state (the list of sessions, the books, a connection) the loop may handle events. Here a task is
  the sequence of these accesses, each of which is atomic (the operations of the manager that a task
  calls hold its mutex; \<open>getAllTcpSession\<close> and the copy out of \<open>getAllUriRs\<close> do not, and are taken as
  one step each), and every event of the loop may come in between.
\<close>

section \<open>The accesses of a task\<close>

text \<open>
  Where a task is, with its local variables: the sessions, the copy of the entry, the number of
  owners, and how many of the queries that only the log uses are still to come.
\<close>

type_synonym sessions = "(net_addr, nat) smap"

datatype task_pc =
    Begin
  | Listed sessions
  | Copied sessions sync_rs
  | Counted sessions sync_rs u32
  | Sized sessions sync_rs u32
  | Logging nat sessions sync_rs u32
  | Chosen sessions net_addr
  | Booked sessions net_addr block
  | Finished

fun task_micro :: "host \<Rightarrow> string \<Rightarrow> task_pc \<Rightarrow> node \<Rightarrow> (task_pc \<times> node) res" where
  "task_micro h uri Begin nd = rbind (getAllTcpSession (nd_fw nd)) (\<lambda>idx. Inr (Listed idx, nd))"
| "task_micro h uri (Listed idx) nd =
     rbind (getRsSyncManager nd) (\<lambda>rsm.
       (let rs = uri_entry uri rsm in Inr (Copied idx rs, nd\<lparr>nd_rsm := Manager (set_entry uri rs rsm)\<rparr>)))"
| "task_micro h uri (Copied idx rs) nd =
     rbind (getRsSyncManager nd) (\<lambda>rsm.
       (case getOwnerSize uri rsm of (owner_size, rsm') \<Rightarrow>
          Inr (if owner_size = 0 then Finished else Counted idx rs owner_size, nd\<lparr>nd_rsm := Manager rsm'\<rparr>)))"
| "task_micro h uri (Counted idx rs owner_size) nd =
     rbind (getRsSyncManager nd) (\<lambda>rsm.
       (case getBlockSize uri rsm of (block_size, rsm') \<Rightarrow>
          Inr (if block_size = 0 then Finished else Sized idx rs owner_size, nd\<lparr>nd_rsm := Manager rsm'\<rparr>)))"
| "task_micro h uri (Sized idx rs owner_size) nd =
     rbind (getRsSyncManager nd) (\<lambda>rsm.
       (case getSyncingSize uri rsm of (syncing_size, rsm') \<Rightarrow>
          Inr (if of_nat DOWNLOAD_LIMIT \<le> syncing_size then Finished else Logging 3 idx rs owner_size,
               nd\<lparr>nd_rsm := Manager rsm'\<rparr>)))"
| "task_micro h uri (Logging (Suc k) idx rs owner_size) nd =
     rbind (getRsSyncManager nd) (\<lambda>rsm.
       Inr (Logging k idx rs owner_size,
            nd\<lparr>nd_rsm := Manager (snd (if k = 1 then getSyncingSize uri rsm else getBlockSize uri rsm))\<rparr>))"
| "task_micro h uri (Logging 0 idx rs owner_size) nd =
     rbind (vec_at (elems (rs_owner rs)) (h_draw h (unat owner_size))) (\<lambda>peer. Inr (Chosen idx peer, nd))"
| "task_micro h uri (Chosen idx peer) nd =
     rbind (getRsSyncManager nd) (\<lambda>rsm.
       (case regReqSyncRsAuto peer uri (h_time h) rsm of (b, rsm') \<Rightarrow>
          Inr (if b_end b \<noteq> 0 then Booked idx peer b else Finished, nd\<lparr>nd_rsm := Manager rsm'\<rparr>)))"
| "task_micro h uri (Booked idx peer b) nd =
     rbind (sendRsReq uri (fst (sm_index addr_less None peer (map (map_prod id Some) idx))) b nd) (\<lambda>nd'.
       Inr (Finished, nd'))"
| "task_micro h uri Finished nd = Inr (Finished, nd)"

text \<open>A task that nobody disturbs; it has at most eleven accesses.\<close>

fun micro_run :: "nat \<Rightarrow> host \<Rightarrow> string \<Rightarrow> task_pc \<Rightarrow> node \<Rightarrow> (task_pc \<times> node) res" where
  "micro_run 0 h uri pc nd = Inr (pc, nd)"
| "micro_run (Suc n) h uri pc nd = rbind (task_micro h uri pc nd) (\<lambda>(pc', nd'). micro_run n h uri pc' nd')"

lemma run_finished [simp]: "micro_run n h uri Finished nd = Inr (Finished, nd)"
  by (induction n) simp_all

lemma rsm_set [simp]: "getRsSyncManager (nd\<lparr>nd_rsm := Manager m\<rparr>) = Inr m"
  by (simp add: getRsSyncManager_def)

lemma set_again: "set_entry uri rs (set_entry uri rs' m) = set_entry uri rs m"
  by (simp add: set_entry_def)

section \<open>The interleaved daemon\<close>

record fine =
  fn_daemon :: daemon
  fn_pc :: task_pc

text \<open>Which task runs is in the queue's state; the position counts while one is running.\<close>

inductive fine_step :: "host \<Rightarrow> fine \<Rightarrow> fine \<Rightarrow> bool" for h where
  loop: "dm_step h e (fn_daemon s) d \<Longrightarrow> (\<forall>x. e \<noteq> Worker x) \<Longrightarrow> fine_step h s (s\<lparr>fn_daemon := d\<rparr>)"
| turn: "dm_step h (Worker x) (fn_daemon s) d \<Longrightarrow> x = Test \<or> x = Take \<Longrightarrow>
    fine_step h s (s\<lparr>fn_daemon := d, fn_pc := Begin\<rparr>)"
| micro: "tm_worker (nd_tasks (dm_node (fn_daemon s))) = Running t \<Longrightarrow> fn_pc s \<noteq> Finished \<Longrightarrow>
    task_micro h (task_body t) (fn_pc s) (dm_node (fn_daemon s)) = Inr (pc, nd) \<Longrightarrow>
    fine_step h s (s\<lparr>fn_daemon := (fn_daemon s)\<lparr>dm_node := nd\<rparr>, fn_pc := pc\<rparr>)"
| ends: "tm_worker (nd_tasks (dm_node (fn_daemon s))) = Running t \<Longrightarrow> fn_pc s = Finished \<Longrightarrow>
    tm_step Finish (nd_tasks (dm_node (fn_daemon s))) m \<Longrightarrow>
    fine_step h s (s\<lparr>fn_daemon := (fn_daemon s)\<lparr>dm_node := (dm_node (fn_daemon s))\<lparr>nd_tasks := m\<rparr>\<rparr>, fn_pc := Begin\<rparr>)"

inductive fine_reach :: "start_env \<Rightarrow> fine \<Rightarrow> bool" for env where
  start: "main_start env = Inr (Started ms) \<Longrightarrow>
    fine_reach env \<lparr>fn_daemon = \<lparr>dm_node = ms_node ms, dm_bufs = (\<lambda>_. [])\<rparr>, fn_pc = Begin\<rparr>"
| step: "fine_reach env s \<Longrightarrow> fine_step h s s' \<Longrightarrow> fine_reach env s'"

lemma micro_books:
  assumes "getRsSyncManager nd = Inr m" and "mgr_moves m m'"
  shows "moves nd (nd\<lparr>nd_rsm := Manager m'\<rparr>)"
  using getRsSyncManager_Manager [OF assms(1)] assms(2) by (intro moves_books) simp_all

lemma query_moves:
  assumes "rbind (getRsSyncManager nd) (\<lambda>rsm. case q rsm of (x, rsm') \<Rightarrow> Inr (f x, nd\<lparr>nd_rsm := Manager rsm'\<rparr>)) = Inr (pc, nd')"
    and "\<And>m x m'. q m = (x, m') \<Longrightarrow> mgr_moves m m'"
  shows "moves nd nd'"
proof -
  obtain m where m: "getRsSyncManager nd = Inr m" using assms(1) by (auto simp: rbind_Inr_iff)
  obtain x m' where q: "q m = (x, m')" by (rule prod.exhaust)
  with m assms(1) have "nd' = nd\<lparr>nd_rsm := Manager m'\<rparr>" by simp
  then show ?thesis using micro_books [OF m assms(2) [OF q]] by simp
qed

lemma micro_moves: "task_micro h uri pc nd = Inr (pc', nd') \<Longrightarrow> moves nd nd'"
proof (induction h uri pc nd rule: task_micro.induct)
  case (2 h uri idx nd)
  then show ?case using micro_books touch_moves by (auto simp: rbind_Inr_iff Let_def)
next
  case (3 h uri idx rs nd)
  then show ?case by (auto intro: query_moves size_moves(1))
next
  case (4 h uri idx rs n nd)
  then show ?case by (auto intro: query_moves size_moves(2))
next
  case (5 h uri idx rs n nd)
  then show ?case by (auto intro: query_moves size_moves(3))
next
  case (6 h uri k idx rs n nd)
  then obtain m where m: "getRsSyncManager nd = Inr m"
    and nd': "nd' = nd\<lparr>nd_rsm := Manager (snd (if k = 1 then getSyncingSize uri m else getBlockSize uri m))\<rparr>"
    by (auto simp: rbind_Inr_iff)
  have "mgr_moves m (snd (if k = 1 then getSyncingSize uri m else getBlockSize uri m))"
    using size_moves(2,3) by (metis surjective_pairing)
  then show ?case unfolding nd' by (rule micro_books [OF m])
next
  case (8 h uri idx peer nd)
  then show ?case by (auto intro: query_moves request_moves)
next
  case (9 h uri idx peer b nd)
  then show ?case using sendRsReq_moves by (auto simp: rbind_Inr_iff)
qed (auto simp: rbind_Inr_iff ndm.refl)

lemma fine_moves: "fine_step h s s' \<Longrightarrow> moves (dm_node (fn_daemon s)) (dm_node (fn_daemon s'))"
proof (induction rule: fine_step.induct)
  case (ends s t m)
  then show ?case using worker_moves by simp
qed (auto dest: dm_step_moves micro_moves)

lemma fine_inv: "fine_reach env s \<Longrightarrow> node_inv (dm_node (fn_daemon s))"
proof (induction rule: fine_reach.induct)
  case (start ms)
  then show ?case using main_start_result(1) by simp
next
  case (step s h s')
  then show ?case using fine_moves by (auto simp: moves_def)
qed

section \<open>Properties\<close>


text \<open>
  C14: the interleaved program, too, implements the abstract machine of blocks. Whatever the loop
  handles between two accesses of the running task: the index of the sessions can be built and every
  session in it can be written to, no block is both free and being fetched or fetched twice, no task
  is queued twice, and each single access changes the books by steps of the machine only.
\<close>

theorem interleaving_refines_board:
  assumes "fine_reach env s"
  shows "(\<exists>idx. getAllTcpSession (nd_fw (dm_node (fn_daemon s))) = Inr idx \<and>
       (\<forall>a i. sm_find addr_less a idx = Some i \<longrightarrow> ctx_ready (nd_fw (dm_node (fn_daemon s))) i)) \<and>
    (\<forall>m uri. nd_rsm (dm_node (fn_daemon s)) = Manager m \<longrightarrow> exclusive (uri_entry uri m)) \<and>
    distinct (map task_id (tasks (nd_tasks (dm_node (fn_daemon s))))) \<and>
    (\<forall>h s'. fine_step h s s' \<longrightarrow>
       (\<exists>ops. board_steps ops (board_of (dm_node (fn_daemon s))) (board_of (dm_node (fn_daemon s')))))"
proof -
  have inv: "node_inv (dm_node (fn_daemon s))" using assms by (rule fine_inv)
  then have fw: "fw_inv (nd_fw (dm_node (fn_daemon s)))" by (simp add: node_inv_def trig_inv_def nd_fw_def)
  have "exclusive (uri_entry uri m)" if "nd_rsm (dm_node (fn_daemon s)) = Manager m" for m uri
    using inv that mgr_exclusive_entry by (auto simp: node_inv_def)
  moreover have "\<exists>ops. board_steps ops (board_of (dm_node (fn_daemon s))) (board_of (dm_node (fn_daemon s')))"
    if "fine_step h s s'" for h s'
    using fine_moves [OF that] inv by (simp add: moves_def)
  ultimately show ?thesis
    using inv sessions_ready [OF fw] by (auto simp: node_inv_def queue_inv_def)
qed

theorem interleaving_refines_board_witness:
  "\<exists>ms idx. main_start sample_env = Inr (Started ms) \<and> getAllTcpSession (nd_fw (ms_node ms)) = Inr idx"
  using sample_started interleaving_refines_board [OF fine_reach.start] by fastforce

text \<open>
  C35: a connection that closes while a task has its block in hand brings the program down. The task
  has read the sessions and booked the block on the peer; the loop then closes the connection, which
  is taken off the list but not freed; the write of the task finds it inactive, deletes it and throws,
  and the handler of the exception deletes it again.
\<close>

theorem close_during_request_faults:
  assumes "sm_find addr_less peer idx = Some i" and "ctx_heap (nd_fw nd) i = Some c" and "\<not> ctx_udp c"
    and "tcp_ctx (nd_fw nd) \<noteq> NullVec" and "nd_rsm nd = Manager m"
    and "rs_block (uri_entry uri m) \<noteq> []" and "peer \<in> set (elems (rs_owner (uri_entry uri m)))"
    and "b = last (rs_block (uri_entry uri m))" and "b_start b < b_end b" and "clean_text uri"
  shows "\<exists>nd' fw. task_micro h uri (Chosen idx peer) nd = Inr (Booked idx peer b, nd') \<and>
    event_cb i (nd_fw nd') = Inr fw \<and>
    task_micro h uri (Booked idx peer b) (set_fw fw nd') = Inl UseAfterFree"
proof -
  obtain rs where req: "rs_request peer (h_time h) (uri_entry uri m) = (b, rs)"
    and owner: "rs_owner rs = rs_owner (uri_entry uri m)" and sync: "rs_syncing rs \<noteq> NullVec"
    using assms(6-8) by (auto simp: rs_request_def Let_def)
  let ?m = "set_entry uri rs m"
  let ?nd = "nd\<lparr>nd_rsm := Manager ?m\<rparr>"
  have be: "b_end b \<noteq> 0" "b_start b \<noteq> b_end b" using assms(9) by auto
  have chosen: "task_micro h uri (Chosen idx peer) nd = Inr (Booked idx peer b, ?nd)"
    using assms(5) req be(1) by (simp add: getRsSyncManager_def regReqSyncRsAuto_def)
  obtain xs where xs: "tcp_ctx (nd_fw nd) = Vec xs" using assms(4) by (cases "tcp_ctx (nd_fw nd)") auto
  let ?fw = "(nd_fw nd)\<lparr>ctx_heap := (ctx_heap (nd_fw nd))(i \<mapsto> c\<lparr>ctx_active := False\<rparr>), tcp_ctx := Vec (remove1 i xs)\<rparr>"
  have ev: "event_cb i (nd_fw ?nd) = Inr ?fw"
    using assms(2) xs by (simp add: event_cb_def ctx_setActive_def ctx_at_def)
  have "\<exists>r. erase_last (\<lambda>j. j = i) (Vec (remove1 i xs)) = Inr r" by (rule erase_last_total) simp
  then have w: "\<exists>fw'. ctx_write i bs ?fw = Inr (False, fw') \<and> ctx_heap fw' i = None" for bs
    using assms(3) by (auto simp: ctx_write_def ctx_delete_def ctx_at_def Let_def)
  have u: "\<exists>m'. unregAllReqSyncRsByPeer (ctx_peer c) uri ?m = Inr m'"
  proof -
    have "rs_owner rs \<noteq> NullVec" using assms(7) owner by auto
    then show ?thesis using sync
      by (cases "rs_syncing rs"; cases "rs_owner rs") (auto simp: unregAllReqSyncRsByPeer_def rs_unreg_peer_def)
  qed
  note p = request_written [OF assms(10) be(2)]
  have ix: "fst (sm_index addr_less None peer (map (map_prod id Some) idx)) = Some i"
    using assms(1) by (simp add: sm_index_def sm_find_map_values)
  obtain fw' where fw': "ctx_write i (wire_bytes (request_packet uri b)) ?fw = Inr (False, fw')" "ctx_heap fw' i = None"
    using w by blast
  obtain m' where m': "unregAllReqSyncRsByPeer (ctx_peer c) uri ?m = Inr m'" using u by blast
  have fw: "nd_fw (set_fw ?fw ?nd) = ?fw" "nd_rsm (set_fw ?fw ?nd) = Manager ?m" by (simp_all add: set_fw_def nd_fw_def)
  have "ctx_getPeer i ?fw = Inr (ctx_peer c)" "ctx_delete i fw' = Inl UseAfterFree"
    using fw'(2) by (simp_all add: ctx_getPeer_def ctx_delete_def ctx_at_def)
  then have "task_micro h uri (Booked idx peer b) (set_fw ?fw ?nd) = Inl UseAfterFree"
    by (simp add: sendRsReq_def getRsSyncManager_def range_text_print [OF be(2)] p ix fw fw'(1) m')
  with chosen ev show ?thesis by blast
qed

theorem close_during_request_faults_witness:
  "\<exists>nd fw. task_micro sample_host ''/a'' (Chosen [(NetAddr_default, 0)] NetAddr_default) sample_client =
       Inr (Booked [(NetAddr_default, 0)] NetAddr_default (Block 2 5), nd) \<and>
     event_cb 0 (nd_fw nd) = Inr fw \<and>
     task_micro sample_host ''/a'' (Booked [(NetAddr_default, 0)] NetAddr_default (Block 2 5)) (set_fw fw nd) =
       Inl UseAfterFree"
proof -
  have m: "nd_rsm sample_client = Manager sample_books" by (simp add: sample_client_def sample_books_def)
  have ix: "sm_find addr_less NetAddr_default [(NetAddr_default, 0 :: nat)] = Some 0" by (simp add: addr_less_def)
  have heap: "ctx_heap (nd_fw sample_client) 0 = Some \<lparr>ctx_peer = NetAddr_default, ctx_active = True, ctx_udp = False\<rparr>"
    "tcp_ctx (nd_fw sample_client) \<noteq> NullVec"
    by (simp_all add: nd_fw_def sample_client_def sample_node_def one_conn_def ctx_new_def net_fw_init_def Let_def)
  show ?thesis
    by (rule close_during_request_faults [OF ix heap(1) _ heap(2) m])
      (simp_all add: sample_books_entry clean_text_def)
qed

text \<open>
  C36: a peer that registers as an owner while a task runs can send the task past the end of its copy.
  The task copies the entry first and asks for the number of owners afterwards; with the new owner
  counted, the draw may be the number of the copied owners, which is no position of the copy.
\<close>

theorem owner_race_faults:
  assumes "nd_rsm nd = Manager m" and "str_find uri (uriRs m) = Some rs" and "rs_size rs = Some sz" and "rs_hash rs = hash"
    and "peer \<notin> set (elems (rs_owner rs))" and "length (elems (rs_owner rs)) + 1 < 2 ^ 32"
    and "rs_block rs \<noteq> []" and "length (rs_block rs) < 2 ^ 32" and "length (elems (rs_syncing rs)) < DOWNLOAD_LIMIT"
    and "h_draw h (length (elems (rs_owner rs)) + 1) = length (elems (rs_owner rs))"
  shows "\<exists>nd1 m'. task_micro h uri (Listed idx) nd = Inr (Copied idx rs, nd1) \<and>
    nd_rsm nd1 = Manager (set_entry uri rs m) \<and> regSyncRs peer uri hash sz (set_entry uri rs m) = Inr (True, m') \<and>
    micro_run 7 h uri (Copied idx rs) (nd1\<lparr>nd_rsm := Manager m'\<rparr>) = Inl OutOfBounds"
proof -
  have e: "uri_entry uri m = rs" using assms(2) by (simp add: uri_entry_eq)
  let ?rs = "rs\<lparr>rs_owner := push_back (rs_owner rs) peer\<rparr>"
  let ?n = "length (elems (rs_owner rs))"
  let ?nd = "nd\<lparr>nd_rsm := Manager (set_entry uri rs m)\<rparr>"
  have copy: "task_micro h uri (Listed idx) nd = Inr (Copied idx rs, ?nd)"
    using assms(1) e by (simp add: getRsSyncManager_def Let_def)
  have "str_find uri (uriRs (set_entry uri rs m)) = Some rs" by (simp add: set_entry_def)
  then have reg: "regSyncRs peer uri hash sz (set_entry uri rs m) = Inr (True, set_entry uri ?rs (set_entry uri rs m))"
    using assms(3-5) by (simp add: regSyncRs_def updateSyncRs_def)
  have own: "unat (1 + of_nat ?n :: u32) = ?n + 1"
    using unat_of_nat_u32 [of "?n + 1"] assms(6) by simp
  then have ne: "(1 + of_nat ?n :: u32) \<noteq> 0" by (metis add_is_0 one_neq_zero unat_0)
  have blk: "(of_nat (length (rs_block rs)) :: u32) \<noteq> 0"
    using unat_of_nat_u32 [OF assms(8)] assms(7) by (auto dest: arg_cong [of _ _ unat])
  have syn: "\<not> of_nat DOWNLOAD_LIMIT \<le> (of_nat (length (elems (rs_syncing rs))) :: u32)"
    using assms(9) unat_of_nat_u32 [of "length (elems (rs_syncing rs))"]
    by (simp add: word_le_nat_alt DOWNLOAD_LIMIT_def)
  have "micro_run 7 h uri (Copied idx rs) (?nd\<lparr>nd_rsm := Manager (set_entry uri ?rs (set_entry uri rs m))\<rparr>) = Inl OutOfBounds"
    using own ne blk syn assms(10)
    by (simp add: eval_nat_numeral getOwnerSize_def getBlockSize_def getSyncingSize_def Let_def set_again vec_at_def)
  with copy reg show ?thesis by (intro exI [of _ ?nd]) simp
qed

definition last_host :: host where
  "last_host = sample_host\<lparr>h_draw := (\<lambda>n. n - 1)\<rparr>"

theorem owner_race_faults_witness:
  "\<exists>nd1 m'. task_micro last_host ''/a'' (Listed []) sample_client =
       Inr (Copied [] (sample_rs [SyncingRange_new NetAddr_default (Block 0 2) 0]), nd1) \<and>
     nd_rsm nd1 = Manager sample_books \<and>
     regSyncRs (sample_addr 1 9) ''/a'' ''00'' 5 sample_books = Inr (True, m') \<and>
     micro_run 7 last_host ''/a'' (Copied [] (sample_rs [SyncingRange_new NetAddr_default (Block 0 2) 0]))
       (nd1\<lparr>nd_rsm := Manager m'\<rparr>) = Inl OutOfBounds"
proof -
  let ?rs = "sample_rs [SyncingRange_new NetAddr_default (Block 0 2) 0]"
  have m: "nd_rsm sample_client = Manager sample_books" by (simp add: sample_client_def sample_books_def)
  have f: "str_find ''/a'' (uriRs sample_books) = Some ?rs" by (simp add: sample_books_def str_less_def)
  have same: "set_entry ''/a'' ?rs sample_books = sample_books"
    by (simp add: set_entry_def sample_books_def str_less_def)
  have sel: "rs_size ?rs = Some 5" "rs_hash ?rs = ''00''" by (simp_all add: sample_rs_def)
  have new: "sample_addr 1 9 \<notin> set (elems (rs_owner ?rs))"
    by (simp add: sample_addr_def NetAddr_default_def sockaddr_zero_def)
  have "h_draw last_host (length (elems (rs_owner ?rs)) + 1) = length (elems (rs_owner ?rs))"
    by (simp add: last_host_def)
  with owner_race_faults [OF m f sel new, of last_host "[]"] show ?thesis
    by (simp add: same DOWNLOAD_LIMIT_def)
qed

end
