(* ===== verification/Event_Buf.thy ===== *)
theory Event_Buf
  imports Packet_Codec
begin

text \<open>
  \<open>components/buf_base_on_event.cpp\<close>: the buffer every packet goes through on its way from
  \<open>LanSyncPkt::write\<close> to the connection. Its \<open>evbuffer\<close> is the list of bytes in it; whether
  \<open>evbuffer_add\<close> finds memory is the argument \<open>ok\<close>. The copy \<open>data\<close> hands out stays allocated
  until the next call, so the result is a list of bytes the buffer still holds.
\<close>

record event_buf =
  eb_bytes :: bytes
  eb_d :: "bytes option"

definition BufBaseonEvent_new :: event_buf where
  "BufBaseonEvent_new = \<lparr>eb_bytes = [], eb_d = None\<rparr>"

definition buf_add :: "bool \<Rightarrow> bytes \<Rightarrow> event_buf \<Rightarrow> u64 \<times> event_buf" where
  "buf_add ok data_in b =
     (if \<not> ok then (0, b)
      else (of_nat (length data_in), b\<lparr>eb_bytes := eb_bytes b @ data_in\<rparr>))"

definition buf_data :: "event_buf \<Rightarrow> bytes \<times> event_buf" where
  "buf_data b = (eb_bytes b, b\<lparr>eb_d := Some (eb_bytes b)\<rparr>)"

definition buf_size :: "event_buf \<Rightarrow> u64" where
  "buf_size b = of_nat (length (eb_bytes b))"

text \<open>
  The calls \<open>pkt.write(buf)\<close> and \<open>ctx.write(buf.data(), buf.size())\<close> of the senders: what is
  written to the connection is the first \<open>size\<close> bytes of the copy.
\<close>

definition pkt_to_buf :: "bool \<Rightarrow> lan_sync_pkt \<Rightarrow> event_buf \<Rightarrow> event_buf res" where
  "pkt_to_buf ok pkt b = rbind (LanSyncPkt_write pkt) (\<lambda>bs. Inr (snd (buf_add ok bs b)))"

definition buf_payload :: "event_buf \<Rightarrow> bytes res" where
  "buf_payload b = (case buf_data b of (d, b') \<Rightarrow> slice d 0 (unat (buf_size b')))"

lemma buf_add_twice:
  "snd (buf_add True ys (snd (buf_add True xs b))) = snd (buf_add True (xs @ ys) b)"
  by (simp add: buf_add_def)

lemma buf_payload_eq: "length (eb_bytes b) < 2 ^ 64 \<Longrightarrow> buf_payload b = Inr (eb_bytes b)"
  by (simp add: buf_payload_def buf_data_def buf_size_def slice_def unat_of_nat_u64)

text \<open>
  The senders of the other theories hand the bytes of \<open>LanSyncPkt_write\<close> to the connection
  directly; the detour through a new buffer does not change them.
\<close>

lemma packet_through_buffer:
  assumes "LanSyncPkt_write pkt = Inr bs" and "length bs < 2 ^ 64"
  shows "rbind (pkt_to_buf True pkt BufBaseonEvent_new) buf_payload = Inr bs"
  using assms buf_payload_eq by (simp add: pkt_to_buf_def buf_add_def BufBaseonEvent_new_def)

text \<open>Without memory for the buffer an empty packet goes out, and no caller notices.\<close>

lemma packet_lost_in_buffer:
  assumes "LanSyncPkt_write pkt = Inr bs"
  shows "rbind (pkt_to_buf False pkt BufBaseonEvent_new) buf_payload = Inr []"
  using assms by (simp add: pkt_to_buf_def buf_add_def BufBaseonEvent_new_def buf_payload_eq)

end
