(* ===== verification/Sync_Vo.thy ===== *)
theory Sync_Vo
  imports Content_Range
begin

text \<open>
  The value objects of \<open>vo/want_to_sync_vo.cpp\<close>: the state of a wanted resource, and how long it
  may take. \<open>now\<close> is what \<open>time\<close> answers.
\<close>

datatype want_status = PENDING | SYNCING | SUCCESS | FAIL | RESET

text \<open>\<open>RESET\<close> has no text of its own.\<close>

fun WantSyncResourceStatusEnumToString :: "want_status \<Rightarrow> string" where
  "WantSyncResourceStatusEnumToString PENDING = ''PENDING''"
| "WantSyncResourceStatusEnumToString SYNCING = ''SYNCING''"
| "WantSyncResourceStatusEnumToString SUCCESS = ''SUCCESS''"
| "WantSyncResourceStatusEnumToString FAIL = ''FAIL''"
| "WantSyncResourceStatusEnumToString RESET = ''UNKOWN''"

definition SIZE_50_KB :: u64 where "SIZE_50_KB = 51200"

record sync_rs_vo =
  vo_uri :: string
  vo_status :: want_status
  vo_range :: range_req
  vo_last_update_time :: int
  vo_max_delay :: u32

text \<open>
  The delay is computed in \<open>uint64_t\<close>, stored in an \<open>int\<close>, and compared with 60 as one.
\<close>

definition SyncRsVO_new :: "string \<Rightarrow> want_status \<Rightarrow> range_req \<Rightarrow> int \<Rightarrow> sync_rs_vo" where
  "SyncRsVO_new uri st rng now =
     (let delay = sint (ucast (rg_size rng div SIZE_50_KB) :: u32)
      in \<lparr>vo_uri = uri, vo_status = st, vo_range = rng, vo_last_update_time = now,
          vo_max_delay = word_of_int (max delay 60)\<rparr>)"

definition setStatus :: "want_status \<Rightarrow> sync_rs_vo \<Rightarrow> sync_rs_vo" where
  "setStatus st v = v\<lparr>vo_status := st\<rparr>"

definition setLastUpdateTime :: "int \<Rightarrow> sync_rs_vo \<Rightarrow> sync_rs_vo" where
  "setLastUpdateTime t v = v\<lparr>vo_last_update_time := t\<rparr>"

definition getUri :: "sync_rs_vo \<Rightarrow> string" where "getUri v = vo_uri v"
definition getStatus :: "sync_rs_vo \<Rightarrow> want_status" where "getStatus v = vo_status v"
definition getRange :: "sync_rs_vo \<Rightarrow> range_req" where "getRange v = vo_range v"
definition getLast_update_time :: "sync_rs_vo \<Rightarrow> int" where "getLast_update_time v = vo_last_update_time v"
definition getMaxDelay :: "sync_rs_vo \<Rightarrow> u32" where "getMaxDelay v = vo_max_delay v"

text \<open>The delay of a range of ordinary size: a second for every 50 KiB, at least a minute.\<close>

lemma max_delay:
  assumes "unat (rg_size rng) < 51200 * 2 ^ 31"
  shows "unat (getMaxDelay (SyncRsVO_new uri st rng now)) = max (unat (rg_size rng) div 51200) 60"
proof -
  let ?d = "unat (rg_size rng) div 51200"
  have d: "?d < 2 ^ 31" using assms by (simp add: less_mult_imp_div_less)
  have u: "unat (rg_size rng div SIZE_50_KB) = ?d" by (simp add: SIZE_50_KB_def unat_div)
  then have w: "(ucast (rg_size rng div SIZE_50_KB) :: u32) = of_nat ?d"
    by (metis of_nat_unat)
  have "sint (of_nat ?d :: u32) = int ?d"
  proof -
    have "uint (of_nat ?d :: u32) = int ?d"
      using d by (simp add: unsigned_of_nat take_bit_nat_eq_self)
    then show ?thesis using d by (simp add: sint_uint signed_take_bit_int_eq_self)
  qed
  then have "vo_max_delay (SyncRsVO_new uri st rng now) = of_nat (max ?d 60)"
    unfolding SyncRsVO_new_def w Let_def by (simp add: max_def split: if_splits)
  then show ?thesis using d by (simp only: getMaxDelay_def) (subst unat_of_nat_u32, auto)
qed

end
