(* ===== verification/Accessors.thy ===== *)
theory Accessors
  imports Net_Dispatch
begin

text \<open>
  The small members of the classes: what the getters return, the list of monitors of \<open>IoUtil\<close>, the
  array form of the comparison of tables, the names of modules, and what the destructors of the
  connection contexts close.
\<close>

section \<open>Packets and ranges\<close>

definition getXheaders :: "lan_sync_pkt \<Rightarrow> (string, string) smap" where
  "getXheaders p = xheader p"

definition getHeaderLen :: "lan_sync_pkt \<Rightarrow> u16" where
  "getHeaderLen p = header_len p"

definition getTotalLen :: "lan_sync_pkt \<Rightarrow> u32" where
  "getTotalLen p = total_len p"

definition getVersion :: "lan_sync_pkt \<Rightarrow> u8" where
  "getVersion p = version p"

definition getType :: "lan_sync_pkt \<Rightarrow> u8" where
  "getType p = pkt_type p"

definition ContentRange_getStartPos :: "content_range \<Rightarrow> u64" where
  "ContentRange_getStartPos r = cr_start_pos r"

definition ContentRange_getSize :: "content_range \<Rightarrow> u64" where
  "ContentRange_getSize r = cr_size r"

definition ContentRange_getTotalSize :: "content_range \<Rightarrow> u64 res" where
  "ContentRange_getTotalSize r = read_init (cr_total_size r)"

definition ContentRange_isLast :: "content_range \<Rightarrow> bool" where
  "ContentRange_isLast r = cr_is_last r"

definition Range_getStartPos :: "range_req \<Rightarrow> u64 res" where
  "Range_getStartPos r = read_init (rg_start_pos r)"

definition Range_getSize :: "range_req \<Rightarrow> u64" where
  "Range_getSize r = rg_size r"

section \<open>Interfaces\<close>

definition LocalPort_getAddr :: "local_port \<Rightarrow> sockaddr_in" where
  "LocalPort_getAddr p = lp_addr p"

definition LocalPort_getBroadAddr :: "local_port \<Rightarrow> sockaddr_in" where
  "LocalPort_getBroadAddr p = lp_broad_addr p"

definition LocalPort_getSubnetMask :: "local_port \<Rightarrow> sockaddr_in" where
  "LocalPort_getSubnetMask p = lp_subnet_mask p"

section \<open>Monitors\<close>

text \<open>An \<open>IoUtil\<close> is the list of its monitors, which \<open>readSize\<close> calls in this order.\<close>

definition IoUtil_new :: "'s monitor list" where
  "IoUtil_new = []"

definition addReadMonitor :: "'s monitor \<Rightarrow> 's monitor list \<Rightarrow> 's monitor list" where
  "addReadMonitor m readMonitors = readMonitors @ [m]"

lemma monitors_in_order:
  "call_monitors (addReadMonitor m mons) pos (Inr chunk) s =
     rbind (call_monitors mons pos (Inr chunk) s) (m pos chunk)"
  by (simp add: call_monitors_def addReadMonitor_def rfold_append)

section \<open>Tables\<close>

definition getRsHome :: "local_manager \<Rightarrow> string" where
  "getRsHome lm = lm_home lm"

text \<open>The array form copies \<open>n\<close> entries from the pointer.\<close>

fun copy_entries :: "resource list \<Rightarrow> nat \<Rightarrow> resource list \<Rightarrow> resource list res" where
  "copy_entries table 0 peer_table = Inr peer_table"
| "copy_entries table (Suc n) peer_table =
     rbind (vec_at table (length peer_table)) (\<lambda>r. copy_entries table n (peer_table @ [r]))"

definition cmpThenRetNeedToSyncTable_array ::
    "digester \<Rightarrow> string \<Rightarrow> (string \<Rightarrow> fnode) \<Rightarrow> resource list \<Rightarrow> u64 \<Rightarrow> local_manager \<Rightarrow>
     (resource list \<times> local_manager) res" where
  "cmpThenRetNeedToSyncTable_array dg cwd tree table n lm =
     rbind (copy_entries table (unat n) []) (\<lambda>peer_table. cmpThenRetNeedToSyncTable dg cwd tree peer_table lm)"

lemma copy_entries_take:
  "k + n \<le> length table \<Longrightarrow> copy_entries table n (take k table) = Inr (take (k + n) table)"
proof (induction n arbitrary: k)
  case (Suc n)
  then have "take k table @ [table ! k] = take (Suc k) table" by (simp add: take_Suc_conv_app_nth)
  with Suc show ?case by (simp add: vec_at_def)
qed simp

lemma cmp_array:
  assumes "unat n \<le> length table"
  shows "cmpThenRetNeedToSyncTable_array dg cwd tree table n lm =
    cmpThenRetNeedToSyncTable dg cwd tree (take (unat n) table) lm"
  using copy_entries_take [of 0 "unat n" table] assms by (simp add: cmpThenRetNeedToSyncTable_array_def)

section \<open>Destructors of the contexts\<close>

text \<open>
  A bufferevent made with \<open>BEV_OPT_CLOSE_ON_FREE\<close> closes its socket (\<open>bev\<close>) when it is freed, as
  libevent documents; the destructor then closes the socket again.
\<close>

definition NetworkConnCtxWithEvent_destroy :: "int option \<Rightarrow> int \<Rightarrow> os_log \<Rightarrow> os_log" where
  "NetworkConnCtxWithEvent_destroy bev peer_sock os =
     (let os1 = (case bev of None \<Rightarrow> os | Some fd \<Rightarrow> os\<lparr>os_closed := os_closed os @ [fd]\<rparr>)
      in if 0 < peer_sock then os1\<lparr>os_closed := os_closed os1 @ [peer_sock]\<rparr> else os1)"

definition NetworkConnCtxWithEventForUDP_destroy :: "int \<Rightarrow> os_log \<Rightarrow> os_log" where
  "NetworkConnCtxWithEventForUDP_destroy peer_sock os =
     (if 0 < peer_sock then os\<lparr>os_closed := os_closed os @ [peer_sock]\<rparr> else os)"

lemma socket_closed_twice:
  "0 < s \<Longrightarrow> os_closed (NetworkConnCtxWithEvent_destroy (Some s) s os) = os_closed os @ [s, s]"
  by (simp add: NetworkConnCtxWithEvent_destroy_def)

end
