(* ===== verification/Spec2Isabelle.thy ===== *)
theory Spec2Isabelle
  imports Whole_Program Task_Steps Late_Task Event_Buf Sync_Vo Accessors
begin

text \<open>
  Verification development for the LAN synchronisation daemon (C++ under \<open>src/src\<close>).

  The program. Every node serves the files below a home directory and fetches what its peers
  have. A discovery trigger sends HELLO datagrams to broadcast addresses; a peer answers with
  HELLO ACK and its TCP port; the answer makes the node connect; a second trigger asks every
  connected peer for its table of files; wanted files are cut into blocks and fetched block by
  block by a worker thread, with GET RESOURCE packets answered by REPLY RESOURCE packets.

  The theories, from the bottom up, and the code each models:

  \<^item> \<open>Prelude\<close>: faults and the result type \<open>'a res\<close> (\<open>Inl\<close> a fault of the C++ program, \<open>Inr\<close> a
    value), bytes in memory with bounds-checked reads and writes, byte order. A function that may
    not return has the type \<open>'a res option\<close>, \<open>None\<close> for not returning.
  \<^item> \<open>Std_Map\<close>, \<open>Cxx_Text\<close>, \<open>Cxx_Vec\<close>: what the source uses of \<open>std::map\<close> (an association list in
    the order of the comparison; \<open>operator[]\<close> inserts), of \<open>sscanf\<close>, \<open>getline\<close>, \<open>atoi\<close> and of
    vectors and the backwards erasing loops over them.
  \<^item> \<open>Net_Addr\<close>: \<open>net/net_addr.cpp\<close>. \<open>Lan_Packet\<close>, \<open>Packet_Codec\<close>, \<open>Content_Range\<close>:
    \<open>proto/lan_share_protocol.cpp\<close>, the packet in memory, on the wire, and its range headers.
  \<^item> \<open>Sync_Rs\<close>, \<open>Sync_Manager\<close>, \<open>Ledger\<close>, \<open>Sync_Fetch\<close>: \<open>modules/block.cpp\<close>,
    \<open>modules/rs_sync_mamanger.cpp\<close>: which blocks of which resource are free, being fetched and
    done; the accounting of blocks, the abstract machine they implement, and that no caller ever
    reads the success flag as set.
  \<^item> \<open>Resource_Dto\<close>, \<open>Io_Utils\<close>, \<open>Local_Manager\<close>: \<open>vo/dto/resource.cpp\<close>, \<open>utils/io_utils.cpp\<close>,
    \<open>modules/rs_local_manager.cpp\<close>, \<open>utils/openssl_utils.cpp\<close>: the table of local files.
  \<^item> \<open>Task_Manager\<close>: \<open>modules/task\<close>, the queue and the worker as a step relation.
  \<^item> \<open>Net_Framework\<close>, \<open>Net_Trigger\<close>, \<open>Timer_Trigger\<close>: \<open>net\<close>, \<open>modules/net_trigger.cpp\<close>,
    \<open>components/sync_trigger.cpp\<close>, \<open>timer\<close>: connections, their callbacks, the periodic triggers
    and the mediator that carries addresses between the modules.
  \<^item> \<open>Config_Manager\<close>, \<open>Sync_Vo\<close>: configuration, text helpers, a value object.
  \<^item> \<open>Sync_Node\<close>, \<open>Block_Exchange\<close>: \<open>logics\<close>, \<open>components/sync_io_read_monitor.cpp\<close>,
    \<open>modules/task/req_rs_task.cpp\<close>: every packet handler over the state of one node, and what two
    nodes achieve together.
  \<^item> \<open>Net_Dispatch\<close>, \<open>Event_Buf\<close>: \<open>net/network_layer.cpp\<close>, \<open>net/net_logic_container.cpp\<close>,
    \<open>net/abst_net_logic.cpp\<close>, \<open>components/sync_network_conn_ctx.cpp\<close>,
    \<open>components/buf_base_on_event.cpp\<close>: endpoints, the containers between a connection and its
    logic, and the composition of the read callbacks with the handlers (\<open>tcp_input\<close>, \<open>udp_input\<close>).
    \<open>Accessors\<close>: the getters and other small members of the classes.
  \<^item> \<open>Log_Config\<close>, \<open>Sync_Main\<close>, \<open>Startup\<close>: \<open>utils/logger.cpp\<close>, \<open>components/common.cpp\<close>,
    \<open>main.cpp\<close>: the start of the program (\<open>main_start\<close>), and which addresses it greets.
  \<^item> \<open>Peer_Discovery\<close>: HELLO, its answer, the connection the answer makes and the first request
    over it, between two nodes.
  \<^item> \<open>Node_Invariant\<close>, \<open>Sync_Daemon\<close>, \<open>Daemon_Run\<close>, \<open>Daemon_Safety\<close>: the running program as a
    transition system \<open>dm_step\<close> whose steps are the callbacks of libevent and the steps of the
    worker; what every handler keeps (\<open>moves\<close>), the invariant of every reachable state, the
    refinement of the abstract machine of blocks by the whole program, and what a step of the
    worker requests.
  \<^item> \<open>Task_Steps\<close>: \<open>ReqRsTask::run\<close> as the sequence of its accesses to shared state
    (\<open>task_micro\<close>), with the events of the loop in between (\<open>fine_step\<close>): it is the atomic task when
    nothing interferes, it keeps the invariant and implements the machine of blocks when the loop
    does, and two of its races with the loop fault. \<open>Late_Task\<close>: what an answer queues, and what a
    task does to the books that runs after its resource is complete.
  \<^item> \<open>Two_Nodes\<close>: two daemons joined by a TCP connection that delivers the bytes in segments of any size
    (\<open>net_step\<close>); a segment may complete several packets, which one callback handles in order. \<open>staged\<close>
    is the argument by which a run of falling measure ends.
  \<^item> \<open>File_Sync\<close>, \<open>Batch_Sync\<close>, \<open>Batch_Run\<close>: the fetch of many files at a time over that connection. The
    ghost state \<open>flow\<close> says how many blocks of each file are free and which requests and answers are
    under way, in the order of the connection; the invariant ties it to the books of the client, its
    files, its queue, and the bytes in both directions. Every handler and every step of the worker
    keeps it, and every run ends with all the files in place.
  \<^item> \<open>Sync_Session\<close>: the whole session over a connection: the request for the table, the table, the
    comparison and the registration of every wanted file, and then the fetch.
  \<^item> \<open>Whole_Program\<close>: from \<open>main_start\<close> on both sides, through the greeting, its answer, the
    connection and the request for the table, to the beginning of that session, and so to the files.

  The interfaces are locales: \<open>weak_order\<close> and \<open>strict_order\<close> (what a map needs of its comparison,
  interpreted for strings, pointers and addresses, the last only weakly), \<open>inet_text\<close> (printing and
  reading an IP address), the framing of packets by \<open>read_cb\<close>, the ledger of blocks, and
  \<open>closed_rel\<close> (a relation every loop of the program keeps) and \<open>staged\<close> (runs that go through
  stages of a falling measure). Each is interpreted where the model
  provides it.

  What is outside \<open>src\<close> is a parameter: the bytes a read or write call transfers, the directory
  tree, SHA3-512, the addresses of the interfaces, whether a connection is accepted (record
  \<open>host\<close>). Laws on them (\<open>read_law\<close>, \<open>write_law\<close>, \<open>digest_law\<close>) are named hypotheses and are
  instantiated in the witnesses.

  Memory. Reads and writes outside a buffer, uninitialised reads, null and dangling pointers are
  faults, so a theorem that a call gives \<open>Inr\<close> includes that it does none of these.

  Bounds. Loops that may not end are partial functions with the value \<open>None\<close> for not returning
  (the header loop of the parser, reading a file, the triggers); theorems that they return are
  stated as such. \<open>read_cb\<close> is bounded by its own limit of 1025 rounds.

  Not modelled: \<open>cxxopts\<close> (third party; its answer for the command line is the argument
  \<open>st_parse\<close>), the logging calls, the inside of libevent and OpenSSL, the examples and tests.
  Handlers of the loop are atomic steps, and so are the operations of the sync manager (they hold its
  mutex, except \<open>regSyncRs\<close> and the access to the whole map); a task is atomic in \<open>dm_step\<close> and a sequence of accesses in \<open>fine_step\<close>. Data races inside a
  single access (copying an entry while another thread writes it) are not modelled. The steps of the
  transition system go on after an event that would end the loop, which only adds states. The
  schedules of \<open>net_step\<close> are about one connection and have no timers: a second round of the table trigger
  while a session is under way, and the connection the server may open in turn, are not in them. The
  server lists up to 1000 files, and the client wants up to 205 of them: five blocks of each may be under
  way, and one callback handles 1025 packets and strands the rest.
\<close>

end
